(* ===== verification/Go_Prelude.thy ===== *)
theory Go_Prelude
  imports Main
    "HOL-Library.Word"
    "HOL-Library.Multiset"
    "HOL-Library.List_Lexorder"
    "HOL-Library.Char_ord"
    "HOL-Library.Product_Lexorder"
begin

section \<open>Shared vocabulary of the development\<close>

text \<open>
  The Go vocabulary every component uses: fixed-width integers (\<open>int32\<close>, \<open>int64\<close> as words read
  with \<^const>\<open>sint\<close>), Go maps as association lists with distinct keys (so that \<open>range\<close> loops are
  executable and maps can be iterated), panics as values of \<open>outcome\<close>, and the counting lemmas
  that relate a map to the number of its entries with a property. The interface of Go's maps
  is the locale \<open>go_map\<close>, interpreted on the association lists that all components use.
\<close>

named_theorems gomap_simps \<open>lookup, insertion, deletion and key laws of Go maps\<close>
named_theorems count_simps \<open>how map updates change the number of matching entries\<close>
named_theorems int32_simps \<open>signed reading of small counters kept in int32\<close>

subsection \<open>Machine integers and panics\<close>

type_synonym int32 = "32 word"
type_synonym int64 = "64 word"

text \<open>A Go call either returns or panics (here: the dereference of a nil pointer).\<close>

datatype 'a outcome = Ret 'a | Panic string

primrec bindOutcome :: "'a outcome \<Rightarrow> ('a \<Rightarrow> 'b outcome) \<Rightarrow> 'b outcome" where
  "bindOutcome (Ret x) f = f x"
| "bindOutcome (Panic m) f = Panic m"

lemma bind_bindOutcome: "bindOutcome (bindOutcome m f) g = bindOutcome m (\<lambda>x. bindOutcome (f x) g)"
  by (cases m) simp_all

lemma bindOutcome_Ret_iff:
  "bindOutcome m f = Ret y \<longleftrightarrow> (\<exists>x. m = Ret x \<and> f x = Ret y)"
  by (cases m) auto

text \<open>Truncated division, Go's \<open>/\<close> on signed integers.\<close>

definition go_div :: "int \<Rightarrow> int \<Rightarrow> int" where
  "go_div a b = sgn a * sgn b * (\<bar>a\<bar> div \<bar>b\<bar>)"

lemma go_div_nonneg: "0 \<le> a \<Longrightarrow> 0 < b \<Longrightarrow> go_div a b = a div b"
  by (cases "a = 0") (auto simp: go_div_def)

lemma sint32_of_nat [int32_simps]:
  assumes "n < 2 ^ 31"
  shows "sint (of_nat n :: int32) = int n"
  using assms
  by (simp add: sint_uint uint_word_of_int_eq signed_take_bit_int_eq_self take_bit_nat_eq_self
      unsigned_of_nat flip: of_nat_take_bit)

lemma sint32_of_int:
  assumes "- (2 ^ 31) \<le> i" and "i < 2 ^ 31"
  shows "sint (word_of_int i :: int32) = i"
  using assms by (simp add: signed_of_int signed_take_bit_int_eq_self)

lemma sint32_range: "- (2 ^ 31) \<le> sint (w :: int32)" "sint (w :: int32) < 2 ^ 31"
  using sint_greater_eq [of w] sint_less [of w] by simp_all

lemma sint32_add:
  assumes "- (2 ^ 31) \<le> sint a + sint b" and "sint a + sint b < 2 ^ 31"
  shows "sint (a + b :: int32) = sint a + sint b"
proof -
  have "a + b = (word_of_int (sint a + sint b) :: int32)" by simp
  then show ?thesis using sint32_of_int [OF assms] by metis
qed

lemma sint32_diff:
  assumes "- (2 ^ 31) \<le> sint a - sint b" and "sint a - sint b < 2 ^ 31"
  shows "sint (a - b :: int32) = sint a - sint b"
proof -
  have "a - b = (word_of_int (sint a - sint b) :: int32)" by simp
  then show ?thesis using sint32_of_int [OF assms] by metis
qed

lemma of_nat_int32_eq_0:
  assumes "n < 2 ^ 31"
  shows "(of_nat n :: int32) = 0 \<longleftrightarrow> n = 0"
  using sint32_of_nat [OF assms] by auto

subsection \<open>Go maps\<close>

type_synonym ('k, 'v) gomap = "('k \<times> 'v) list"

abbreviation mget :: "('k, 'v) gomap \<Rightarrow> 'k \<Rightarrow> 'v option" where
  "mget m k \<equiv> map_of m k"

fun mput :: "('k, 'v) gomap \<Rightarrow> 'k \<Rightarrow> 'v \<Rightarrow> ('k, 'v) gomap" where
  "mput [] k v = [(k, v)]"
| "mput ((k', v') # m) k v = (if k' = k then (k, v) # m else (k', v') # mput m k v)"

fun mdel :: "('k, 'v) gomap \<Rightarrow> 'k \<Rightarrow> ('k, 'v) gomap" where
  "mdel [] k = []"
| "mdel ((k', v') # m) k = (if k' = k then mdel m k else (k', v') # mdel m k)"

definition wf_gomap :: "('k, 'v) gomap \<Rightarrow> bool" where
  "wf_gomap m \<longleftrightarrow> distinct (map fst m)"

text \<open>Reading a missing key of a \<open>map[string]int32\<close> gives the zero value, of a
  \<open>map[string]string\<close> the empty string.\<close>

definition mget0 :: "('k, int32) gomap \<Rightarrow> 'k \<Rightarrow> int32" where
  "mget0 m k = (case mget m k of None \<Rightarrow> 0 | Some v \<Rightarrow> v)"

definition mgets :: "('k, string) gomap \<Rightarrow> 'k \<Rightarrow> string" where
  "mgets m k = (case mget m k of None \<Rightarrow> '''' | Some v \<Rightarrow> v)"

text \<open>The number of entries whose value satisfies a predicate.\<close>

definition mcount :: "('v \<Rightarrow> bool) \<Rightarrow> ('k, 'v) gomap \<Rightarrow> nat" where
  "mcount P m = length (filter (\<lambda>e. P (snd e)) m)"

lemma mget_mput [simp, gomap_simps]: "mget (mput m k v) k' = (if k' = k then Some v else mget m k')"
  by (induction m) auto

lemma keys_mput [gomap_simps]: "set (map fst (mput m k v)) = insert k (set (map fst m))"
  by (induction m k v rule: mput.induct) auto

lemma keys_mdel [gomap_simps]: "set (map fst (mdel m k)) = set (map fst m) - {k}"
  by (induction m k rule: mdel.induct) auto

lemma mget_mdel [simp, gomap_simps]: "mget (mdel m k) k' = (if k' = k then None else mget m k')"
  by (induction m) auto

lemma wf_gomap_Nil [simp, intro]: "wf_gomap []"
  by (simp add: wf_gomap_def)

lemma wf_gomap_Cons: "wf_gomap (e # m) \<longleftrightarrow> mget m (fst e) = None \<and> wf_gomap m"
  by (auto simp: wf_gomap_def map_of_eq_None_iff)

lemma wf_gomap_mput [simp, intro]: "wf_gomap m \<Longrightarrow> wf_gomap (mput m k v)"
  by (induction m) (auto simp: wf_gomap_Cons)

lemma wf_gomap_mdel [simp, intro]: "wf_gomap m \<Longrightarrow> wf_gomap (mdel m k)"
  by (induction m) (auto simp: wf_gomap_Cons)

lemma mdel_absent [simp]: "mget m k = None \<Longrightarrow> mdel m k = m"
  by (induction m) (auto split: if_splits)

lemma mput_absent: "mget m k = None \<Longrightarrow> mput m k v = m @ [(k, v)]"
  by (induction m) (auto split: if_splits)

lemma mput_Nil_iff [simp]: "mput m k v \<noteq> []"
  by (cases m) (auto split: if_splits)

lemma in_set_mget: "wf_gomap m \<Longrightarrow> (k, v) \<in> set m \<longleftrightarrow> mget m k = Some v"
  by (simp add: wf_gomap_def)

lemma set_mput: "wf_gomap m \<Longrightarrow> set (mput m k v) = insert (k, v) (set m - {k} \<times> UNIV)"
  by (induction m k v rule: mput.induct) (force simp: wf_gomap_def)+

lemma set_mdel: "set (mdel m k) = set m - {k} \<times> UNIV"
  by (induction m k rule: mdel.induct) auto

lemma length_mdel: "length (mdel m k) \<le> length m"
  by (induction m) auto

lemma length_mput: "length (mput m k v) \<le> Suc (length m)"
  by (induction m) auto

text \<open>The abstract interface: a Go map is a finite partial function with a lookup, an
  insertion, a deletion and an enumeration of its entries in some order.\<close>

locale go_map =
  fixes lookup :: "'m \<Rightarrow> 'k \<Rightarrow> 'v option"
    and insert_at :: "'m \<Rightarrow> 'k \<Rightarrow> 'v \<Rightarrow> 'm"
    and delete_at :: "'m \<Rightarrow> 'k \<Rightarrow> 'm"
    and entries :: "'m \<Rightarrow> ('k \<times> 'v) list"
    and ok :: "'m \<Rightarrow> bool"
  assumes lookup_insert: "ok m \<Longrightarrow> lookup (insert_at m k v) = (lookup m)(k \<mapsto> v)"
    and lookup_delete: "ok m \<Longrightarrow> lookup (delete_at m k) = (lookup m)(k := None)"
    and entries_lookup: "ok m \<Longrightarrow> (k, v) \<in> set (entries m) \<longleftrightarrow> lookup m k = Some v"
    and entries_distinct: "ok m \<Longrightarrow> distinct (map fst (entries m))"
    and ok_insert: "ok m \<Longrightarrow> ok (insert_at m k v)"
    and ok_delete: "ok m \<Longrightarrow> ok (delete_at m k)"
begin

definition copy :: "'m \<Rightarrow> 'm \<Rightarrow> 'm" where
  "copy e0 m = fold (\<lambda>(k, v) acc. insert_at acc k v) (entries m) e0"

lemma ok_fold: "ok acc \<Longrightarrow> ok (fold (\<lambda>(k, v) acc. insert_at acc k v) es acc)"
  by (induction es arbitrary: acc) (auto intro: ok_insert)

lemma lookup_fold:
  assumes "ok acc" and "distinct (map fst es)"
  shows "lookup (fold (\<lambda>(k, v) acc. insert_at acc k v) es acc) k =
    (case map_of es k of None \<Rightarrow> lookup acc k | Some v \<Rightarrow> Some v)"
  using assms
proof (induction es arbitrary: acc)
  case (Cons e es)
  obtain a b where e: "e = (a, b)" by (cases e)
  have "ok (insert_at acc a b)" using Cons.prems(1) by (rule ok_insert)
  with Cons e show ?case
    by (auto simp: lookup_insert split: option.splits dest: map_of_SomeD intro: rev_image_eqI)
qed simp

lemma lookup_copy:
  assumes "ok m" and "ok e0" and "lookup e0 = (\<lambda>_. None)"
  shows "lookup (copy e0 m) = lookup m"
proof
  fix k
  have d: "distinct (map fst (entries m))" using assms(1) by (rule entries_distinct)
  have "map_of (entries m) k = lookup m k"
    by (metis entries_lookup [OF assms(1)] d map_of_eq_Some_iff not_Some_eq)
  then show "lookup (copy e0 m) k = lookup m k"
    using assms by (simp add: copy_def lookup_fold [OF assms(2) d] split: option.splits)
qed

end

interpretation gm: go_map mget mput mdel "\<lambda>m. m" wf_gomap
  by unfold_locales (auto simp: fun_eq_iff in_set_mget, simp add: wf_gomap_def)

text \<open>A Go \<open>for k, v := range m { c[k] = v }\<close> copy, and that it is the map itself.\<close>

definition copyMap :: "('k, 'v) gomap \<Rightarrow> ('k, 'v) gomap" where
  "copyMap m = fold (\<lambda>(k, v) acc. mput acc k v) m []"

lemma fold_mput_append:
  "distinct (map fst (acc @ m)) \<Longrightarrow> fold (\<lambda>(k, v) acc. mput acc k v) m acc = acc @ m"
proof (induction m arbitrary: acc)
  case (Cons e m)
  obtain k v where e: "e = (k, v)" by (cases e)
  have "mget acc k = None" using Cons.prems e by (auto simp: map_of_eq_None_iff)
  then have "mput acc k v = acc @ [(k, v)]" by (rule mput_absent)
  moreover have "distinct (map fst ((acc @ [(k, v)]) @ m))" using Cons.prems e by simp
  ultimately show ?case using Cons.IH [of "acc @ [(k, v)]"] e by simp
qed simp

lemma copyMap_id [simp]: "wf_gomap m \<Longrightarrow> copyMap m = m"
  using fold_mput_append [of "[]" m] by (simp add: copyMap_def wf_gomap_def)

subsection \<open>Counting entries\<close>

lemma mcount_Nil [simp, count_simps]: "mcount P [] = 0"
  by (simp add: mcount_def)

lemma mcount_Cons [simp]: "mcount P (e # m) = (if P (snd e) then Suc (mcount P m) else mcount P m)"
  by (simp add: mcount_def)

lemma mcount_le_length: "mcount P m \<le> length m"
  by (simp add: mcount_def)

lemma mcount_mput_absent [count_simps]:
  "mget m k = None \<Longrightarrow> mcount P (mput m k v) = mcount P m + (if P v then 1 else 0)"
  by (simp add: mput_absent mcount_def)

lemma mcount_pos: "mget m k = Some v \<Longrightarrow> P v \<Longrightarrow> 0 < mcount P m"
  by (induction m) (auto split: if_splits)

lemma mcount_mdel [count_simps]:
  assumes "wf_gomap m"
  shows "mcount P (mdel m k) = mcount P m - (case mget m k of Some v \<Rightarrow> (if P v then 1 else 0) | None \<Rightarrow> 0)"
  using assms
  by (induction m) (auto simp: wf_gomap_Cons dest!: mcount_pos [where P = P] split: option.splits)

lemma mcount_card:
  assumes "wf_gomap m"
  shows "mcount P m = card {k. \<exists>v. mget m k = Some v \<and> P v}"
  using assms
proof (induction m)
  case (Cons e m)
  obtain k v where e: "e = (k, v)" by (cases e)
  from Cons.prems e have nk: "mget m k = None" and wf: "wf_gomap m" by (auto simp: wf_gomap_Cons)
  let ?S = "{k'. \<exists>v'. mget m k' = Some v' \<and> P v'}"
  have fin: "finite ?S"
    by (rule finite_subset [of _ "dom (map_of m)"]) (auto simp: finite_dom_map_of)
  have "{k'. \<exists>v'. mget (e # m) k' = Some v' \<and> P v'} = (if P v then insert k ?S else ?S)"
    using nk e by (auto split: if_splits)
  moreover have "k \<notin> ?S" using nk by simp
  ultimately show ?case using Cons.IH [OF wf] fin e by simp
qed simp

lemma mcount_update_same:
  assumes "wf_gomap m" and "mget m k = Some old" and "P old = P v"
  shows "mcount P (mput m k v) = mcount P m"
  using assms by (induction m) (auto simp: wf_gomap_Cons split: if_splits)

subsection \<open>Lists\<close>


subsection \<open>Invariants of transition systems\<close>

text \<open>The interface of a transition system with an inductive invariant: what holds initially and is kept by
  every step holds in every reachable state, and along the whole run that leads to it.\<close>

locale invariant_system =
  fixes init :: "'s \<Rightarrow> bool"
    and step :: "'s \<Rightarrow> 's \<Rightarrow> bool"
    and inv :: "'s \<Rightarrow> bool"
  assumes init_inv: "init s \<Longrightarrow> inv s"
    and step_inv: "step s s' \<Longrightarrow> inv s \<Longrightarrow> inv s'"
begin

lemma steps_inv: "step\<^sup>*\<^sup>* s t \<Longrightarrow> inv s \<Longrightarrow> inv t"
  by (induction rule: rtranclp_induct) (auto intro: step_inv)

lemma reachable_inv: "init s \<Longrightarrow> step\<^sup>*\<^sup>* s t \<Longrightarrow> inv t"
  using steps_inv init_inv by blast

end

text \<open>A detailed system that simulates an abstract one: each of its steps is a run of abstract steps, on
  states that satisfy both invariants. What the abstract system reaches, the detailed one inherits.\<close>

locale simulation = invariant_system init step inv
  for init :: "'s \<Rightarrow> bool" and step :: "'s \<Rightarrow> 's \<Rightarrow> bool" and inv :: "'s \<Rightarrow> bool" +
  fixes cinit :: "'c \<Rightarrow> bool"
    and cstep :: "'c \<Rightarrow> 'c \<Rightarrow> bool"
    and cinv :: "'c \<Rightarrow> bool"
    and abs :: "'c \<Rightarrow> 's"
  assumes cinit_inv: "cinit c \<Longrightarrow> cinv c"
    and cinit_abs: "cinit c \<Longrightarrow> init (abs c)"
    and cstep_inv: "cstep c c' \<Longrightarrow> cinv c \<Longrightarrow> inv (abs c) \<Longrightarrow> cinv c'"
    and cstep_abs: "cstep c c' \<Longrightarrow> cinv c \<Longrightarrow> inv (abs c) \<Longrightarrow> step\<^sup>*\<^sup>* (abs c) (abs c')"
begin

lemma runs:
  assumes "cinit c0" and "cstep\<^sup>*\<^sup>* c0 c"
  shows "cinv c \<and> step\<^sup>*\<^sup>* (abs c0) (abs c) \<and> inv (abs c)"
  using assms(2)
proof (induction rule: rtranclp_induct)
  case base
  show ?case using cinit_inv cinit_abs init_inv assms(1) by blast
next
  case (step c c')
  then have "cinv c'" "step\<^sup>*\<^sup>* (abs c) (abs c')" using cstep_inv cstep_abs by blast+
  with step.IH show ?case using steps_inv by (blast intro: rtranclp_trans)
qed

end

subsection \<open>Data refinement\<close>

text \<open>Operations that answer and change a state, run in sequence.\<close>

primrec runOps :: "('op \<Rightarrow> 's \<Rightarrow> 'o \<times> 's) \<Rightarrow> 'op list \<Rightarrow> 's \<Rightarrow> 'o list \<times> 's" where
  "runOps step [] s = ([], s)"
| "runOps step (op # ops) s = (let (out, s1) = step op s; (outs, s2) = runOps step ops s1 in (out # outs, s2))"

text \<open>An implementation refines a specification along an abstraction function if every operation answers
  alike and commutes with the abstraction, on states that satisfy an invariant. The invariant carries a
  budget that each operation consumes: it bounds how far machine integers may still grow.\<close>

locale data_refinement =
  fixes cstep :: "'op \<Rightarrow> 's \<Rightarrow> 'o \<times> 's"
    and astep :: "'op \<Rightarrow> 'a \<Rightarrow> 'o \<times> 'a"
    and abs :: "'s \<Rightarrow> 'a"
    and inv :: "nat \<Rightarrow> 's \<Rightarrow> bool"
    and cost :: "'op \<Rightarrow> nat"
    and legal :: "'op \<Rightarrow> bool"
  assumes keeps_inv: "legal op \<Longrightarrow> inv (cost op + b) s \<Longrightarrow> inv b (snd (cstep op s))"
    and simulates: "legal op \<Longrightarrow> inv (cost op + b) s \<Longrightarrow>
      astep op (abs s) = (fst (cstep op s), abs (snd (cstep op s)))"
begin

lemma run_refines:
  assumes "list_all legal ops" and "inv (sum_list (map cost ops) + b) s"
  shows "inv b (snd (runOps cstep ops s)) \<and>
    runOps astep ops (abs s) = (fst (runOps cstep ops s), abs (snd (runOps cstep ops s)))"
  using assms
proof (induction ops arbitrary: s)
  case (Cons op ops)
  have legal: "legal op" "inv (cost op + (sum_list (map cost ops) + b)) s"
    using Cons.prems by (simp_all add: add.assoc)
  have "inv (sum_list (map cost ops) + b) (snd (cstep op s))" by (rule keeps_inv [OF legal])
  with Cons have "inv b (snd (runOps cstep ops (snd (cstep op s)))) \<and>
      runOps astep ops (abs (snd (cstep op s))) =
        (fst (runOps cstep ops (snd (cstep op s))), abs (snd (runOps cstep ops (snd (cstep op s)))))"
    by simp
  then show ?case by (simp add: simulates [OF legal] case_prod_unfold Let_def)
qed simp

end

end
