(* ===== verification/Go_Std.thy ===== *)
theory Go_Std
  imports Go_Prelude
begin

section \<open>The parts of Go's standard library the program uses\<close>

text \<open>
  Byte strings are \<^typ>\<open>string\<close> (a \<^typ>\<open>char\<close> is one byte). Modelled here: \<open>encoding/json\<close>'s
  string encoder (HTML-safe escaping, invalid UTF-8 replaced), decimal printing of integers,
  \<open>encoding/hex\<close>, \<open>crypto/sha256\<close> (FIPS 180-4), \<open>strings.Join\<close>, \<open>strings.Index\<close>,
  \<open>strings.LastIndex\<close>, \<open>strings.TrimSpace\<close> and \<open>sort.Strings\<close>. The lemmas are the ones the
  components need: JSON strings of ASCII text can be read back (so the encoding is injective on
  them), hexadecimal digests have a fixed length, sorting does not depend on the input's order.
\<close>

subsection \<open>Bytes and UTF-8\<close>

abbreviation byte :: "char \<Rightarrow> nat" where
  "byte c \<equiv> of_char c"

definition ascii :: "string \<Rightarrow> bool" where
  "ascii s \<longleftrightarrow> list_all (\<lambda>c. byte c < 128) s"

definition between :: "nat \<Rightarrow> nat \<Rightarrow> char \<Rightarrow> bool" where
  "between lo hi c \<longleftrightarrow> lo \<le> byte c \<and> byte c \<le> hi"

text \<open>\<open>utf8.DecodeRuneInString\<close>: the length of the well-formed sequence at the head of the string,
  0 where the bytes are not well-formed UTF-8.\<close>

definition runeLen :: "string \<Rightarrow> nat" where
  "runeLen s = (case s of
     [] \<Rightarrow> 0
   | c0 # s1 \<Rightarrow>
       if byte c0 < 128 then 1
       else (case s1 of
         [] \<Rightarrow> 0
       | c1 # s2 \<Rightarrow>
           if between 194 223 c0 \<and> between 128 191 c1 then 2
           else (case s2 of
             [] \<Rightarrow> 0
           | c2 # s3 \<Rightarrow>
               if between 128 191 c2 \<and>
                  (byte c0 = 224 \<and> between 160 191 c1
                   \<or> between 225 236 c0 \<and> between 128 191 c1
                   \<or> byte c0 = 237 \<and> between 128 159 c1
                   \<or> between 238 239 c0 \<and> between 128 191 c1) then 3
               else (case s3 of
                 [] \<Rightarrow> 0
               | c3 # _ \<Rightarrow>
                   if between 128 191 c2 \<and> between 128 191 c3 \<and>
                      (byte c0 = 240 \<and> between 144 191 c1
                       \<or> between 241 243 c0 \<and> between 128 191 c1
                       \<or> byte c0 = 244 \<and> between 128 143 c1) then 4
                   else 0))))"

subsection \<open>Hexadecimal and decimal\<close>

definition hexDigit :: "nat \<Rightarrow> char" where
  "hexDigit n = (if n < 10 then char_of (48 + n) else char_of (87 + n))"

definition hexByte :: "nat \<Rightarrow> string" where
  "hexByte b = [hexDigit (b div 16 mod 16), hexDigit (b mod 16)]"

fun showNat :: "nat \<Rightarrow> string" where
  "showNat n = (if n < 10 then [char_of (48 + n)] else showNat (n div 10) @ [char_of (48 + n mod 10)])"

declare showNat.simps [simp del]

definition showInt :: "int \<Rightarrow> string" where
  "showInt i = (if i < 0 then CHR ''-'' # showNat (nat (- i)) else showNat (nat i))"

subsection \<open>JSON strings\<close>

text \<open>\<open>encoding/json\<close> with HTML escaping on, as \<open>json.Marshal\<close> uses it (Go 1.22).\<close>

definition escapeAscii :: "char \<Rightarrow> string" where
  "escapeAscii c =
     (if c = CHR 0x22 \<or> c = CHR 0x5C then [CHR 0x5C, c]
      else if byte c = 8 then [CHR 0x5C, CHR ''b'']
      else if byte c = 12 then [CHR 0x5C, CHR ''f'']
      else if byte c = 10 then [CHR 0x5C, CHR ''n'']
      else if byte c = 13 then [CHR 0x5C, CHR ''r'']
      else if byte c = 9 then [CHR 0x5C, CHR ''t'']
      else if byte c < 32 \<or> c = CHR ''<'' \<or> c = CHR ''>'' \<or> c = CHR ''&''
        then CHR 0x5C # ''u00'' @ hexByte (byte c)
      else [c])"

function jsonChars :: "string \<Rightarrow> string" where
  "jsonChars [] = []"
| "jsonChars (c # s) =
     (if byte c < 128 then escapeAscii c @ jsonChars s
      else (let n = runeLen (c # s) in
        if n = 0 then CHR 0x5C # ''ufffd'' @ jsonChars s
        else if take 3 (c # s) = [CHR 0xE2, CHR 0x80, CHR 0xA8] then CHR 0x5C # ''u2028'' @ jsonChars (drop 3 (c # s))
        else if take 3 (c # s) = [CHR 0xE2, CHR 0x80, CHR 0xA9] then CHR 0x5C # ''u2029'' @ jsonChars (drop 3 (c # s))
        else take n (c # s) @ jsonChars (drop n (c # s))))"
  by pat_completeness auto
termination
  by (relation "measure length") auto

definition jsonString :: "string \<Rightarrow> string" where
  "jsonString s = CHR 0x22 # jsonChars s @ [CHR 0x22]"

fun jsonSep :: "string list \<Rightarrow> string" where
  "jsonSep [] = []"
| "jsonSep [x] = x"
| "jsonSep (x # y # xs) = x @ '','' @ jsonSep (y # xs)"

definition jsonArray :: "string list \<Rightarrow> string" where
  "jsonArray xs = ''['' @ jsonSep xs @ '']''"

text \<open>A member of a JSON object: the quoted key, a colon and the encoded value.\<close>

definition jsonMember :: "string \<Rightarrow> string \<Rightarrow> string" where
  "jsonMember k v = jsonString k @ '':'' @ v"

definition jsonObject :: "string list \<Rightarrow> string" where
  "jsonObject ms = ''{'' @ jsonSep ms @ ''}''"

text \<open>\<open>map[string]string\<close> is encoded with its keys in increasing order.\<close>

definition jsonStringMap :: "(string, string) gomap \<Rightarrow> string" where
  "jsonStringMap m = jsonObject (map (\<lambda>(k, v). jsonMember k (jsonString v)) (sort_key fst m))"

subsection \<open>SHA-256\<close>

unbundle bit_operations_syntax

text \<open>
  The constants are the first 32 fractional bits of the square roots of the first 8 primes
  (initial hash value) and of the cube roots of the first 64 primes (round constants); the
  roots are found bit by bit and \<open>of_nat\<close> keeps the low 32 bits.
\<close>

definition smallPrimes :: "nat list" where
  "smallPrimes = [p \<leftarrow> [2..<312]. list_all (\<lambda>d. p mod d \<noteq> 0) [2..<p]]"

definition rootFraction :: "nat \<Rightarrow> nat \<Rightarrow> int32" where
  "rootFraction n p =
     of_nat (fold (\<lambda>b r. if (r + 2 ^ b) ^ n \<le> p * 2 ^ (32 * n) then r + 2 ^ b else r) (rev [0..<40]) 0)"

definition sha256_k :: "int32 list" where
  "sha256_k = map (rootFraction 3) (take 64 smallPrimes)"

definition sha256_h0 :: "int32 list" where
  "sha256_h0 = map (rootFraction 2) [2, 3, 5, 7, 11, 13, 17, 19]"

text \<open>Padding: the bit 1, zeros up to 56 modulo 64 bytes, the bit length in 64 bits.\<close>

definition sha256_pad :: "string \<Rightarrow> int32 list" where
  "sha256_pad s =
     (let n = length s; z = (119 - n mod 64) mod 64
      in map of_char s @ 128 # replicate z 0 @ map (\<lambda>i. of_nat (8 * n div 256 ^ (7 - i) mod 256)) [0..<8])"

fun sha256_words :: "int32 list \<Rightarrow> int32 list" where
  "sha256_words (a # b # c # d # bs) = (((a * 256 + b) * 256 + c) * 256 + d) # sha256_words bs"
| "sha256_words _ = []"

text \<open>The message schedule: the 16 words of the block, then 48 more, newest first.\<close>

definition sha256_next :: "int32 list \<Rightarrow> int32" where
  "sha256_next rw =
     (let w15 = rw ! 14; w2 = rw ! 1;
          s0 = word_rotr 7 w15 XOR word_rotr 18 w15 XOR drop_bit 3 w15;
          s1 = word_rotr 17 w2 XOR word_rotr 19 w2 XOR drop_bit 10 w2
      in rw ! 15 + s0 + rw ! 6 + s1)"

primrec sha256_extend :: "nat \<Rightarrow> int32 list \<Rightarrow> int32 list" where
  "sha256_extend 0 rw = rw"
| "sha256_extend (Suc n) rw = sha256_extend n (sha256_next rw # rw)"

fun sha256_round :: "int32 \<times> int32 \<Rightarrow> int32 list \<Rightarrow> int32 list" where
  "sha256_round (k, w) [a, b, c, d, e, f, g, h] =
     (let s1 = word_rotr 6 e XOR word_rotr 11 e XOR word_rotr 25 e;
          ch = (e AND f) XOR (NOT e AND g);
          t1 = h + s1 + ch + k + w;
          s0 = word_rotr 2 a XOR word_rotr 13 a XOR word_rotr 22 a;
          maj = (a AND b) XOR (a AND c) XOR (b AND c)
      in [t1 + (s0 + maj), a, b, c, d + t1, e, f, g])"
| "sha256_round _ st = st"

definition sha256_block :: "int32 list \<Rightarrow> int32 list \<Rightarrow> int32 list" where
  "sha256_block hs ws =
     (let sched = rev (sha256_extend 48 (rev ws))
      in map2 (+) hs (fold sha256_round (zip sha256_k sched) hs))"

function sha256_blocks :: "int32 list \<Rightarrow> int32 list \<Rightarrow> int32 list" where
  "sha256_blocks hs ws =
     (if ws = [] then hs else sha256_blocks (sha256_block hs (take 16 ws)) (drop 16 ws))"
  by pat_completeness auto
termination
  by (relation "measure (\<lambda>(hs, ws). length ws)") auto

declare sha256_blocks.simps [simp del]

text \<open>\<open>hex.EncodeToString(sha256.Sum256(s))\<close>.\<close>

definition wordHex :: "int32 \<Rightarrow> string" where
  "wordHex w = map (\<lambda>i. hexDigit (unat (drop_bit (4 * (7 - i)) w AND 15))) [0..<8]"

definition sha256Hex :: "string \<Rightarrow> string" where
  "sha256Hex s = concat (map wordHex (sha256_blocks sha256_h0 (sha256_words (sha256_pad s))))"

subsection \<open>Strings\<close>

fun joinStrings :: "string \<Rightarrow> string list \<Rightarrow> string" where
  "joinStrings sep [] = []"
| "joinStrings sep [x] = x"
| "joinStrings sep (x # y # xs) = x @ sep @ joinStrings sep (y # xs)"

text \<open>\<open>strings.Index\<close> and \<open>strings.LastIndex\<close> for a one-byte needle; \<open>None\<close> is Go's -1.\<close>

fun indexByte :: "string \<Rightarrow> char \<Rightarrow> nat option" where
  "indexByte [] c = None"
| "indexByte (x # s) c = (if x = c then Some 0 else map_option Suc (indexByte s c))"

definition lastIndexByte :: "string \<Rightarrow> char \<Rightarrow> nat option" where
  "lastIndexByte s c = map_option (\<lambda>i. length s - Suc i) (indexByte (rev s) c)"

text \<open>The UTF-8 encodings of the code points for which \<open>unicode.IsSpace\<close> holds.\<close>

definition spaceRunes :: "string list" where
  "spaceRunes =
     map (\<lambda>b. [char_of (b::nat)]) [9, 10, 11, 12, 13, 32] @
     map (map char_of) ([[194, 133], [194, 160], [225, 154, 128], [226, 128, 168], [226, 128, 169],
       [226, 128, 175], [226, 129, 159], [227, 128, 128]] @
       map (\<lambda>i. [226, 128, 128 + i]) [0..<11] :: nat list list)"

definition startsWith :: "string \<Rightarrow> string \<Rightarrow> bool" where
  "startsWith s p \<longleftrightarrow> take (length p) s = p"

function trimLeft :: "string list \<Rightarrow> string \<Rightarrow> string" where
  "trimLeft ps s = (case find (\<lambda>p. p \<noteq> [] \<and> startsWith s p) ps of
     None \<Rightarrow> s | Some p \<Rightarrow> trimLeft ps (drop (length p) s))"
  by pat_completeness auto
termination
proof (relation "measure (\<lambda>(ps, s). length s)")
  fix ps :: "string list" and s p :: string
  assume "find (\<lambda>p. p \<noteq> [] \<and> startsWith s p) ps = Some p"
  then have "p \<noteq> []" and "take (length p) s = p"
    by (auto simp: find_Some_iff startsWith_def)
  then show "((ps, drop (length p) s), ps, s) \<in> measure (\<lambda>(ps, s). length s)"
    by (cases s) auto
qed simp

declare trimLeft.simps [simp del]

definition trimSpace :: "string \<Rightarrow> string" where
  "trimSpace s = rev (trimLeft (map rev spaceRunes) (rev (trimLeft spaceRunes s)))"

subsection \<open>Dates\<close>

text \<open>\<open>Time.UTC().Format(time.RFC3339)\<close> of an instant in nanoseconds since 1970. The civil date is computed
  in the proleptic Gregorian calendar with years that begin in March, 400 years being 146097 days.\<close>

definition civilDate :: "int \<Rightarrow> int \<times> int \<times> int" where
  "civilDate days =
     (let z = days + 719468; doe = z mod 146097;
          yoe = (doe - doe div 1460 + doe div 36524 - doe div 146096) div 365;
          doy = doe - (365 * yoe + yoe div 4 - yoe div 100);
          mp = (5 * doy + 2) div 153;
          m = (if mp < 10 then mp + 3 else mp - 9)
      in (yoe + z div 146097 * 400 + (if m \<le> 2 then 1 else 0), m, doy - (153 * mp + 2) div 5 + 1))"

definition padInt :: "nat \<Rightarrow> int \<Rightarrow> string" where
  "padInt w i = (let s = showNat (nat i) in replicate (w - length s) (CHR ''0'') @ s)"

definition formatRFC3339 :: "int \<Rightarrow> string" where
  "formatRFC3339 t =
     (let secs = t div 1000000000; (y, m, d) = civilDate (secs div 86400); sod = secs mod 86400
      in padInt 4 y @ ''-'' @ padInt 2 m @ ''-'' @ padInt 2 d @ ''T'' @ padInt 2 (sod div 3600) @ '':'' @
         padInt 2 (sod div 60 mod 60) @ '':'' @ padInt 2 (sod mod 60) @ ''Z'')"

subsection \<open>Sorting\<close>

text \<open>A sorted permutation is unique when the sort key is injective on the elements, so the
  outcome of Go's unstable \<open>sort.Slice\<close> is \<^const>\<open>sort_key\<close> there, and does not depend on the order
  of the input.\<close>

lemma sorted_permutation_unique:
  assumes "mset xs = mset ys" and "inj_on f (set xs)" and "sorted (map f xs)" and "sorted (map f ys)"
  shows "xs = ys"
proof -
  have "mset (map f xs) = mset (map f ys)" using assms(1) by simp
  then have "map f xs = map f ys"
    using assms(3,4) by (metis properties_for_sort)
  moreover have "inj_on f (set xs \<union> set ys)"
    using assms(1,2) by (metis mset_eq_setD sup.idem)
  ultimately show ?thesis by (simp add: inj_on_map_eq_map)
qed

lemma sort_key_permutation:
  assumes "mset xs = mset ys" and "inj_on f (set xs)"
  shows "sort_key f xs = sort_key f ys"
proof (rule sorted_permutation_unique [where f = f])
  show "mset (sort_key f xs) = mset (sort_key f ys)" using assms(1) by simp
  show "inj_on f (set (sort_key f xs))" using assms(2) by simp
qed simp_all

lemma sort_permutation: "mset xs = mset ys \<Longrightarrow> sort xs = sort ys"
  by (rule properties_for_sort) simp_all

text \<open>Sorting by a key and then reading only the keys: ties do not matter.\<close>

lemma map_sort_key_permutation:
  assumes "mset xs = mset ys"
  shows "map f (sort_key f xs) = map f (sort_key f ys)"
proof -
  have "map f (sort_key f zs) = sort (map f zs)" for zs
    by (rule sym, rule properties_for_sort) simp_all
  moreover have "sort (map f xs) = sort (map f ys)"
    using assms by (intro sort_permutation) simp
  ultimately show ?thesis by simp
qed

subsection \<open>Digests have a fixed length\<close>

lemma length_sha256_round: "length st = 8 \<Longrightarrow> length (sha256_round kw st) = 8"
  by (induction kw st rule: sha256_round.induct) (auto simp: Let_def)

lemma length_sha256_rounds: "length st = 8 \<Longrightarrow> length (fold sha256_round kws st) = 8"
  by (induction kws arbitrary: st) (auto simp: length_sha256_round)

lemma length_sha256_block: "length hs = 8 \<Longrightarrow> length (sha256_block hs ws) = 8"
  by (simp add: sha256_block_def Let_def length_sha256_rounds)

lemma length_sha256_blocks: "length hs = 8 \<Longrightarrow> length (sha256_blocks hs ws) = 8"
proof (induction hs ws rule: sha256_blocks.induct)
  case (1 hs ws)
  then show ?case
    by (subst sha256_blocks.simps) (auto simp: length_sha256_block)
qed

lemma length_concat_wordHex: "length (concat (map wordHex ws)) = 8 * length ws"
  by (induction ws) (auto simp: wordHex_def)

lemma length_sha256Hex [simp]: "length (sha256Hex s) = 64"
  by (simp add: sha256Hex_def length_concat_wordHex length_sha256_blocks sha256_h0_def)

subsection \<open>JSON strings of ASCII text can be read back\<close>

definition hexVal :: "char \<Rightarrow> nat" where
  "hexVal c = (if byte c < 58 then byte c - 48 else byte c - 87)"

definition shortEscape :: "char \<Rightarrow> char" where
  "shortEscape d =
     (if d = CHR ''b'' then char_of (8::nat) else if d = CHR ''f'' then char_of (12::nat)
      else if d = CHR ''n'' then char_of (10::nat) else if d = CHR ''r'' then char_of (13::nat)
      else if d = CHR ''t'' then char_of (9::nat) else d)"

fun readJson :: "string \<Rightarrow> (string \<times> string) option" where
  "readJson [] = None"
| "readJson (c # s) =
     (if c = CHR 0x22 then Some ([], s)
      else if c = CHR 0x5C then
        (case s of
           [] \<Rightarrow> None
         | d # s1 \<Rightarrow>
             if d = CHR ''u'' then
               (case s1 of
                  _ # _ # x # y # s2 \<Rightarrow>
                    map_option (apfst (Cons (char_of (16 * hexVal x + hexVal y)))) (readJson s2)
                | _ \<Rightarrow> None)
             else map_option (apfst (Cons (shortEscape d))) (readJson s1))
      else map_option (apfst (Cons c)) (readJson s))"

lemma byte_lt_256: "byte c < 256"
  using of_char_mod_256 [where 'a = nat] by (metis mod_less_divisor zero_less_numeral)

lemma byte_char_of: "n < 256 \<Longrightarrow> byte (char_of n) = n"
  by (simp add: of_char_of)

lemma hexVal_hexDigit: "n < 16 \<Longrightarrow> hexVal (hexDigit n) = n"
  by (auto simp: hexVal_def hexDigit_def byte_char_of)

lemma hexByte_value:
  "char_of (16 * hexVal (hexDigit (byte c div 16 mod 16)) + hexVal (hexDigit (byte c mod 16))) = c"
proof -
  have "byte c div 16 < 16" using byte_lt_256 [of c] by linarith
  then have "16 * (byte c div 16 mod 16) + byte c mod 16 = byte c" by simp
  then show ?thesis by (simp add: hexVal_hexDigit)
qed

lemma byte_eqD: "byte c = n \<Longrightarrow> c = char_of n"
  by auto

lemma readJson_escapeAscii:
  "readJson (escapeAscii c @ t) = map_option (apfst (Cons c)) (readJson t)"
proof -
  consider (quote) "c = CHR 0x22 \<or> c = CHR 0x5C"
    | (short) "byte c = 8 \<or> byte c = 12 \<or> byte c = 10 \<or> byte c = 13 \<or> byte c = 9"
    | (other) "\<not> (c = CHR 0x22 \<or> c = CHR 0x5C)"
        "\<not> (byte c = 8 \<or> byte c = 12 \<or> byte c = 10 \<or> byte c = 13 \<or> byte c = 9)"
    by blast
  then show ?thesis
  proof cases
    case quote
    then show ?thesis by (auto simp: escapeAscii_def shortEscape_def)
  next
    case short
    then show ?thesis
      by (elim disjE) (drule byte_eqD, simp add: escapeAscii_def shortEscape_def)+
  next
    case other
    then show ?thesis by (auto simp: escapeAscii_def hexByte_def hexByte_value)
  qed
qed

lemma readJson_jsonChars:
  "ascii s \<Longrightarrow> readJson (jsonChars s @ CHR 0x22 # rest) = Some (s, rest)"
  by (induction s) (simp_all add: ascii_def readJson_escapeAscii)

lemma jsonString_inj:
  assumes "ascii s" and "ascii t" and "jsonString s @ xs = jsonString t @ ys"
  shows "s = t" and "xs = ys"
proof -
  have "readJson (jsonChars s @ CHR 0x22 # xs) = readJson (jsonChars t @ CHR 0x22 # ys)"
    using assms(3) by (simp add: jsonString_def)
  then have "(s, xs) = (t, ys)"
    by (simp add: readJson_jsonChars [OF assms(1)] readJson_jsonChars [OF assms(2)])
  then show "s = t" and "xs = ys" by auto
qed

lemma indexByte_append: "c \<notin> set xs \<Longrightarrow> indexByte (xs @ c # ys) c = Some (length xs)"
  by (induction xs) auto

end
