(* ===== verification/K8s_Api.thy ===== *)
theory K8s_Api
  imports Go_Std
begin

section \<open>Kubernetes objects and the ServiceSpreadPolicy API\<close>

text \<open>
  The data the program reads. Kubernetes' own types (pods, nodes, taints, tolerations, selectors)
  are records with the fields the source reads; pointers that may be nil are options.
  \<open>ServiceSpreadPolicy\<close> is \<open>api/v1alpha1/types.go\<close>, \<open>ServiceSpreadArgs\<close> is
  \<open>apis/config/v1alpha1/types.go\<close>. Functions of Kubernetes packages that the source calls are not
  part of this repository: they are the fields of the record \<open>k8s_lib\<close>, an argument of every
  definition that uses them.
\<close>

subsection \<open>Selectors, taints and tolerations\<close>

record requirement =
  rq_Key :: string
  rq_Operator :: string
  rq_Values :: "string list"

record nodeSelectorTerm =
  MatchExpressions :: "requirement list"
  MatchFields :: "requirement list"

record nodeSelector =
  NodeSelectorTerms :: "nodeSelectorTerm list"

record nodeAffinity =
  RequiredDuringScheduling :: "nodeSelector option"
  PreferredDuringScheduling :: "(int32 \<times> nodeSelectorTerm) list"

record affinity =
  NodeAffinity :: "nodeAffinity option"

record toleration =
  tol_Key :: string
  tol_Operator :: string
  tol_Value :: string
  tol_Effect :: string
  tol_TolerationSeconds :: "int64 option"

record taint =
  taint_Key :: string
  taint_Value :: string
  taint_Effect :: string

record labelSelector =
  MatchLabels :: "(string, string) gomap"
  LabelExpressions :: "requirement list"

subsection \<open>Pods, nodes and owners\<close>

record ownerReference =
  or_Kind :: string
  or_Name :: string
  or_Controller :: "bool option"

record podSpec =
  ps_SchedulerName :: string
  ps_NodeName :: string
  ps_NodeSelector :: "(string, string) gomap"
  ps_Affinity :: "affinity option"
  ps_Tolerations :: "toleration list"

record pod =
  pod_UID :: string
  pod_Name :: string
  pod_Namespace :: string
  pod_Labels :: "(string, string) gomap"
  pod_OwnerReferences :: "ownerReference list"
  pod_Spec :: podSpec
  pod_Phase :: string

record node =
  node_Name :: string
  node_Labels :: "(string, string) gomap"
  node_Unschedulable :: bool
  node_Taints :: "taint list"
  node_Conditions :: "(string \<times> string) list"

type_synonym uid = string

subsection \<open>The policy resource\<close>

record ServiceSpreadPolicySpec =
  pol_SchedulerName :: string
  pol_ServiceSelector :: labelSelector
  pol_MaxSkew :: int32
  pol_MaxPodsPerNode :: int32

record ServiceSpreadPolicy =
  pol_Name :: string
  pol_Namespace :: string
  pol_Spec :: ServiceSpreadPolicySpec

definition PolicyNamePrefix :: string where
  "PolicyNamePrefix = ''ssp-''"

text \<open>The group and version of the resource.\<close>

definition GroupVersion :: "string \<times> string" where
  "GroupVersion = (''scheduling.soyup.top'', ''v1alpha1'')"

subsection \<open>The plugin arguments\<close>

text \<open>Durations are nanoseconds; \<open>time.Duration\<close> is a 64-bit integer and every duration of the
  program stays far below its limits once validated (at most 24 hours).\<close>

type_synonym duration = int

definition Second :: duration where "Second = 1000000000"
definition Minute :: duration where "Minute = 60 * Second"
definition Hour :: duration where "Hour = 60 * Minute"

definition DefaultManagedSchedulerName :: string where
  "DefaultManagedSchedulerName = ''service-spread-scheduler''"

definition DefaultFallbackCacheTTL :: duration where "DefaultFallbackCacheTTL = 10 * Minute"
definition DefaultReservationTTL :: duration where "DefaultReservationTTL = 5 * Minute"
definition DefaultReconcilePeriod :: duration where "DefaultReconcilePeriod = 10 * Minute"

lemmas duration_defs = Second_def Minute_def Hour_def DefaultFallbackCacheTTL_def
  DefaultReservationTTL_def DefaultReconcilePeriod_def

record ServiceSpreadArgs =
  args_APIVersion :: string
  args_Kind :: string
  ServiceLabelKey :: string
  RequirePolicy :: "bool option"
  ManagedSchedulerName :: string
  FallbackCacheTTL :: duration
  ReservationTTL :: duration
  ReconcilePeriod :: duration
  ExportNodePods :: "bool option"
  ExportTargetDetail :: "bool option"

subsection \<open>Kubernetes library functions\<close>

text \<open>
  \<open>lib_IsNodeReady\<close> is \<open>nodeutil.IsNodeReady\<close>; \<open>lib_FindUntolerated\<close> is
  \<open>v1helper.FindMatchingUntoleratedTaint\<close> (the first taint that passes the filter and that no
  toleration tolerates, and whether there is one); \<open>lib_LabelsGet\<close> is \<open>labels.Set.Get\<close>;
  \<open>lib_IsQualifiedName\<close> is \<open>validation.IsQualifiedName\<close> (the list of complaints);
  \<open>lib_MaxNodeScore\<close> is \<open>framework.MaxNodeScore\<close>.
\<close>

record k8s_lib =
  lib_IsNodeReady :: "node \<Rightarrow> bool"
  lib_FindUntolerated :: "taint list \<Rightarrow> toleration list \<Rightarrow> (taint \<Rightarrow> bool) \<Rightarrow> taint option \<times> bool"
  lib_LabelsGet :: "(string, string) gomap \<Rightarrow> string \<Rightarrow> string"
  lib_IsQualifiedName :: "string \<Rightarrow> string list"
  lib_MaxNodeScore :: int64

text \<open>What the documentation of those packages says of them, as far as the theorems rely on it.\<close>

definition labels_get_ok :: "k8s_lib \<Rightarrow> bool" where
  "labels_get_ok lib \<longleftrightarrow> lib_LabelsGet lib = mgets"

text \<open>A concrete instance, used where a theorem is evaluated on an example: a node is ready when its
  condition \<open>Ready\<close> is \<open>True\<close>; a toleration with the taint's key, effect and value (or operator
  \<open>Exists\<close>) tolerates it; names are qualified when they are not empty.\<close>

definition example_tolerates :: "toleration \<Rightarrow> taint \<Rightarrow> bool" where
  "example_tolerates tol t \<longleftrightarrow>
     (tol_Effect tol = '''' \<or> tol_Effect tol = taint_Effect t) \<and>
     (tol_Key tol = '''' \<or> tol_Key tol = taint_Key t) \<and>
     (tol_Operator tol = ''Exists'' \<or> tol_Value tol = taint_Value t)"

definition example_lib :: k8s_lib where
  "example_lib = \<lparr>
     lib_IsNodeReady = (\<lambda>n. (''Ready'', ''True'') \<in> set (node_Conditions n)),
     lib_FindUntolerated = (\<lambda>ts tols p.
       (let u = find (\<lambda>t. p t \<and> \<not> list_ex (\<lambda>tol. example_tolerates tol t) tols) ts in (u, u \<noteq> None))),
     lib_LabelsGet = mgets,
     lib_IsQualifiedName = (\<lambda>s. if s = '''' then [''name part must be non-empty''] else []),
     lib_MaxNodeScore = 100\<rparr>"

lemma example_labels_get_ok: "labels_get_ok example_lib"
  by (simp add: labels_get_ok_def example_lib_def)

end
