(* ===== verification/Config_Args.thy ===== *)
theory Config_Args
  imports K8s_Api
begin

section \<open>Plugin arguments: decoding, defaulting, validation\<close>

text \<open>
  \<open>apis/config/v1alpha1/args.go\<close>. The strict JSON decoder (\<open>encoding/json\<close> with unknown fields
  rejected, over fields whose types unmarshal themselves in Kubernetes packages) is the parameter
  \<open>decodeStrict\<close>; everything the function does before and after it is modelled.
\<close>

definition ArgsKind :: string where
  "ArgsKind = ''ServiceSpreadArgs''"

definition ArgsGroupVersion :: string where
  "ArgsGroupVersion = ''config.scheduling.soyup.top/v1alpha1''"

text \<open>The argument of \<open>DecodeServiceSpreadArgs\<close>: a nil interface, a pointer to typed arguments
  (possibly a nil pointer), a \<open>runtime.Unknown\<close> with raw bytes (possibly a nil pointer), or another
  type.\<close>

datatype argsObject =
    NilObject
  | TypedArgs "ServiceSpreadArgs option"
  | UnknownRaw "string option"
  | OtherType string

datatype argsFieldError =
    ServiceLabelKeyRequired
  | ServiceLabelKeyInvalid "string list"
  | ManagedSchedulerNameRequired
  | ManagedSchedulerNameInvalid "string list"
  | DurationOutOfRange string duration

datatype argsError =
    MissingPluginConfig
  | DecodingFailed string
  | UnsupportedArgsType string
  | UnsupportedAPIVersion string
  | UnsupportedKind string
  | InvalidArgs "argsFieldError list"

definition SetDefaults_ServiceSpreadArgs :: "ServiceSpreadArgs \<Rightarrow> ServiceSpreadArgs" where
  "SetDefaults_ServiceSpreadArgs a0 =
     (let a1 = (if ManagedSchedulerName a0 = '''' then a0\<lparr>ManagedSchedulerName := DefaultManagedSchedulerName\<rparr> else a0);
          a2 = (if RequirePolicy a1 = None then a1\<lparr>RequirePolicy := Some True\<rparr> else a1);
          a3 = (if FallbackCacheTTL a2 = 0 then a2\<lparr>FallbackCacheTTL := DefaultFallbackCacheTTL\<rparr> else a2);
          a4 = (if ReservationTTL a3 = 0 then a3\<lparr>ReservationTTL := DefaultReservationTTL\<rparr> else a3);
          a5 = (if ReconcilePeriod a4 = 0 then a4\<lparr>ReconcilePeriod := DefaultReconcilePeriod\<rparr> else a4);
          a6 = (if ExportNodePods a5 = None then a5\<lparr>ExportNodePods := Some False\<rparr> else a5)
      in if ExportTargetDetail a6 = None then a6\<lparr>ExportTargetDetail := Some False\<rparr> else a6)"

text \<open>The durations are ranged over as a Go map, so the order of their messages is not fixed; the
  model lists them in the order of the literal.\<close>

definition durationError :: "string \<times> duration \<Rightarrow> argsFieldError list" where
  "durationError nd = (if snd nd < 0 \<or> snd nd > 24 * Hour then [DurationOutOfRange (fst nd) (snd nd)] else [])"

definition ValidateServiceSpreadArgs :: "k8s_lib \<Rightarrow> ServiceSpreadArgs \<Rightarrow> argsFieldError list" where
  "ValidateServiceSpreadArgs lib a =
     (if ServiceLabelKey a = '''' then [ServiceLabelKeyRequired]
      else let msg = lib_IsQualifiedName lib (ServiceLabelKey a)
           in if msg \<noteq> [] then [ServiceLabelKeyInvalid msg] else []) @
     (if ManagedSchedulerName a = '''' then [ManagedSchedulerNameRequired]
      else let msg = lib_IsQualifiedName lib (ManagedSchedulerName a)
           in if msg \<noteq> [] then [ManagedSchedulerNameInvalid msg] else []) @
     concat (map durationError
       [(''fallbackCacheTTL'', FallbackCacheTTL a),
        (''reservationTTL'', ReservationTTL a),
        (''reconcilePeriod'', ReconcilePeriod a)])"

text \<open>The part of \<open>DecodeServiceSpreadArgs\<close> after the type switch.\<close>

definition finishDecode :: "k8s_lib \<Rightarrow> ServiceSpreadArgs \<Rightarrow> argsError + ServiceSpreadArgs" where
  "finishDecode lib a =
     (if args_APIVersion a \<noteq> '''' \<and> args_APIVersion a \<noteq> ArgsGroupVersion
        then Inl (UnsupportedAPIVersion (args_APIVersion a))
      else if args_Kind a \<noteq> '''' \<and> args_Kind a \<noteq> ArgsKind
        then Inl (UnsupportedKind (args_Kind a))
      else let d = SetDefaults_ServiceSpreadArgs a; errs = ValidateServiceSpreadArgs lib d
           in if errs \<noteq> [] then Inl (InvalidArgs errs) else Inr d)"

definition DecodeServiceSpreadArgs ::
    "k8s_lib \<Rightarrow> (string \<Rightarrow> string + ServiceSpreadArgs) \<Rightarrow> argsObject \<Rightarrow> (argsError + ServiceSpreadArgs) outcome" where
  "DecodeServiceSpreadArgs lib decodeStrict obj =
     (case obj of
        NilObject \<Rightarrow> Ret (Inl MissingPluginConfig)
      | TypedArgs None \<Rightarrow> Panic ''nil pointer dereference''
      | TypedArgs (Some a) \<Rightarrow> Ret (finishDecode lib a)
      | UnknownRaw None \<Rightarrow> Panic ''nil pointer dereference''
      | UnknownRaw (Some raw) \<Rightarrow>
          (case decodeStrict raw of
             Inl e \<Rightarrow> Ret (Inl (DecodingFailed e))
           | Inr a \<Rightarrow> Ret (finishDecode lib a))
      | OtherType t \<Rightarrow> Ret (Inl (UnsupportedArgsType t)))"

subsection \<open>What accepted arguments look like\<close>

definition args_ok :: "k8s_lib \<Rightarrow> ServiceSpreadArgs \<Rightarrow> bool" where
  "args_ok lib a \<longleftrightarrow>
     ServiceLabelKey a \<noteq> '''' \<and> lib_IsQualifiedName lib (ServiceLabelKey a) = [] \<and>
     ManagedSchedulerName a \<noteq> '''' \<and> lib_IsQualifiedName lib (ManagedSchedulerName a) = [] \<and>
     RequirePolicy a \<noteq> None \<and> ExportNodePods a \<noteq> None \<and> ExportTargetDetail a \<noteq> None \<and>
     0 < FallbackCacheTTL a \<and> FallbackCacheTTL a \<le> 24 * Hour \<and>
     0 < ReservationTTL a \<and> ReservationTTL a \<le> 24 * Hour \<and>
     0 < ReconcilePeriod a \<and> ReconcilePeriod a \<le> 24 * Hour"

lemma defaults_sel [simp]:
  "RequirePolicy (SetDefaults_ServiceSpreadArgs a) = (case RequirePolicy a of None \<Rightarrow> Some True | r \<Rightarrow> r)"
  "ExportNodePods (SetDefaults_ServiceSpreadArgs a) = (case ExportNodePods a of None \<Rightarrow> Some False | r \<Rightarrow> r)"
  "ExportTargetDetail (SetDefaults_ServiceSpreadArgs a) = (case ExportTargetDetail a of None \<Rightarrow> Some False | r \<Rightarrow> r)"
  "ManagedSchedulerName (SetDefaults_ServiceSpreadArgs a) =
     (if ManagedSchedulerName a = '''' then DefaultManagedSchedulerName else ManagedSchedulerName a)"
  "FallbackCacheTTL (SetDefaults_ServiceSpreadArgs a) = (if FallbackCacheTTL a = 0 then DefaultFallbackCacheTTL else FallbackCacheTTL a)"
  "ReservationTTL (SetDefaults_ServiceSpreadArgs a) = (if ReservationTTL a = 0 then DefaultReservationTTL else ReservationTTL a)"
  "ReconcilePeriod (SetDefaults_ServiceSpreadArgs a) = (if ReconcilePeriod a = 0 then DefaultReconcilePeriod else ReconcilePeriod a)"
  "ServiceLabelKey (SetDefaults_ServiceSpreadArgs a) = ServiceLabelKey a"
  "args_APIVersion (SetDefaults_ServiceSpreadArgs a) = args_APIVersion a"
  "args_Kind (SetDefaults_ServiceSpreadArgs a) = args_Kind a"
  unfolding SetDefaults_ServiceSpreadArgs_def Let_def by (simp_all split: option.split)

lemma defaults_fields:
  "RequirePolicy (SetDefaults_ServiceSpreadArgs a) \<noteq> None"
  "ExportNodePods (SetDefaults_ServiceSpreadArgs a) \<noteq> None"
  "ExportTargetDetail (SetDefaults_ServiceSpreadArgs a) \<noteq> None"
  "ManagedSchedulerName (SetDefaults_ServiceSpreadArgs a) \<noteq> ''''"
  "FallbackCacheTTL (SetDefaults_ServiceSpreadArgs a) \<noteq> 0"
  "ReservationTTL (SetDefaults_ServiceSpreadArgs a) \<noteq> 0"
  "ReconcilePeriod (SetDefaults_ServiceSpreadArgs a) \<noteq> 0"
  by (auto simp: duration_defs DefaultManagedSchedulerName_def split: option.splits)

lemma defaults_identity:
  assumes "RequirePolicy a \<noteq> None" "ExportNodePods a \<noteq> None" "ExportTargetDetail a \<noteq> None"
    "ManagedSchedulerName a \<noteq> ''''" "FallbackCacheTTL a \<noteq> 0" "ReservationTTL a \<noteq> 0" "ReconcilePeriod a \<noteq> 0"
  shows "SetDefaults_ServiceSpreadArgs a = a"
  using assms by (simp add: SetDefaults_ServiceSpreadArgs_def Let_def)

lemma durationError_Nil: "durationError (n, d) = [] \<longleftrightarrow> 0 \<le> d \<and> d \<le> 24 * Hour"
  by (auto simp: durationError_def)

lemma ValidateServiceSpreadArgs_Nil:
  "ValidateServiceSpreadArgs lib a = [] \<longleftrightarrow>
     ServiceLabelKey a \<noteq> '''' \<and> lib_IsQualifiedName lib (ServiceLabelKey a) = [] \<and>
     ManagedSchedulerName a \<noteq> '''' \<and> lib_IsQualifiedName lib (ManagedSchedulerName a) = [] \<and>
     0 \<le> FallbackCacheTTL a \<and> FallbackCacheTTL a \<le> 24 * Hour \<and>
     0 \<le> ReservationTTL a \<and> ReservationTTL a \<le> 24 * Hour \<and>
     0 \<le> ReconcilePeriod a \<and> ReconcilePeriod a \<le> 24 * Hour"
  by (auto simp: ValidateServiceSpreadArgs_def Let_def durationError_Nil)

lemma finishDecode_Inr:
  "finishDecode lib a = Inr b \<longleftrightarrow>
     (args_APIVersion a = '''' \<or> args_APIVersion a = ArgsGroupVersion) \<and>
     (args_Kind a = '''' \<or> args_Kind a = ArgsKind) \<and>
     b = SetDefaults_ServiceSpreadArgs a \<and> ValidateServiceSpreadArgs lib b = []"
  unfolding finishDecode_def Let_def by auto

lemma finishDecode_ok:
  assumes "finishDecode lib a = Inr b"
  shows "args_ok lib b"
proof -
  have b: "b = SetDefaults_ServiceSpreadArgs a" and v: "ValidateServiceSpreadArgs lib b = []"
    using assms unfolding finishDecode_Inr by blast+
  show ?thesis
    using defaults_fields [of a, folded b] v
    unfolding args_ok_def ValidateServiceSpreadArgs_Nil by auto
qed

lemma finishDecode_fixpoint:
  assumes "finishDecode lib a = Inr b"
  shows "finishDecode lib b = Inr b"
proof -
  have ok: "args_ok lib b" by (rule finishDecode_ok [OF assms])
  then have "SetDefaults_ServiceSpreadArgs b = b"
    by (intro defaults_identity) (auto simp: args_ok_def)
  moreover have "ValidateServiceSpreadArgs lib b = []"
    using ok by (auto simp: args_ok_def ValidateServiceSpreadArgs_Nil)
  ultimately show ?thesis
    using assms by (auto simp: finishDecode_Inr)
qed

lemma Decode_cases:
  assumes "DecodeServiceSpreadArgs lib dec obj = Ret (Inr b)"
  obtains a where "finishDecode lib a = Inr b"
    and "obj = TypedArgs (Some a) \<or> (\<exists>raw. obj = UnknownRaw (Some raw) \<and> dec raw = Inr a)"
  using assms by (auto simp: DecodeServiceSpreadArgs_def split: argsObject.splits option.splits sum.splits)

text \<open>C35: Whatever the decoder delivers, arguments that \<open>DecodeServiceSpreadArgs\<close> accepts are complete and
  in range: the service label key and the scheduler name are non-empty qualified names, every
  optional field is set, and every duration lies strictly between 0 and 24 hours (so no ticker is
  ever created with a non-positive period); decoding the result once more returns it unchanged.\<close>

theorem Decode_accepts_only_complete_args:
  assumes "DecodeServiceSpreadArgs lib decodeStrict obj = Ret (Inr b)"
  shows "args_ok lib b \<and> DecodeServiceSpreadArgs lib decodeStrict (TypedArgs (Some b)) = Ret (Inr b)"
proof -
  obtain a where a: "finishDecode lib a = Inr b" by (rule Decode_cases [OF assms])
  show ?thesis
    using finishDecode_ok [OF a] finishDecode_fixpoint [OF a] by (simp add: DecodeServiceSpreadArgs_def)
qed

definition example_args :: ServiceSpreadArgs where
  "example_args = \<lparr>args_APIVersion = '''', args_Kind = '''', ServiceLabelKey = ''app'',
     RequirePolicy = None, ManagedSchedulerName = '''', FallbackCacheTTL = 0, ReservationTTL = 0,
     ReconcilePeriod = 0, ExportNodePods = None, ExportTargetDetail = None\<rparr>"

lemma example_args_decode:
  "DecodeServiceSpreadArgs example_lib (\<lambda>raw. Inr example_args) (UnknownRaw (Some ''{}'')) =
     Ret (Inr (SetDefaults_ServiceSpreadArgs example_args))"
  by (simp add: DecodeServiceSpreadArgs_def finishDecode_def example_args_def example_lib_def
      ValidateServiceSpreadArgs_def SetDefaults_ServiceSpreadArgs_def durationError_def duration_defs
      DefaultManagedSchedulerName_def Let_def)

theorem Decode_accepts_only_complete_args_witness:
  "args_ok example_lib (SetDefaults_ServiceSpreadArgs example_args)"
  using Decode_accepts_only_complete_args [OF example_args_decode] by blast

end
