(* ===== verification/Keys.thy ===== *)
theory Keys
  imports K8s_Api
begin

section \<open>Service keys and the scheduling-domain hash\<close>

text \<open>
  \<open>internal/spread/keys.go\<close>. The canonical \<open>domainSpec\<close> of a pod, its JSON encoding and the
  12-character hash, the quota and scheduling keys, and \<open>PodRefFor\<close>. \<open>sort.Slice\<close> with a comparison of
  the current elements is a sort by that key; \<open>sort.SliceStable\<close> is modelled as the algorithm of the
  standard library (insertion sort on blocks of 20, then symmetric merges) because the comparison
  functions of \<open>sortTermSlice\<close> and \<open>sortTols\<close> look up a slice of canonical strings that is not
  permuted together with the data.
\<close>

subsection \<open>Keys\<close>

definition QuotaKey :: "string \<Rightarrow> string \<Rightarrow> string \<Rightarrow> string \<Rightarrow> string" where
  "QuotaKey namespace schedulerName labelKey labelValue =
     namespace @ ''/'' @ schedulerName @ ''/'' @ labelKey @ ''='' @ labelValue"

definition SchedKey :: "string \<Rightarrow> string \<Rightarrow> string" where
  "SchedKey quotaKey domainHash = quotaKey @ ''/'' @ domainHash"

definition HashChars :: nat where
  "HashChars = 12"

subsection \<open>The canonical form\<close>

record normRequirement =
  nr_Key :: string
  nr_Operator :: string
  nr_Values :: "string list"

record normToleration =
  nt_Key :: string
  nt_Operator :: string
  nt_Value :: string
  nt_Effect :: string
  nt_TolerationSeconds :: "int64 option"

record domainSpec =
  ds_NodeSelector :: "(string, string) gomap"
  ds_RequiredAffinity :: "normRequirement list list option"
  ds_Tolerations :: "normToleration list"
  ds_AddedAffinity :: "string option"

definition sortedCopy :: "string list \<Rightarrow> string list" where
  "sortedCopy xs = (if length xs = 0 then [] else sort xs)"

definition joinValues :: "string list \<Rightarrow> string" where
  "joinValues vs = joinStrings [CHR 0x00] vs"

text \<open>The three-level comparison of \<open>sortReqs\<close> is the lexicographic order of this key.\<close>

definition reqKey :: "normRequirement \<Rightarrow> string \<times> string \<times> string" where
  "reqKey r = (nr_Key r, nr_Operator r, joinValues (nr_Values r))"

definition sortReqs :: "normRequirement list \<Rightarrow> normRequirement list" where
  "sortReqs reqs = sort_key reqKey reqs"

subsection \<open>JSON encoding of the canonical form\<close>

definition jsonStrings :: "string list \<Rightarrow> string" where
  "jsonStrings vs = jsonArray (map jsonString vs)"

definition marshalRequirement :: "normRequirement \<Rightarrow> string" where
  "marshalRequirement r = jsonObject
     ([jsonMember ''key'' (jsonString (nr_Key r)), jsonMember ''operator'' (jsonString (nr_Operator r))] @
      (if nr_Values r = [] then [] else [jsonMember ''values'' (jsonStrings (nr_Values r))]))"

definition marshalTerm :: "normRequirement list \<Rightarrow> string" where
  "marshalTerm t = jsonArray (map marshalRequirement t)"

definition marshalToleration :: "normToleration \<Rightarrow> string" where
  "marshalToleration t = jsonObject
     ([jsonMember ''key'' (jsonString (nt_Key t)), jsonMember ''operator'' (jsonString (nt_Operator t)),
       jsonMember ''value'' (jsonString (nt_Value t)), jsonMember ''effect'' (jsonString (nt_Effect t))] @
      (case nt_TolerationSeconds t of None \<Rightarrow> []
       | Some n \<Rightarrow> [jsonMember ''tolerationSeconds'' (showInt (sint n))]))"

text \<open>\<open>json.Marshal\<close> fails only on channels, functions, cyclic values and non-finite floats; a
  \<open>domainSpec\<close> has none.\<close>

definition marshalDomainSpec :: "domainSpec \<Rightarrow> string + string" where
  "marshalDomainSpec d = Inr (jsonObject
     ([jsonMember ''nodeSelector'' (jsonStringMap (ds_NodeSelector d)),
       jsonMember ''requiredAffinity''
         (case ds_RequiredAffinity d of None \<Rightarrow> ''null'' | Some ts \<Rightarrow> jsonArray (map marshalTerm ts))] @
      (if ds_Tolerations d = [] then []
       else [jsonMember ''tolerations'' (jsonArray (map marshalToleration (ds_Tolerations d)))]) @
      (case ds_AddedAffinity d of None \<Rightarrow> [] | Some raw \<Rightarrow> [jsonMember ''addedAffinity'' raw])))"

subsection \<open>sort.SliceStable\<close>

text \<open>\<open>lt i j\<close> is the comparison function of the call; it receives positions.\<close>

definition swapAt :: "'a list \<Rightarrow> nat \<Rightarrow> nat \<Rightarrow> 'a list" where
  "swapAt xs i j = (if i < length xs \<and> j < length xs then xs[i := xs ! j, j := xs ! i] else xs)"

primrec insertLoop :: "(nat \<Rightarrow> nat \<Rightarrow> bool) \<Rightarrow> nat \<Rightarrow> nat \<Rightarrow> 'a list \<Rightarrow> 'a list" where
  "insertLoop lt a 0 xs = xs"
| "insertLoop lt a (Suc j) xs =
     (if Suc j > a \<and> lt (Suc j) j then insertLoop lt a j (swapAt xs (Suc j) j) else xs)"

definition insertionSortRange :: "(nat \<Rightarrow> nat \<Rightarrow> bool) \<Rightarrow> nat \<Rightarrow> nat \<Rightarrow> 'a list \<Rightarrow> 'a list" where
  "insertionSortRange lt a b xs = fold (insertLoop lt a) [a + 1..<b] xs"

text \<open>Exchange of the neighbouring blocks \<open>[a, m)\<close> and \<open>[m, b)\<close>.\<close>

definition rotateRange :: "nat \<Rightarrow> nat \<Rightarrow> nat \<Rightarrow> 'a list \<Rightarrow> 'a list" where
  "rotateRange a m b xs =
     (if a \<le> m \<and> m \<le> b then take a xs @ take (b - m) (drop m xs) @ take (m - a) (drop a xs) @ drop b xs else xs)"

text \<open>The binary search of \<open>symMerge\<close>: the least index in \<open>[i, j)\<close> where \<open>p\<close> fails.\<close>

function binSearch :: "(nat \<Rightarrow> bool) \<Rightarrow> nat \<Rightarrow> nat \<Rightarrow> nat" where
  "binSearch p i j = (if i < j then (let h = (i + j) div 2 in
     if p h then binSearch p (h + 1) j else binSearch p i h) else i)"
  by pat_completeness auto
termination
  by (relation "measure (\<lambda>(p, i, j). j - i)") auto

declare binSearch.simps [simp del]

text \<open>Where \<open>symMerge\<close> splits the two runs. With a comparison of positions it does not depend on the
  data, so that a merge is a sequence of exchanges fixed in advance.\<close>

definition symStart :: "(nat \<Rightarrow> nat \<Rightarrow> bool) \<Rightarrow> nat \<Rightarrow> nat \<Rightarrow> nat \<Rightarrow> nat" where
  "symStart lt a m b =
     (let mid = (a + b) div 2; n = mid + m; p = n - 1
      in if m > mid then binSearch (\<lambda>c. \<not> lt (p - c) c) (n - b) mid
         else binSearch (\<lambda>c. \<not> lt (p - c) c) a m)"

definition symEnd :: "(nat \<Rightarrow> nat \<Rightarrow> bool) \<Rightarrow> nat \<Rightarrow> nat \<Rightarrow> nat \<Rightarrow> nat" where
  "symEnd lt a m b = (a + b) div 2 + m - symStart lt a m b"

function symMerge :: "(nat \<Rightarrow> nat \<Rightarrow> bool) \<Rightarrow> nat \<Rightarrow> nat \<Rightarrow> nat \<Rightarrow> 'a list \<Rightarrow> 'a list" where
  "symMerge lt a m b =
     (if m - a = 1 then
        fold (\<lambda>k xs. swapAt xs k (k + 1)) [a..<binSearch (\<lambda>h. lt h a) m b - 1]
      else if b - m = 1 then
        fold (\<lambda>k xs. swapAt xs k (k - 1)) (rev [binSearch (\<lambda>h. \<not> lt m h) a m + 1..<m + 1])
      else
        (if (a + b) div 2 < symEnd lt a m b \<and> symEnd lt a m b < b
         then symMerge lt ((a + b) div 2) (symEnd lt a m b) b else id) \<circ>
        (if a < symStart lt a m b \<and> symStart lt a m b < (a + b) div 2
         then symMerge lt a (symStart lt a m b) ((a + b) div 2) else id) \<circ>
        (if symStart lt a m b < m \<and> m < symEnd lt a m b
         then rotateRange (symStart lt a m b) m (symEnd lt a m b) else id))"
  by pat_completeness auto
termination
  by (relation "measure (\<lambda>(lt, a, m, b). b - a)") auto

declare symMerge.simps [simp del]

text \<open>One round of merging blocks of a size, and the rounds with doubling sizes.\<close>

function mergeRound :: "(nat \<Rightarrow> nat \<Rightarrow> bool) \<Rightarrow> nat \<Rightarrow> nat \<Rightarrow> nat \<Rightarrow> 'a list \<Rightarrow> 'a list" where
  "mergeRound lt bsz a n xs =
     (if 0 < bsz \<and> a + 2 * bsz \<le> n then mergeRound lt bsz (a + 2 * bsz) n (symMerge lt a (a + bsz) (a + 2 * bsz) xs)
      else if a + bsz < n then symMerge lt a (a + bsz) n xs else xs)"
  by pat_completeness auto
termination
  by (relation "measure (\<lambda>(lt, bsz, a, n, xs). n - a)") auto

declare mergeRound.simps [simp del]

function mergeRounds :: "(nat \<Rightarrow> nat \<Rightarrow> bool) \<Rightarrow> nat \<Rightarrow> nat \<Rightarrow> 'a list \<Rightarrow> 'a list" where
  "mergeRounds lt bsz n xs =
     (if 0 < bsz \<and> bsz < n then mergeRounds lt (2 * bsz) n (mergeRound lt bsz 0 n xs) else xs)"
  by pat_completeness auto
termination
  by (relation "measure (\<lambda>(lt, bsz, n, xs). n - bsz)") auto

declare mergeRounds.simps [simp del]

definition blockStarts :: "nat \<Rightarrow> nat list" where
  "blockStarts n = map (\<lambda>i. 20 * i) [0..<n div 20]"

definition sliceStable :: "(nat \<Rightarrow> nat \<Rightarrow> bool) \<Rightarrow> 'a list \<Rightarrow> 'a list" where
  "sliceStable lt xs =
     (let n = length xs;
          blocks = fold (\<lambda>a ys. insertionSortRange lt a (a + 20) ys) (blockStarts n) xs;
          ys = insertionSortRange lt (20 * (n div 20)) n blocks
      in mergeRounds lt 20 n ys)"

text \<open>\<open>canonical\<close> is computed once, before the sort; the comparison reads it by position.\<close>

definition sortTermSlice :: "normRequirement list list \<Rightarrow> normRequirement list list" where
  "sortTermSlice terms =
     (let canonical = map marshalTerm terms in sliceStable (\<lambda>i j. canonical ! i < canonical ! j) terms)"

definition sortTols :: "normToleration list \<Rightarrow> normToleration list" where
  "sortTols tols =
     (let canonical = map marshalToleration tols in sliceStable (\<lambda>i j. canonical ! i < canonical ! j) tols)"

subsection \<open>The domain hash\<close>

definition normReq :: "requirement \<Rightarrow> normRequirement" where
  "normReq r = \<lparr>nr_Key = rq_Key r, nr_Operator = rq_Operator r, nr_Values = sortedCopy (rq_Values r)\<rparr>"

definition normTerm :: "nodeSelectorTerm \<Rightarrow> normRequirement list" where
  "normTerm t =
     (let reqs = map normReq (MatchExpressions t) @ map normReq (MatchFields t)
      in if length reqs = 0 then [] else sortReqs reqs)"

definition normTol :: "toleration \<Rightarrow> normToleration" where
  "normTol t = \<lparr>nt_Key = tol_Key t, nt_Operator = tol_Operator t, nt_Value = tol_Value t,
     nt_Effect = tol_Effect t, nt_TolerationSeconds = tol_TolerationSeconds t\<rparr>"

definition requiredTerms :: "podSpec \<Rightarrow> nodeSelectorTerm list option" where
  "requiredTerms sp =
     (case ps_Affinity sp of None \<Rightarrow> None
      | Some aff \<Rightarrow> (case NodeAffinity aff of None \<Rightarrow> None
        | Some na \<Rightarrow> map_option NodeSelectorTerms (RequiredDuringScheduling na)))"

definition domainSpecOf :: "pod \<Rightarrow> domainSpec" where
  "domainSpecOf p = \<lparr>
     ds_NodeSelector = ps_NodeSelector (pod_Spec p),
     ds_RequiredAffinity = map_option (\<lambda>ts. sortTermSlice (map normTerm ts)) (requiredTerms (pod_Spec p)),
     ds_Tolerations = sortTols (map normTol (ps_Tolerations (pod_Spec p))),
     ds_AddedAffinity = None\<rparr>"

definition DomainHash :: "pod \<Rightarrow> string + string" where
  "DomainHash p =
     (case marshalDomainSpec (domainSpecOf p) of
        Inl err \<Rightarrow> Inl (''marshal domainSpec: '' @ err)
      | Inr buf \<Rightarrow> Inr (take HashChars (sha256Hex buf)))"

subsection \<open>Pod references\<close>

record podRef =
  QuotaKeyOf :: string
  SchedKeyOf :: string
  NodeNameOf :: string

text \<open>The zero value of the struct.\<close>

definition emptyRef :: podRef where
  "emptyRef = \<lparr>QuotaKeyOf = '''', SchedKeyOf = '''', NodeNameOf = ''''\<rparr>"

datatype refError = MissingServiceLabel string string string | HashError string

definition PodRefFor :: "pod \<Rightarrow> string \<Rightarrow> string \<Rightarrow> refError + podRef" where
  "PodRefFor p schedulerName serviceLabelKey =
     (case mget (pod_Labels p) serviceLabelKey of
        None \<Rightarrow> Inl (MissingServiceLabel (pod_Namespace p) (pod_Name p) serviceLabelKey)
      | Some value \<Rightarrow>
          (let quota = QuotaKey (pod_Namespace p) schedulerName serviceLabelKey value
           in case DomainHash p of
                Inl err \<Rightarrow> Inl (HashError err)
              | Inr hash \<Rightarrow> Inr \<lparr>QuotaKeyOf = quota, SchedKeyOf = SchedKey quota hash,
                                NodeNameOf = ps_NodeName (pod_Spec p)\<rparr>))"

subsection \<open>SliceStable permutes its input\<close>

lemma mset_swapAt: "mset (swapAt xs i j) = mset xs"
  by (simp add: swapAt_def mset_swap)

lemma length_swapAt [simp]: "length (swapAt xs i j) = length xs"
  by (simp add: swapAt_def)

lemma mset_fold:
  assumes "\<And>k ys. mset (f k ys) = mset ys"
  shows "mset (fold f ks xs) = mset xs"
  by (induction ks arbitrary: xs) (simp_all add: assms)

lemma mset_insertLoop: "mset (insertLoop lt a j xs) = mset xs"
  by (induction j arbitrary: xs) (simp_all add: mset_swapAt)

lemma mset_insertionSortRange: "mset (insertionSortRange lt a b xs) = mset xs"
  unfolding insertionSortRange_def by (intro mset_fold mset_insertLoop)

lemma mset_rotateRange: "mset (rotateRange a m b xs) = mset xs"
proof (cases "a \<le> m \<and> m \<le> b")
  case True
  have "xs = take a xs @ take (m - a) (drop a xs) @ take (b - m) (drop m xs) @ drop b xs"
    using True by (metis add.commute append_take_drop_id drop_drop le_add_diff_inverse2)
  then have "mset xs = mset (take a xs) + mset (take (m - a) (drop a xs)) + mset (take (b - m) (drop m xs)) + mset (drop b xs)"
    by (metis mset_append add.assoc)
  with True show ?thesis by (simp add: rotateRange_def)
qed (auto simp: rotateRange_def)

lemma mset_symMerge:
  fixes xs :: "'a list"
  shows "mset (symMerge lt a m b xs) = mset xs"
proof (induction "b - a" arbitrary: a m b xs rule: less_induct)
  case less
  let ?mid = "(a + b) div 2"
  have left: "mset (symMerge lt a k ?mid ys) = mset ys" if "a < k" "k < ?mid" for k and ys :: "'a list"
    by (rule less.hyps) (use that in linarith)
  have right: "mset (symMerge lt ?mid k b ys) = mset ys" if "?mid < k" "k < b" for k and ys :: "'a list"
    by (rule less.hyps) (use that in linarith)
  show ?case
    by (subst symMerge.simps) (simp add: mset_fold mset_swapAt mset_rotateRange left right)
qed

lemma mset_mergeRound: "mset (mergeRound lt bsz a n xs) = mset xs"
proof (induction lt bsz a n xs rule: mergeRound.induct)
  case (1 lt bsz a n xs)
  then show ?case
    by (subst mergeRound.simps) (simp add: mset_symMerge)
qed

lemma mset_mergeRounds: "mset (mergeRounds lt bsz n xs) = mset xs"
proof (induction lt bsz n xs rule: mergeRounds.induct)
  case (1 lt bsz n xs)
  then show ?case
    by (subst mergeRounds.simps) (simp add: mset_mergeRound)
qed

lemma mset_sliceStable: "mset (sliceStable lt xs) = mset xs"
  by (simp add: sliceStable_def Let_def mset_mergeRounds mset_insertionSortRange mset_fold)

subsection \<open>SliceStable on short slices\<close>

lemma sliceStable_short:
  "sliceStable lt [] = []"
  "sliceStable lt [x] = [x]"
  "sliceStable lt [x, y] = (if lt 1 0 then [y, x] else [x, y])"
  by (simp_all add: sliceStable_def blockStarts_def insertionSortRange_def mergeRounds.simps swapAt_def
      Let_def numeral_2_eq_2)

lemma map_sliceStable_two:
  fixes f :: "'a \<Rightarrow> string"
  assumes "mset xs = mset ys" and "length xs \<le> 2"
  shows "map f (sliceStable (\<lambda>i j. map f xs ! i < map f xs ! j) xs) =
         map f (sliceStable (\<lambda>i j. map f ys ! i < map f ys ! j) ys)"
proof -
  have len: "length ys = length xs" using assms(1) by (metis size_mset)
  consider "xs = []" | x where "xs = [x]" | x y where "xs = [x, y]"
    using assms(2) by (cases xs rule: list.exhaust; cases "tl xs" rule: list.exhaust) (auto simp: Suc_le_eq)
  then show ?thesis
  proof cases
    case (3 x y)
    with len obtain u v where ys: "ys = [u, v]" by (cases ys; cases "tl ys") auto
    have "(u = x \<and> v = y) \<or> (u = y \<and> v = x)"
      using assms(1) 3 ys by (auto simp: add_eq_conv_ex)
    then show ?thesis using 3 ys by (auto simp: sliceStable_short not_less)
  qed (use assms(1) in auto)
qed

text \<open>Two lists that the sorts of \<open>DomainHash\<close> canonicalise alike: the same list, or at most two
  elements in any order.\<close>

definition alikeLists :: "'a list \<Rightarrow> 'a list \<Rightarrow> bool" where
  "alikeLists xs ys \<longleftrightarrow> xs = ys \<or> (length xs \<le> 2 \<and> mset xs = mset ys)"

lemma marshal_sortTols_alike:
  "alikeLists xs ys \<Longrightarrow> map marshalToleration (sortTols xs) = map marshalToleration (sortTols ys)"
  unfolding alikeLists_def sortTols_def Let_def
  using map_sliceStable_two [of xs ys marshalToleration] by blast

lemma marshal_sortTermSlice_alike:
  "alikeLists xs ys \<Longrightarrow> map marshalTerm (sortTermSlice xs) = map marshalTerm (sortTermSlice ys)"
  unfolding alikeLists_def sortTermSlice_def Let_def
  using map_sliceStable_two [of xs ys marshalTerm] by blast

subsection \<open>What the hash depends on\<close>

definition normReqs :: "nodeSelectorTerm \<Rightarrow> normRequirement list" where
  "normReqs t = map normReq (MatchExpressions t) @ map normReq (MatchFields t)"

text \<open>Two terms with the same requirements up to the order of the requirements and of their
  values, no two different ones of which compare equal.\<close>

definition alikeTerm :: "nodeSelectorTerm \<Rightarrow> nodeSelectorTerm \<Rightarrow> bool" where
  "alikeTerm t u \<longleftrightarrow> mset (normReqs t) = mset (normReqs u) \<and> inj_on reqKey (set (normReqs t))"

fun alikeAffinity :: "nodeSelectorTerm list option \<Rightarrow> nodeSelectorTerm list option \<Rightarrow> bool" where
  "alikeAffinity None None = True"
| "alikeAffinity (Some ts) (Some us) =
     (list_all2 alikeTerm ts us \<or> (length ts \<le> 2 \<and> list_all2 alikeTerm ts (rev us)))"
| "alikeAffinity _ _ = False"

lemma normTerm_alike: "alikeTerm t u \<Longrightarrow> normTerm t = normTerm u"
  using sort_key_permutation [of "normReqs t" "normReqs u" reqKey]
  by (auto simp: alikeTerm_def normTerm_def normReqs_def sortReqs_def Let_def dest: mset_eq_length)

lemma map_normTerm_alike: "list_all2 alikeTerm ts us \<Longrightarrow> map normTerm ts = map normTerm us"
  by (induction ts us rule: list_all2_induct) (auto intro: normTerm_alike)

lemma marshalTerms_alike:
  assumes "alikeAffinity (Some ts) (Some us)"
  shows "map marshalTerm (sortTermSlice (map normTerm ts)) = map marshalTerm (sortTermSlice (map normTerm us))"
proof (rule marshal_sortTermSlice_alike)
  show "alikeLists (map normTerm ts) (map normTerm us)"
    using assms
  proof (simp, elim disjE conjE)
    assume "list_all2 alikeTerm ts us"
    then show ?thesis by (simp add: alikeLists_def map_normTerm_alike)
  next
    assume len: "length ts \<le> 2" and "list_all2 alikeTerm ts (rev us)"
    then have "map normTerm ts = rev (map normTerm us)"
      by (simp add: map_normTerm_alike rev_map)
    then show ?thesis
      using len unfolding alikeLists_def by (metis length_map mset_rev)
  qed
qed

lemma jsonStringMap_permutation:
  assumes "wf_gomap m" and "mset m = mset m'"
  shows "jsonStringMap m = jsonStringMap m'"
proof -
  have "inj_on fst (set m)" using assms(1) by (simp add: wf_gomap_def distinct_map)
  then have "sort_key fst m = sort_key fst m'"
    by (rule sort_key_permutation [OF assms(2)])
  then show ?thesis by (simp add: jsonStringMap_def)
qed

lemma DomainHash_Inr: "DomainHash p = Inr (take HashChars (sha256Hex (projr (marshalDomainSpec (domainSpecOf p)))))"
  by (simp add: DomainHash_def marshalDomainSpec_def)

lemma sortTols_Nil_iff: "sortTols xs = [] \<longleftrightarrow> xs = []"
  by (metis mset_sliceStable mset_zero_iff sortTols_def)

text \<open>C30: The scheduling-domain hash of a pod depends only on the constraints that shape its node
  set: two pods whose node selectors are the same map, whose required affinity terms agree up to
  the order of requirements and of values inside a term (and, for at most two terms, the order of
  the terms), and whose tolerations agree (for at most two, in any order) have the same hash,
  whatever their names, labels, preferred affinity, node and phase are.\<close>

theorem DomainHash_canonical:
  assumes "wf_gomap (ps_NodeSelector (pod_Spec p))"
    and "mset (ps_NodeSelector (pod_Spec p)) = mset (ps_NodeSelector (pod_Spec q))"
    and "alikeAffinity (requiredTerms (pod_Spec p)) (requiredTerms (pod_Spec q))"
    and "alikeLists (map normTol (ps_Tolerations (pod_Spec p))) (map normTol (ps_Tolerations (pod_Spec q)))"
  shows "DomainHash p = DomainHash q"
proof -
  have tols: "map marshalToleration (ds_Tolerations (domainSpecOf p)) =
      map marshalToleration (ds_Tolerations (domainSpecOf q))"
    by (simp add: domainSpecOf_def marshal_sortTols_alike assms(4))
  then have tolsNil: "ds_Tolerations (domainSpecOf p) = [] \<longleftrightarrow> ds_Tolerations (domainSpecOf q) = []"
    by (metis map_is_Nil_conv)
  have terms: "map_option (map marshalTerm) (ds_RequiredAffinity (domainSpecOf p)) =
      map_option (map marshalTerm) (ds_RequiredAffinity (domainSpecOf q))"
    using assms(3) marshalTerms_alike
    by (cases "requiredTerms (pod_Spec p)"; cases "requiredTerms (pod_Spec q)")
      (auto simp: domainSpecOf_def)
  have sel: "jsonStringMap (ds_NodeSelector (domainSpecOf p)) = jsonStringMap (ds_NodeSelector (domainSpecOf q))"
    using jsonStringMap_permutation [OF assms(1,2)] by (simp add: domainSpecOf_def)
  have "marshalDomainSpec (domainSpecOf p) = marshalDomainSpec (domainSpecOf q)"
    using terms sel tols tolsNil
    by (auto simp: marshalDomainSpec_def domainSpecOf_def split: option.splits)
  then show ?thesis by (simp add: DomainHash_def)
qed

definition example_spec :: podSpec where
  "example_spec = \<lparr>ps_SchedulerName = DefaultManagedSchedulerName, ps_NodeName = '''', ps_NodeSelector = [],
     ps_Affinity = None, ps_Tolerations = []\<rparr>"

definition example_pod :: pod where
  "example_pod = \<lparr>pod_UID = ''u1'', pod_Name = ''p1'', pod_Namespace = ''ns1'', pod_Labels = [(''app'', ''web'')],
     pod_OwnerReferences = [], pod_Spec = example_spec, pod_Phase = ''Pending''\<rparr>"

definition exampleTol :: "string \<Rightarrow> toleration" where
  "exampleTol k = \<lparr>tol_Key = k, tol_Operator = ''Exists'', tol_Value = '''', tol_Effect = '''',
     tol_TolerationSeconds = None\<rparr>"

definition withTolerations :: "toleration list \<Rightarrow> pod" where
  "withTolerations ts = example_pod\<lparr>pod_Spec := example_spec\<lparr>ps_Tolerations := ts\<rparr>\<rparr>"

lemmas example_pod_defs = example_pod_def example_spec_def exampleTol_def withTolerations_def

theorem DomainHash_canonical_witness:
  "DomainHash (withTolerations [exampleTol ''a'', exampleTol ''b'']) =
   DomainHash (withTolerations [exampleTol ''b'', exampleTol ''a''])"
  by (rule DomainHash_canonical)
    (simp_all add: example_pod_defs requiredTerms_def alikeLists_def)

text \<open>The hash is not independent of the order of three or more tolerations. \<open>sortTols\<close> compares
  positions of a slice of canonical strings that the sort does not permute, so two pods with the
  same three tolerations in different orders get different canonical encodings (and so, unless
  SHA-256 collides, different scheduling domains), against the comment of \<open>DomainHash\<close>.\<close>

theorem toleration_order_changes_the_encoding:
  "mset (ps_Tolerations (pod_Spec (withTolerations [exampleTol ''c'', exampleTol ''a'', exampleTol ''b'']))) =
     mset (ps_Tolerations (pod_Spec (withTolerations [exampleTol ''a'', exampleTol ''b'', exampleTol ''c'']))) \<and>
   marshalDomainSpec (domainSpecOf (withTolerations [exampleTol ''c'', exampleTol ''a'', exampleTol ''b''])) \<noteq>
     marshalDomainSpec (domainSpecOf (withTolerations [exampleTol ''a'', exampleTol ''b'', exampleTol ''c'']))"
proof
  show "mset (ps_Tolerations (pod_Spec (withTolerations [exampleTol ''c'', exampleTol ''a'', exampleTol ''b'']))) =
     mset (ps_Tolerations (pod_Spec (withTolerations [exampleTol ''a'', exampleTol ''b'', exampleTol ''c''])))"
    by (simp add: withTolerations_def)
  show "marshalDomainSpec (domainSpecOf (withTolerations [exampleTol ''c'', exampleTol ''a'', exampleTol ''b''])) \<noteq>
     marshalDomainSpec (domainSpecOf (withTolerations [exampleTol ''a'', exampleTol ''b'', exampleTol ''c'']))"
    by code_simp
qed

lemma normTerm_merges_fields_and_labels:
  "normTerm \<lparr>MatchExpressions = es, MatchFields = fs\<rparr> = normTerm \<lparr>MatchExpressions = es @ fs, MatchFields = []\<rparr>"
  by (simp add: normTerm_def Let_def)

subsection \<open>Keys identify services and domains\<close>

lemma DomainHash_length:
  assumes "DomainHash p = Inr h"
  shows "length h = HashChars"
  using assms by (auto simp: DomainHash_Inr HashChars_def)

lemma append_sep_inj:
  assumes "c \<notin> set xs" and "c \<notin> set ys" and "xs @ c # us = ys @ c # vs"
  shows "xs = ys \<and> us = vs"
  using assms
proof (induction xs arbitrary: ys)
  case Nil
  then show ?case by (cases ys) auto
next
  case (Cons x xs)
  then show ?case by (cases ys) auto
qed

lemma QuotaKey_inj:
  assumes "CHR ''/'' \<notin> set ns" and "CHR ''/'' \<notin> set ns'"
    and "QuotaKey ns sched key v = QuotaKey ns' sched key v'"
  shows "ns = ns' \<and> v = v'"
  using append_sep_inj [of "CHR ''/''" ns ns' "sched @ ''/'' @ key @ ''='' @ v" "sched @ ''/'' @ key @ ''='' @ v'"] assms
  by (simp add: QuotaKey_def)

lemma SchedKey_inj:
  assumes "length h = length h'" and "SchedKey q h = SchedKey q' h'"
  shows "q = q' \<and> h = h'"
  using assms by (simp add: SchedKey_def append_eq_append_conv)

lemma PodRefFor_Inr:
  "PodRefFor p s k = Inr ref \<longleftrightarrow>
     (\<exists>v h. mget (pod_Labels p) k = Some v \<and> DomainHash p = Inr h \<and>
        ref = \<lparr>QuotaKeyOf = QuotaKey (pod_Namespace p) s k v,
               SchedKeyOf = SchedKey (QuotaKey (pod_Namespace p) s k v) h,
               NodeNameOf = ps_NodeName (pod_Spec p)\<rparr>)"
  by (auto simp: PodRefFor_def DomainHash_Inr Let_def split: option.splits)

lemma PodRefFor_total: "(\<exists>ref. PodRefFor p s k = Inr ref) \<longleftrightarrow> mget (pod_Labels p) k \<noteq> None"
  by (auto simp: PodRefFor_Inr DomainHash_Inr)

lemma PodRefFor_schedKey_quotaKey:
  assumes "PodRefFor p s k = Inr r" and "PodRefFor p' s k = Inr r'" and "SchedKeyOf r = SchedKeyOf r'"
  shows "QuotaKeyOf r = QuotaKeyOf r'"
proof -
  obtain v h where r: "SchedKeyOf r = SchedKey (QuotaKeyOf r) h" and h: "DomainHash p = Inr h"
    using assms(1) by (auto simp: PodRefFor_Inr)
  obtain v' h' where r': "SchedKeyOf r' = SchedKey (QuotaKeyOf r') h'" and h': "DomainHash p' = Inr h'"
    using assms(2) by (auto simp: PodRefFor_Inr)
  have "length h = length h'"
    by (simp add: DomainHash_length [OF h] DomainHash_length [OF h'])
  then show ?thesis
    using SchedKey_inj [of h h' "QuotaKeyOf r" "QuotaKeyOf r'"] r r' assms(3) by simp
qed

text \<open>Keys do not confuse services. For namespaces without a slash, two labelled pods of the
  managed scheduler have the same quota key exactly when they are in the same namespace and carry
  the same service label value, and pods that share a scheduling key share the quota key.\<close>

theorem keys_identify_services:
  assumes "PodRefFor p s k = Inr r" and "PodRefFor p' s k = Inr r'"
    and "CHR ''/'' \<notin> set (pod_Namespace p)" and "CHR ''/'' \<notin> set (pod_Namespace p')"
  shows "(QuotaKeyOf r = QuotaKeyOf r' \<longleftrightarrow>
            pod_Namespace p = pod_Namespace p' \<and> mget (pod_Labels p) k = mget (pod_Labels p') k) \<and>
         (SchedKeyOf r = SchedKeyOf r' \<longrightarrow> QuotaKeyOf r = QuotaKeyOf r')"
proof
  show "QuotaKeyOf r = QuotaKeyOf r' \<longleftrightarrow>
      pod_Namespace p = pod_Namespace p' \<and> mget (pod_Labels p) k = mget (pod_Labels p') k"
  proof -
    obtain v where v: "mget (pod_Labels p) k = Some v" "QuotaKeyOf r = QuotaKey (pod_Namespace p) s k v"
      using assms(1) by (auto simp: PodRefFor_Inr)
    obtain v' where v': "mget (pod_Labels p') k = Some v'" "QuotaKeyOf r' = QuotaKey (pod_Namespace p') s k v'"
      using assms(2) by (auto simp: PodRefFor_Inr)
    show ?thesis
      using QuotaKey_inj [OF assms(3,4)] v v' by auto
  qed
  show "SchedKeyOf r = SchedKeyOf r' \<longrightarrow> QuotaKeyOf r = QuotaKeyOf r'"
    using PodRefFor_schedKey_quotaKey [OF assms(1,2)] by blast
qed

definition other_pod :: pod where
  "other_pod = example_pod\<lparr>pod_UID := ''u2'', pod_Labels := [(''app'', ''api'')]\<rparr>"

lemma example_refs:
  "PodRefFor example_pod ''s'' ''app'' = Inr \<lparr>QuotaKeyOf = ''ns1/s/app=web'',
     SchedKeyOf = SchedKey ''ns1/s/app=web'' (projr (DomainHash example_pod)), NodeNameOf = ''''\<rparr>"
  "PodRefFor other_pod ''s'' ''app'' = Inr \<lparr>QuotaKeyOf = ''ns1/s/app=api'',
     SchedKeyOf = SchedKey ''ns1/s/app=api'' (projr (DomainHash other_pod)), NodeNameOf = ''''\<rparr>"
  by (simp_all add: PodRefFor_Inr DomainHash_Inr QuotaKey_def)
    (simp_all add: other_pod_def example_pod_def example_spec_def)

theorem keys_identify_services_witness:
  "QuotaKeyOf (projr (PodRefFor example_pod ''s'' ''app'')) \<noteq> QuotaKeyOf (projr (PodRefFor other_pod ''s'' ''app''))"
proof -
  have ns: "CHR ''/'' \<notin> set (pod_Namespace example_pod)" "CHR ''/'' \<notin> set (pod_Namespace other_pod)"
    and labels: "mget (pod_Labels example_pod) ''app'' \<noteq> mget (pod_Labels other_pod) ''app''"
    by (simp_all add: other_pod_def example_pod_def)
  show ?thesis
    using keys_identify_services [OF example_refs ns] labels example_refs by simp
qed

end
