(* ===== verification/Domain.thy ===== *)
theory Domain
  imports Keys
begin

section \<open>The stable spread domain\<close>

text \<open>
  \<open>internal/spread/domain.go\<close>: which nodes a pod may be spread over. \<open>nodeInStableDomain\<close> and the
  selector matching below it are translated branch by branch; readiness and taint toleration are
  Kubernetes functions and come from the \<open>k8s_lib\<close> argument. A node pointer may be nil, hence
  \<^typ>\<open>node option\<close>; \<open>NodeReader.List\<close> returns an error or a list. The domain, a Go set of names, is a
  list without duplicates.
\<close>

text \<open>\<open>labels.Everything()\<close> listing of a node lister: the reader's result as it is.\<close>

type_synonym nodeReader = "string + node option list"

definition containsString :: "string list \<Rightarrow> string \<Rightarrow> bool" where
  "containsString vs s = list_ex (\<lambda>v. v = s) vs"

text \<open>The digit loop of \<open>atoi64\<close> over the remaining bytes; \<open>int64\<close> arithmetic wraps around.\<close>

fun atoi64_loop :: "string \<Rightarrow> int64 \<Rightarrow> int64 option" where
  "atoi64_loop [] n = Some n"
| "atoi64_loop (c # s) n =
     (if c < CHR ''0'' \<or> c > CHR ''9'' then None
      else atoi64_loop s (n * 10 + of_nat (byte c - 48)))"

definition atoi64 :: "string \<Rightarrow> int64 \<times> bool" where
  "atoi64 s =
     (case s of
        [] \<Rightarrow> (0, False)
      | c # rest \<Rightarrow>
          if c = CHR ''-'' then
            (if rest = [] then (0, False)
             else (case atoi64_loop rest 0 of None \<Rightarrow> (0, False) | Some n \<Rightarrow> (- n, True)))
          else (case atoi64_loop s 0 of None \<Rightarrow> (0, False) | Some n \<Rightarrow> (n, True)))"

definition requirementHolds :: "requirement \<Rightarrow> string \<Rightarrow> bool" where
  "requirementHolds r value =
     (let present = (value \<noteq> '''')
      in if rq_Operator r = ''In'' then present \<and> containsString (rq_Values r) value
         else if rq_Operator r = ''NotIn'' then \<not> containsString (rq_Values r) value
         else if rq_Operator r = ''Exists'' then present
         else if rq_Operator r = ''DoesNotExist'' then \<not> present
         else if rq_Operator r = ''Gt'' \<or> rq_Operator r = ''Lt'' then
           (if \<not> present then False
            else (case rq_Values r of
                [v0] \<Rightarrow>
                  (case (atoi64 value, atoi64 v0) of
                     ((n, ok), (lim, ok2)) \<Rightarrow>
                       if \<not> ok \<or> \<not> ok2 then False
                       else if rq_Operator r = ''Gt'' then sint n > sint lim
                       else sint n < sint lim)
              | _ \<Rightarrow> False))
         else False)"

definition fieldValue :: "node \<Rightarrow> requirement \<Rightarrow> string" where
  "fieldValue n r = (if rq_Key r = ''metadata.name'' then node_Name n else '''')"

definition matchNodeSelectorTerm :: "k8s_lib \<Rightarrow> nodeSelectorTerm \<Rightarrow> node \<Rightarrow> bool" where
  "matchNodeSelectorTerm lib term n =
     (list_all (\<lambda>r. requirementHolds r (lib_LabelsGet lib (node_Labels n) (rq_Key r))) (MatchExpressions term) \<and>
      list_all (\<lambda>r. requirementHolds r (fieldValue n r)) (MatchFields term))"

definition matchesNodeSelector :: "k8s_lib \<Rightarrow> pod \<Rightarrow> node \<Rightarrow> bool" where
  "matchesNodeSelector lib p n =
     (if \<not> list_all (\<lambda>(k, v). mgets (node_Labels n) k = v) (ps_NodeSelector (pod_Spec p)) then False
      else (case requiredTerms (pod_Spec p) of
              Some terms \<Rightarrow>
                if length terms = 0 then False else list_ex (\<lambda>t. matchNodeSelectorTerm lib t n) terms
            | None \<Rightarrow> True))"

definition gatingTaint :: "taint \<Rightarrow> bool" where
  "gatingTaint t \<longleftrightarrow> taint_Effect t = ''NoSchedule'' \<or> taint_Effect t = ''NoExecute''"

definition nodeInStableDomain :: "k8s_lib \<Rightarrow> pod \<Rightarrow> node option \<Rightarrow> bool" where
  "nodeInStableDomain lib p nodep =
     (case nodep of
        None \<Rightarrow> False
      | Some n \<Rightarrow>
          if \<not> lib_IsNodeReady lib n \<or> node_Unschedulable n then False
          else if \<not> matchesNodeSelector lib p n then False
          else if snd (lib_FindUntolerated lib (node_Taints n) (ps_Tolerations (pod_Spec p)) gatingTaint) then False
          else True)"

primrec domainLoop :: "k8s_lib \<Rightarrow> pod \<Rightarrow> node option list \<Rightarrow> string list \<Rightarrow> string list" where
  "domainLoop lib p [] domain = domain"
| "domainLoop lib p (n # ns) domain =
     domainLoop lib p ns
       (if nodeInStableDomain lib p n
        then (case n of Some nd \<Rightarrow> List.insert (node_Name nd) domain | None \<Rightarrow> domain)
        else domain)"

definition computeStableDomain :: "k8s_lib \<Rightarrow> pod \<Rightarrow> nodeReader \<Rightarrow> string list" where
  "computeStableDomain lib p nodes =
     (case nodes of
        Inl err \<Rightarrow> []
      | Inr ns \<Rightarrow> domainLoop lib p ns [])"

definition domainNodes :: "string list \<Rightarrow> string list" where
  "domainNodes domain = fold (\<lambda>n out. out @ [n]) domain []"

subsection \<open>The domain is the set of matching nodes\<close>

lemma domainLoop_set:
  "set (domainLoop lib p ns domain) =
     set domain \<union> {node_Name n | n. Some n \<in> set ns \<and> nodeInStableDomain lib p (Some n)}"
proof (induction ns arbitrary: domain)
  case (Cons n ns)
  then show ?case
    by (cases n) (auto simp: nodeInStableDomain_def)
qed simp

lemma domainLoop_distinct: "distinct domain \<Longrightarrow> distinct (domainLoop lib p ns domain)"
  by (induction ns arbitrary: domain) (auto split: option.splits)

lemma distinct_computeStableDomain: "distinct (computeStableDomain lib p nodes)"
  by (simp add: computeStableDomain_def domainLoop_distinct split: sum.splits)

lemma set_computeStableDomain:
  "set (computeStableDomain lib p (Inr ns)) =
     {node_Name n | n. Some n \<in> set ns \<and> nodeInStableDomain lib p (Some n)}"
  by (simp add: computeStableDomain_def domainLoop_set)

lemma domainNodes_id [simp]: "domainNodes domain = domain"
proof -
  have "fold (\<lambda>n out. out @ [n]) domain acc = acc @ domain" for acc
    by (induction domain arbitrary: acc) auto
  from this [of "[]"] show ?thesis by (simp add: domainNodes_def)
qed

lemma nodeInStableDomain_Some:
  "nodeInStableDomain lib p (Some n) \<longleftrightarrow>
     lib_IsNodeReady lib n \<and> \<not> node_Unschedulable n \<and> matchesNodeSelector lib p n \<and>
     \<not> snd (lib_FindUntolerated lib (node_Taints n) (ps_Tolerations (pod_Spec p)) gatingTaint)"
  by (auto simp: nodeInStableDomain_def)

lemma matchesNodeSelector_iff:
  "matchesNodeSelector lib p n \<longleftrightarrow>
     (\<forall>(k, v) \<in> set (ps_NodeSelector (pod_Spec p)). mgets (node_Labels n) k = v) \<and>
     (case requiredTerms (pod_Spec p) of None \<Rightarrow> True
      | Some terms \<Rightarrow> \<exists>t \<in> set terms. matchNodeSelectorTerm lib t n)"
  by (auto simp: matchesNodeSelector_def list_all_iff list_ex_iff split: option.splits if_splits)


definition example_node :: "string \<Rightarrow> node" where
  "example_node name = \<lparr>node_Name = name, node_Labels = [(''zone'', ''z1'')], node_Unschedulable = False,
     node_Taints = [], node_Conditions = [(''Ready'', ''True'')]\<rparr>"


subsection \<open>Numeric label comparison\<close>

lemma atoi64_loop_append:
  "atoi64_loop (s @ t) a = (case atoi64_loop s a of None \<Rightarrow> None | Some b \<Rightarrow> atoi64_loop t b)"
  by (induction s a rule: atoi64_loop.induct) auto

lemma char_between: "\<not> (c < CHR ''0'' \<or> c > CHR ''9'') \<longleftrightarrow> 48 \<le> byte c \<and> byte c \<le> 57"
proof -
  have "c < CHR ''0'' \<longleftrightarrow> byte c < 48" "c > CHR ''9'' \<longleftrightarrow> byte c > 57"
    by (simp_all add: less_char_def)
  then show ?thesis by auto
qed

lemma atoi64_loop_digit: "d < 10 \<Longrightarrow> atoi64_loop [char_of (48 + d)] n = Some (n * 10 + of_nat d)"
  using char_between [of "char_of (48 + d)"] by (simp add: byte_char_of)

lemma atoi64_loop_showNat: "atoi64_loop (showNat n) 0 = Some (of_nat n)"
proof (induction n rule: showNat.induct)
  case (1 n)
  show ?case
  proof (cases "n < 10")
    case True
    then show ?thesis using atoi64_loop_digit [of n 0] by (simp add: showNat.simps [of n])
  next
    case False
    have "(of_nat (n div 10) * 10 + of_nat (n mod 10) :: int64) = of_nat (n div 10 * 10 + n mod 10)"
      by (simp only: of_nat_add of_nat_mult of_nat_numeral)
    with False 1 show ?thesis
      using atoi64_loop_digit [of "n mod 10" "of_nat (n div 10)"]
      by (simp add: showNat.simps [of n] atoi64_loop_append)
  qed
qed

lemma showNat_nonempty: "showNat n \<noteq> []"
  by (subst showNat.simps) simp

lemma atoi64_nonneg:
  assumes "atoi64_loop s 0 = Some n" and "s \<noteq> []"
  shows "atoi64 s = (n, True)"
proof -
  obtain c t where s: "s = c # t" using assms(2) by (cases s) auto
  have "c \<noteq> CHR ''-''" using assms(1) s by (auto simp: less_char_def)
  then show ?thesis using assms(1) s by (simp add: atoi64_def)
qed

lemma atoi64_showInt: "atoi64 (showInt a) = (word_of_int a, True)"
proof (cases "a < 0")
  case True
  have "- (of_nat (nat (- a)) :: int64) = word_of_int a"
    using True by (simp add: of_nat_nat)
  then show ?thesis
    using True by (simp add: showInt_def atoi64_def showNat_nonempty atoi64_loop_showNat)
next
  case False
  then show ?thesis
    using atoi64_nonneg [OF atoi64_loop_showNat showNat_nonempty, of "nat a"]
    by (simp add: showInt_def of_nat_nat)
qed

lemma sint64_of_int:
  assumes "- (2 ^ 63) \<le> a" and "a < 2 ^ 63"
  shows "sint (word_of_int a :: int64) = a"
  using assms by (simp add: signed_of_int signed_take_bit_int_eq_self)

lemma showInt_nonempty: "showInt a \<noteq> []"
  by (simp add: showInt_def showNat_nonempty)

text \<open>On decimal label values inside the 64-bit range the operators \<open>Gt\<close> and \<open>Lt\<close> compare numbers.\<close>

theorem Gt_Lt_compare_numbers:
  assumes "- (2 ^ 63) \<le> a" "a < 2 ^ 63" "- (2 ^ 63) \<le> b" "b < 2 ^ 63"
  shows "requirementHolds \<lparr>rq_Key = k, rq_Operator = ''Gt'', rq_Values = [showInt b]\<rparr> (showInt a) = (a > b)
       \<and> requirementHolds \<lparr>rq_Key = k, rq_Operator = ''Lt'', rq_Values = [showInt b]\<rparr> (showInt a) = (a < b)"
  using assms by (simp add: requirementHolds_def atoi64_showInt showInt_nonempty sint64_of_int Let_def)

theorem Gt_Lt_compare_numbers_witness:
  "requirementHolds \<lparr>rq_Key = ''cpu'', rq_Operator = ''Gt'', rq_Values = [showInt 8]\<rparr> (showInt 16) = (16 > (8::int))"
  using Gt_Lt_compare_numbers [of 16 8 "''cpu''"] by simp

text \<open>Beyond the 64-bit range the parser neither fails nor saturates: it wraps around, so that a
  label value of 2^63 satisfies \<open>Lt 0\<close> and not \<open>Gt 0\<close>, where the comment says that malformed integers
  reject the node.\<close>

theorem Gt_wraps_around:
  "\<not> requirementHolds \<lparr>rq_Key = k, rq_Operator = ''Gt'', rq_Values = [showInt 0]\<rparr> (showInt (2 ^ 63)) \<and>
   requirementHolds \<lparr>rq_Key = k, rq_Operator = ''Lt'', rq_Values = [showInt 0]\<rparr> (showInt (2 ^ 63))"
proof -
  have "sint (word_of_int (2 ^ 63) :: int64) = - (2 ^ 63)" by simp
  then show ?thesis
    by (simp add: requirementHolds_def atoi64_showInt showInt_nonempty Let_def)
qed

subsection \<open>Empty terms, and domains that share a hash\<close>

definition emptyTerm :: nodeSelectorTerm where
  "emptyTerm = \<lparr>MatchExpressions = [], MatchFields = []\<rparr>"

definition withTerms :: "nodeSelectorTerm list \<Rightarrow> pod \<Rightarrow> pod" where
  "withTerms ts p = p\<lparr>pod_Spec := (pod_Spec p)\<lparr>ps_Affinity := Some \<lparr>NodeAffinity = Some
     \<lparr>RequiredDuringScheduling = Some \<lparr>NodeSelectorTerms = ts\<rparr>, PreferredDuringScheduling = []\<rparr>\<rparr>\<rparr>\<rparr>"

definition withoutAffinity :: "pod \<Rightarrow> pod" where
  "withoutAffinity p = p\<lparr>pod_Spec := (pod_Spec p)\<lparr>ps_Affinity := None\<rparr>\<rparr>"

lemma requiredTerms_with [simp]:
  "requiredTerms (pod_Spec (withTerms ts p)) = Some ts"
  "requiredTerms (pod_Spec (withoutAffinity p)) = None"
  by (simp_all add: requiredTerms_def withTerms_def withoutAffinity_def)

lemma with_fields [simp]:
  "ps_NodeSelector (pod_Spec (withTerms ts p)) = ps_NodeSelector (pod_Spec p)"
  "ps_Tolerations (pod_Spec (withTerms ts p)) = ps_Tolerations (pod_Spec p)"
  "ps_NodeSelector (pod_Spec (withoutAffinity p)) = ps_NodeSelector (pod_Spec p)"
  "ps_Tolerations (pod_Spec (withoutAffinity p)) = ps_Tolerations (pod_Spec p)"
  by (simp_all add: withTerms_def withoutAffinity_def)

text \<open>A required affinity with an empty term list excludes every node, but one empty term among the
  required terms makes the affinity match every node, as if there were none, although
  the comment in \<open>DomainHash\<close> says that an empty term matches no node.\<close>

theorem empty_term_matches_every_node:
  "\<not> nodeInStableDomain lib (withTerms [] p) n \<and>
   nodeInStableDomain lib (withTerms (emptyTerm # ts) p) n = nodeInStableDomain lib (withoutAffinity p) n"
  by (cases n) (simp_all add: nodeInStableDomain_Some matchesNodeSelector_iff matchNodeSelectorTerm_def
      emptyTerm_def nodeInStableDomain_def matchesNodeSelector_def)

definition nameRequirement :: requirement where
  "nameRequirement = \<lparr>rq_Key = ''metadata.name'', rq_Operator = ''In'', rq_Values = [''n1'']\<rparr>"

text \<open>Pods with different stable domains can share a scheduling domain: a requirement on the field
  \<open>metadata.name\<close> and the same requirement on a label of that name hash alike, while the first selects
  the node \<open>n1\<close> and the second does not.\<close>

theorem same_hash_different_domain:
  "DomainHash (withTerms [\<lparr>MatchExpressions = [], MatchFields = [nameRequirement]\<rparr>] example_pod) =
     DomainHash (withTerms [\<lparr>MatchExpressions = [nameRequirement], MatchFields = []\<rparr>] example_pod) \<and>
   computeStableDomain example_lib (withTerms [\<lparr>MatchExpressions = [], MatchFields = [nameRequirement]\<rparr>] example_pod)
     (Inr [Some (example_node ''n1'')]) = [''n1''] \<and>
   computeStableDomain example_lib (withTerms [\<lparr>MatchExpressions = [nameRequirement], MatchFields = []\<rparr>] example_pod)
     (Inr [Some (example_node ''n1'')]) = []"
proof (intro conjI)
  show "DomainHash (withTerms [\<lparr>MatchExpressions = [], MatchFields = [nameRequirement]\<rparr>] example_pod) =
     DomainHash (withTerms [\<lparr>MatchExpressions = [nameRequirement], MatchFields = []\<rparr>] example_pod)"
    using normTerm_merges_fields_and_labels [of "[]" "[nameRequirement]"]
    by (simp add: DomainHash_def domainSpecOf_def)
qed (simp_all add: computeStableDomain_def nodeInStableDomain_def matchesNodeSelector_def matchNodeSelectorTerm_def
    requirementHolds_def fieldValue_def containsString_def nameRequirement_def example_node_def example_lib_def
    example_pod_def example_spec_def mgets_def withTerms_def requiredTerms_def)

end
