(* ===== verification/State.thy ===== *)
theory State
  imports Keys
begin

section \<open>Count snapshots and the reservation state machine\<close>

text \<open>
  \<open>internal/spread/state.go\<close>. The snapshot of per-node counts, the reservations, and every method of
  \<open>spreadState\<close>. Each method that takes the mutex is one function on the state: a method call is one
  atomic step. Copy-on-write is a function from the old snapshot to the new one; that
  the updates in place do the same in shared memory, unseen by readers, is shown in \<open>Cow_Snapshot\<close>. The nested count maps are an instance of the interface
  \<open>count_table\<close>; the invariant \<open>snapshot_ok\<close> says that they count the pods of the snapshot.
\<close>

subsection \<open>State\<close>

record snapshot =
  snap_pods :: "(uid, podRef) gomap"
  nodeQuota :: "(string, (string, int32) gomap) gomap"
  nodeDomain :: "(string, (string, int32) gomap) gomap"

datatype resvPhase = resvReserved | resvBoundObs

record reservation =
  rsv_UID :: uid
  rsv_QuotaKey :: string
  rsv_SchedKey :: string
  rsv_NodeName :: string
  rsv_Phase :: resvPhase
  rsv_Since :: int

record spreadState =
  st_snap :: snapshot
  st_resv :: "(uid, reservation) gomap"

text \<open>The phases are numbered by \<open>iota\<close>: reserved before bound.\<close>

instantiation resvPhase :: linorder
begin

definition less_eq_resvPhase :: "resvPhase \<Rightarrow> resvPhase \<Rightarrow> bool" where
  "less_eq_resvPhase a b \<longleftrightarrow> a = resvReserved \<or> b = resvBoundObs"

definition less_resvPhase :: "resvPhase \<Rightarrow> resvPhase \<Rightarrow> bool" where
  "less_resvPhase a b \<longleftrightarrow> a = resvReserved \<and> b = resvBoundObs"

instance
proof
  fix x y :: resvPhase
  show "(x < y) = (x \<le> y \<and> \<not> y \<le> x)" "x \<le> x" "x \<le> y \<Longrightarrow> y \<le> x \<Longrightarrow> x = y" "x \<le> y \<or> y \<le> x"
    by (cases x; cases y; simp add: less_eq_resvPhase_def less_resvPhase_def)+
next
  fix x y z :: resvPhase
  show "x \<le> y \<Longrightarrow> y \<le> z \<Longrightarrow> x \<le> z"
    by (cases x; cases y; cases z; simp add: less_eq_resvPhase_def)
qed

end

subsection \<open>Nested count maps\<close>

definition rowOf :: "(string, (string, int32) gomap) gomap \<Rightarrow> string \<Rightarrow> (string, int32) gomap" where
  "rowOf m outer = (case mget m outer of None \<Rightarrow> [] | Some row \<Rightarrow> row)"

definition get2 :: "(string, (string, int32) gomap) gomap \<Rightarrow> string \<Rightarrow> string \<Rightarrow> int32" where
  "get2 m outer inner = mget0 (rowOf m outer) inner"

definition incMap ::
    "(string, (string, int32) gomap) gomap \<Rightarrow> string \<Rightarrow> string \<Rightarrow> (string, (string, int32) gomap) gomap" where
  "incMap m outer inner =
     (let m1 = (if mget m outer = None then mput m outer [] else m); row = rowOf m1 outer
      in mput m1 outer (mput row inner (mget0 row inner + 1)))"

definition decMap ::
    "(string, (string, int32) gomap) gomap \<Rightarrow> string \<Rightarrow> string \<Rightarrow> (string, (string, int32) gomap) gomap" where
  "decMap m outer inner =
     (case mget m outer of
        None \<Rightarrow> m
      | Some row \<Rightarrow>
          if sint (mget0 row inner) \<le> 1 then
            (let row' = mdel row inner; m' = mput m outer row'
             in if length row' = 0 then mdel m' outer else m')
          else mput m outer (mput row inner (mget0 row inner - 1)))"

subsection \<open>Snapshots\<close>

definition emptySnapshot :: snapshot where
  "emptySnapshot = \<lparr>snap_pods = [], nodeQuota = [], nodeDomain = []\<rparr>"

definition snapshot_clone :: "snapshot \<Rightarrow> snapshot" where
  "snapshot_clone s = \<lparr>
     snap_pods = copyMap (snap_pods s),
     nodeQuota = fold (\<lambda>(n, m) c. mput c n (copyMap m)) (nodeQuota s) [],
     nodeDomain = fold (\<lambda>(n, m) c. mput c n (copyMap m)) (nodeDomain s) []\<rparr>"

definition snapshot_count :: "snapshot \<Rightarrow> string \<Rightarrow> string \<Rightarrow> string \<Rightarrow> int32 \<times> int32" where
  "snapshot_count s node quotaKey schedKey =
     (case mget (nodeQuota s) node of None \<Rightarrow> 0 | Some m \<Rightarrow> mget0 m quotaKey,
      case mget (nodeDomain s) node of None \<Rightarrow> 0 | Some m \<Rightarrow> mget0 m schedKey)"

definition unapplyCount :: "snapshot \<Rightarrow> uid \<Rightarrow> snapshot" where
  "unapplyCount snap u =
     (case mget (snap_pods snap) u of
        None \<Rightarrow> snap
      | Some old \<Rightarrow> \<lparr>
          snap_pods = mdel (snap_pods snap) u,
          nodeQuota = decMap (nodeQuota snap) (NodeNameOf old) (QuotaKeyOf old),
          nodeDomain = decMap (nodeDomain snap) (NodeNameOf old) (SchedKeyOf old)\<rparr>)"

definition applyCount :: "snapshot \<Rightarrow> uid \<Rightarrow> podRef \<Rightarrow> snapshot" where
  "applyCount snap u ref =
     (let s1 = (if mget (snap_pods snap) u \<noteq> None then unapplyCount snap u else snap)
      in \<lparr>snap_pods = mput (snap_pods s1) u ref,
          nodeQuota = incMap (nodeQuota s1) (NodeNameOf ref) (QuotaKeyOf ref),
          nodeDomain = incMap (nodeDomain s1) (NodeNameOf ref) (SchedKeyOf ref)\<rparr>)"

subsection \<open>The methods of spreadState\<close>

definition newSpreadState :: spreadState where
  "newSpreadState = \<lparr>st_snap = emptySnapshot, st_resv = []\<rparr>"

text \<open>The loop over the reservations that adds the overlay to \<open>(domainN, quotaN)\<close>.\<close>

primrec overlayLoop ::
    "(uid, reservation) gomap \<Rightarrow> string \<Rightarrow> string \<Rightarrow> string \<Rightarrow> int32 \<times> int32 \<Rightarrow> int32 \<times> int32" where
  "overlayLoop [] node schedKey quotaKey acc = acc"
| "overlayLoop (e # es) node schedKey quotaKey acc =
     (let r = snd e; domainN = fst acc; quotaN = snd acc
      in if rsv_NodeName r \<noteq> node then overlayLoop es node schedKey quotaKey acc
         else overlayLoop es node schedKey quotaKey
           (if rsv_SchedKey r = schedKey then domainN + 1 else domainN,
            if rsv_QuotaKey r = quotaKey then quotaN + 1 else quotaN))"

definition effCount :: "spreadState \<Rightarrow> string \<Rightarrow> string \<Rightarrow> string \<Rightarrow> int32 \<times> int32" where
  "effCount s node schedKey quotaKey =
     (let (quotaN, domainN) = snapshot_count (st_snap s) node quotaKey schedKey
      in overlayLoop (st_resv s) node schedKey quotaKey (domainN, quotaN))"

record reserveGuard =
  g_snap :: snapshot
  g_resv :: "(uid, reservation) gomap"

definition guard_EffCount :: "reserveGuard \<Rightarrow> string \<Rightarrow> string \<Rightarrow> string \<Rightarrow> int32 \<times> int32" where
  "guard_EffCount g node schedKey quotaKey =
     (let (quotaN, domainN) = snapshot_count (g_snap g) node quotaKey schedKey
      in overlayLoop (g_resv g) node schedKey quotaKey (domainN, quotaN))"

definition guardOf :: "spreadState \<Rightarrow> reserveGuard" where
  "guardOf s = \<lparr>g_snap = st_snap s, g_resv = st_resv s\<rparr>"

text \<open>\<open>now\<close> is the clock reading the call takes; \<open>admit\<close> may panic, which the deferred unlock lets
  through without a change of the state.\<close>

definition TryReserveChecked ::
    "uid \<Rightarrow> podRef \<Rightarrow> (reserveGuard \<Rightarrow> bool outcome) \<Rightarrow> int \<Rightarrow> spreadState \<Rightarrow> (bool \<times> spreadState) outcome" where
  "TryReserveChecked u ref admit now s =
     (if mget (st_resv s) u \<noteq> None then Ret (False, s)
      else bindOutcome (admit (guardOf s)) (\<lambda>ok.
        if \<not> ok then Ret (False, s)
        else Ret (True, s\<lparr>st_resv := mput (st_resv s) u
          \<lparr>rsv_UID = u, rsv_QuotaKey = QuotaKeyOf ref, rsv_SchedKey = SchedKeyOf ref,
           rsv_NodeName = NodeNameOf ref, rsv_Phase = resvReserved, rsv_Since = now\<rparr>\<rparr>)))"

definition TryReserve ::
    "uid \<Rightarrow> podRef \<Rightarrow> (int32 \<Rightarrow> int32 \<Rightarrow> bool) \<Rightarrow> int \<Rightarrow> spreadState \<Rightarrow> (bool \<times> spreadState) outcome" where
  "TryReserve u ref admit now s =
     TryReserveChecked u ref (\<lambda>g. let (domainN, quotaN) = guard_EffCount g (NodeNameOf ref) (SchedKeyOf ref) (QuotaKeyOf ref)
                                  in Ret (admit domainN quotaN)) now s"

definition Unreserve :: "uid \<Rightarrow> spreadState \<Rightarrow> spreadState" where
  "Unreserve u s =
     (case mget (st_resv s) u of
        Some r \<Rightarrow> if rsv_Phase r = resvReserved then s\<lparr>st_resv := mdel (st_resv s) u\<rparr> else s
      | None \<Rightarrow> s)"

definition MarkBound :: "uid \<Rightarrow> spreadState \<Rightarrow> spreadState" where
  "MarkBound u s =
     (case mget (st_resv s) u of
        Some r \<Rightarrow> if rsv_Phase r = resvReserved
                  then s\<lparr>st_resv := mput (st_resv s) u (r\<lparr>rsv_Phase := resvBoundObs\<rparr>)\<rparr> else s
      | None \<Rightarrow> s)"

definition releaseIfObserved :: "uid \<Rightarrow> spreadState \<Rightarrow> spreadState" where
  "releaseIfObserved u s =
     (case mget (st_resv s) u of
        None \<Rightarrow> s
      | Some r \<Rightarrow>
          (case mget (snap_pods (st_snap s)) u of
             Some ref \<Rightarrow> if NodeNameOf ref = rsv_NodeName r then s\<lparr>st_resv := mdel (st_resv s) u\<rparr> else s
           | None \<Rightarrow> s))"

definition reservationsLen :: "spreadState \<Rightarrow> nat" where
  "reservationsLen s = length (st_resv s)"

definition ReservationCounts :: "spreadState \<Rightarrow> (string, int32) gomap" where
  "ReservationCounts s =
     fold (\<lambda>e out. mput out (rsv_QuotaKey (snd e)) (mget0 out (rsv_QuotaKey (snd e)) + 1)) (st_resv s) []"

text \<open>\<open>None\<close> is Go's \<open>(-1, false)\<close>.\<close>

definition reservationPhase :: "uid \<Rightarrow> spreadState \<Rightarrow> resvPhase option" where
  "reservationPhase u s = map_option rsv_Phase (mget (st_resv s) u)"

definition upsertCount :: "uid \<Rightarrow> podRef \<Rightarrow> spreadState \<Rightarrow> spreadState" where
  "upsertCount u ref s = s\<lparr>st_snap := applyCount (snapshot_clone (st_snap s)) u ref\<rparr>"

definition removeCount :: "uid \<Rightarrow> spreadState \<Rightarrow> spreadState" where
  "removeCount u s = s\<lparr>st_snap := unapplyCount (snapshot_clone (st_snap s)) u\<rparr>"

definition rebuildSnapshot :: "(uid, podRef) gomap \<Rightarrow> snapshot" where
  "rebuildSnapshot pods = fold (\<lambda>(u, ref) snap. applyCount snap u ref) pods emptySnapshot"

definition rebuild :: "(uid, podRef) gomap \<Rightarrow> spreadState \<Rightarrow> spreadState" where
  "rebuild pods s = s\<lparr>st_snap := rebuildSnapshot pods\<rparr>"

subsection \<open>The interface of count tables\<close>

text \<open>A table of \<open>int32\<close> counters addressed by two keys, and the lemma its clients need: a table that
  counts the entries of a keyed collection keeps doing so when an entry is added and the table is
  incremented at its address, or an entry is removed and the table decremented.\<close>

locale count_table =
  fixes tget :: "'t \<Rightarrow> 'a \<Rightarrow> 'b \<Rightarrow> int32"
    and tinc :: "'t \<Rightarrow> 'a \<Rightarrow> 'b \<Rightarrow> 't"
    and tdec :: "'t \<Rightarrow> 'a \<Rightarrow> 'b \<Rightarrow> 't"
    and tok :: "'t \<Rightarrow> bool"
  assumes get_inc: "tok t \<Longrightarrow> tget (tinc t a b) a' b' = (if a' = a \<and> b' = b then tget t a b + 1 else tget t a' b')"
    and get_dec: "tok t \<Longrightarrow> 0 < sint (tget t a b) \<Longrightarrow>
      tget (tdec t a b) a' b' = (if a' = a \<and> b' = b then tget t a b - 1 else tget t a' b')"
    and ok_inc: "tok t \<Longrightarrow> tget t a b + 1 \<noteq> 0 \<Longrightarrow> tok (tinc t a b)"
    and ok_dec: "tok t \<Longrightarrow> 0 < sint (tget t a b) \<Longrightarrow> tok (tdec t a b)"
begin

lemma tally_insert:
  assumes "tok t" and counts: "\<And>a b. tget t a b = of_nat (mcount (\<lambda>v. f v = a \<and> g v = b) m)"
    and "mget m k = None" and "length m < 2 ^ 31 - 1"
  shows "tok (tinc t (f v) (g v))"
    and "tget (tinc t (f v) (g v)) a b = of_nat (mcount (\<lambda>v. f v = a \<and> g v = b) (mput m k v))"
proof -
  let ?n = "mcount (\<lambda>w. f w = f v \<and> g w = g v) m"
  have "?n + 1 < 2 ^ 31" using mcount_le_length [of "\<lambda>w. f w = f v \<and> g w = g v" m] assms(4) by simp
  then have "(of_nat (?n + 1) :: int32) \<noteq> 0" by (subst of_nat_int32_eq_0) simp_all
  then have "tget t (f v) (g v) + 1 \<noteq> 0" by (simp add: counts add.commute)
  with assms(1) show "tok (tinc t (f v) (g v))" by (rule ok_inc)
  show "tget (tinc t (f v) (g v)) a b = of_nat (mcount (\<lambda>v. f v = a \<and> g v = b) (mput m k v))"
    using assms(3) by (auto simp: get_inc [OF assms(1)] counts mcount_mput_absent)
qed

lemma tally_delete:
  assumes "tok t" and counts: "\<And>a b. tget t a b = of_nat (mcount (\<lambda>v. f v = a \<and> g v = b) m)"
    and "wf_gomap m" and "mget m k = Some v" and "length m < 2 ^ 31"
  shows "tok (tdec t (f v) (g v))"
    and "tget (tdec t (f v) (g v)) a b = of_nat (mcount (\<lambda>v. f v = a \<and> g v = b) (mdel m k))"
proof -
  let ?n = "mcount (\<lambda>w. f w = f v \<and> g w = g v) m"
  have pos: "0 < ?n" using mcount_pos [OF assms(4), of "\<lambda>w. f w = f v \<and> g w = g v"] by simp
  have "?n < 2 ^ 31" using mcount_le_length [of "\<lambda>w. f w = f v \<and> g w = g v" m] assms(5) by simp
  then have s: "0 < sint (tget t (f v) (g v))" using pos by (simp add: counts sint32_of_nat)
  show "tok (tdec t (f v) (g v))" by (rule ok_dec [OF assms(1) s])
  have one: "(of_nat (?n - 1) :: int32) = of_nat ?n - 1" using pos by (simp add: Suc_leI of_nat_diff)
  show "tget (tdec t (f v) (g v)) a b = of_nat (mcount (\<lambda>v. f v = a \<and> g v = b) (mdel m k))"
    using one by (auto simp: get_dec [OF assms(1) s] counts mcount_mdel [OF assms(3)] assms(4))
qed

end

text \<open>Tables without empty rows and without zero entries; the code keeps them so.\<close>

definition table_ok :: "(string, (string, int32) gomap) gomap \<Rightarrow> bool" where
  "table_ok m \<longleftrightarrow> wf_gomap m \<and>
     list_all (\<lambda>(n, row). row \<noteq> [] \<and> wf_gomap row \<and> list_all (\<lambda>(k, c). c \<noteq> 0) row) m"

lemma table_ok_row:
  "table_ok m \<Longrightarrow> mget m n = Some row \<Longrightarrow> row \<noteq> [] \<and> wf_gomap row \<and> (\<forall>(k, c) \<in> set row. c \<noteq> 0)"
  by (auto simp: table_ok_def list_all_iff dest!: map_of_SomeD)

lemma rowOf_wf: "table_ok m \<Longrightarrow> wf_gomap (rowOf m n) \<and> (\<forall>(k, c) \<in> set (rowOf m n). c \<noteq> 0)"
  using table_ok_row [of m n] by (auto simp: rowOf_def split: option.splits)

lemma mget0_mput: "mget0 (mput m k v) k' = (if k' = k then v else mget0 m k')"
  by (simp add: mget0_def)

lemma mget0_mdel: "mget0 (mdel m k) k' = (if k' = k then 0 else mget0 m k')"
  by (simp add: mget0_def)

lemma rowOf_mput: "rowOf (mput m n row) n' = (if n' = n then row else rowOf m n')"
  by (simp add: rowOf_def)

lemma rowOf_mdel: "rowOf (mdel m n) n' = (if n' = n then [] else rowOf m n')"
  by (simp add: rowOf_def)

lemma incMap_alt: "incMap m outer inner = mput (if mget m outer = None then mput m outer [] else m) outer
   (mput (rowOf m outer) inner (get2 m outer inner + 1))"
  by (simp add: incMap_def get2_def rowOf_def Let_def)

lemma get2_incMap: "get2 (incMap m a b) a' b' = (if a' = a \<and> b' = b then get2 m a b + 1 else get2 m a' b')"
  by (auto simp: incMap_alt get2_def rowOf_mput mget0_mput mget0_def)

lemma table_ok_mput:
  assumes "table_ok m" and "row \<noteq> []" "wf_gomap row" "\<forall>(k, c) \<in> set row. c \<noteq> 0"
  shows "table_ok (mput m n row)"
proof -
  have wf: "wf_gomap m" using assms(1) by (simp add: table_ok_def)
  show ?thesis
    using assms by (auto simp: table_ok_def list_all_iff set_mput [OF wf])
qed

lemma mput_mput: "mput (mput m k v) k w = mput m k w"
  by (induction m k v rule: mput.induct) auto

lemma table_ok_incMap:
  assumes "table_ok m" and "get2 m a b + 1 \<noteq> 0"
  shows "table_ok (incMap m a b)"
proof -
  let ?row = "mput (rowOf m a) b (get2 m a b + 1)"
  have wf: "wf_gomap (rowOf m a)" and nz: "\<forall>(k, c) \<in> set (rowOf m a). c \<noteq> 0"
    using rowOf_wf [OF assms(1)] by auto
  have "wf_gomap ?row" "\<forall>(k, c) \<in> set ?row. c \<noteq> 0"
    using wf nz assms(2) by (auto simp: set_mput [OF wf])
  then have "table_ok (mput m a ?row)" by (intro table_ok_mput assms) auto
  then show ?thesis by (simp add: incMap_alt mput_mput)
qed

lemma mdel_mput_same: "mdel (mput m k v) k = mdel m k"
  by (induction m k v rule: mput.induct) auto

lemma table_ok_mdel: "table_ok m \<Longrightarrow> table_ok (mdel m n)"
  by (auto simp: table_ok_def list_all_iff set_mdel)

lemma get2_pos_row: "0 < sint (get2 m a b) \<Longrightarrow> \<exists>row. mget m a = Some row"
  by (cases "mget m a") (auto simp: get2_def rowOf_def mget0_def)

lemma get2_decMap:
  assumes "0 < sint (get2 m a b)"
  shows "get2 (decMap m a b) a' b' = (if a' = a \<and> b' = b then get2 m a b - 1 else get2 m a' b')"
proof -
  obtain row where row: "mget m a = Some row" using get2_pos_row [OF assms] by blast
  have one: "get2 m a b - 1 = 0" if "sint (get2 m a b) \<le> 1"
  proof -
    have "sint (get2 m a b) = 1" using that assms by simp
    then have "(word_of_int (sint (get2 m a b)) :: int32) = 1" by simp
    then show ?thesis by simp
  qed
  show ?thesis
  proof (cases "sint (mget0 row b) \<le> 1")
    case True
    then have z: "mget0 row b = 1" using one row by (simp add: get2_def rowOf_def)
    have "get2 (decMap m a b) a' b' = get2 (mput m a (mdel row b)) a' b'"
      using row True by (auto simp: decMap_def Let_def get2_def rowOf_mput rowOf_mdel)
    then show ?thesis
      using row z by (auto simp: get2_def rowOf_mput mget0_mdel rowOf_def [of m])
  next
    case False
    then show ?thesis
      using row by (auto simp: decMap_def get2_def rowOf_mput mget0_mput rowOf_def [of m])
  qed
qed

lemma table_ok_decMap:
  assumes "table_ok m" and "0 < sint (get2 m a b)"
  shows "table_ok (decMap m a b)"
proof -
  obtain row where row: "mget m a = Some row" using get2_pos_row [OF assms(2)] by blast
  have r: "row \<noteq> []" "wf_gomap row" "\<forall>(k, c) \<in> set row. c \<noteq> 0"
    using table_ok_row [OF assms(1) row] by auto
  show ?thesis
  proof (cases "sint (mget0 row b) \<le> 1")
    case True
    show ?thesis
    proof (cases "mdel row b = []")
      case True
      with \<open>sint (mget0 row b) \<le> 1\<close> row show ?thesis
        by (simp add: decMap_def mdel_mput_same table_ok_mdel assms(1))
    next
      case False
      with True row r show ?thesis
        by (auto simp: decMap_def Let_def set_mdel intro!: table_ok_mput assms(1))
    qed
  next
    case False
    have "mget0 row b - 1 \<noteq> 0"
    proof
      assume "mget0 row b - 1 = 0"
      then have "mget0 row b = 1" by simp
      with False show False by simp
    qed
    with False row r show ?thesis
      by (auto simp: decMap_def set_mput intro!: table_ok_mput assms(1))
  qed
qed

interpretation ct: count_table get2 incMap decMap table_ok
  by unfold_locales (auto simp: get2_incMap get2_decMap table_ok_incMap table_ok_decMap)

subsection \<open>The snapshot counts its pods\<close>

abbreviation quotaAt :: "string \<Rightarrow> string \<Rightarrow> podRef \<Rightarrow> bool" where
  "quotaAt n q r \<equiv> NodeNameOf r = n \<and> QuotaKeyOf r = q"

abbreviation domainAt :: "string \<Rightarrow> string \<Rightarrow> podRef \<Rightarrow> bool" where
  "domainAt n k r \<equiv> NodeNameOf r = n \<and> SchedKeyOf r = k"

definition snapshot_ok :: "snapshot \<Rightarrow> bool" where
  "snapshot_ok s \<longleftrightarrow> wf_gomap (snap_pods s) \<and> table_ok (nodeQuota s) \<and> table_ok (nodeDomain s) \<and>
     (\<forall>n q. get2 (nodeQuota s) n q = of_nat (mcount (quotaAt n q) (snap_pods s))) \<and>
     (\<forall>n k. get2 (nodeDomain s) n k = of_nat (mcount (domainAt n k) (snap_pods s)))"

lemma snapshot_ok_empty: "snapshot_ok emptySnapshot"
  by (simp add: snapshot_ok_def emptySnapshot_def table_ok_def get2_def rowOf_def mget0_def)

lemma copyRows:
  assumes "table_ok m"
  shows "fold (\<lambda>(n, row) c. mput c n (copyMap row)) m [] = m"
proof -
  let ?copy = "\<lambda>(n, row). (n, copyMap row)"
  have "fold (\<lambda>(n, row) c. mput c n (copyMap row)) m [] = fold (\<lambda>(k, v) acc. mput acc k v) (map ?copy m) []"
    by (simp add: fold_map comp_def case_prod_unfold)
  also have "map ?copy m = m"
    by (rule map_idI) (use assms in \<open>auto simp: table_ok_def list_all_iff\<close>)
  also have "fold (\<lambda>(k, v) acc. mput acc k v) m [] = m"
    using fold_mput_append [of "[]" m] assms by (simp add: table_ok_def wf_gomap_def)
  finally show ?thesis .
qed

lemma snapshot_clone_id: "snapshot_ok s \<Longrightarrow> snapshot_clone s = s"
  by (cases s) (simp add: snapshot_clone_def snapshot_ok_def copyRows)

lemma snapshot_ok_unapply:
  assumes ok: "snapshot_ok s" and small: "length (snap_pods s) < 2 ^ 31"
  shows "snapshot_ok (unapplyCount s u)"
proof (cases "mget (snap_pods s) u")
  case None
  then show ?thesis using ok by (simp add: unapplyCount_def)
next
  case (Some old)
  note facts = ok [unfolded snapshot_ok_def]
  have wf: "wf_gomap (snap_pods s)" and tq: "table_ok (nodeQuota s)" and td: "table_ok (nodeDomain s)"
    and cq: "\<And>n q. get2 (nodeQuota s) n q = of_nat (mcount (quotaAt n q) (snap_pods s))"
    and cd: "\<And>n k. get2 (nodeDomain s) n k = of_nat (mcount (domainAt n k) (snap_pods s))"
    using facts by auto
  show ?thesis
    using ct.tally_delete [OF tq cq wf Some small] ct.tally_delete [OF td cd wf Some small] wf Some
    by (simp add: snapshot_ok_def unapplyCount_def)
qed

lemma pods_unapply: "snap_pods (unapplyCount s u) = mdel (snap_pods s) u"
  by (auto simp: unapplyCount_def split: option.splits)

lemma pods_apply_get:
  "mget (snap_pods (applyCount s u ref)) v = (if v = u then Some ref else mget (snap_pods s) v)"
  by (simp add: applyCount_def Let_def pods_unapply)

lemma length_pods_apply: "length (snap_pods (applyCount s u ref)) \<le> Suc (length (snap_pods s))"
  using length_mput [of "snap_pods s" u ref] length_mput [of "mdel (snap_pods s) u" u ref]
    length_mdel [of "snap_pods s" u]
  by (auto simp: applyCount_def Let_def pods_unapply)

lemma snapshot_ok_apply:
  assumes ok: "snapshot_ok s" and small: "length (snap_pods s) < 2 ^ 31 - 1"
  shows "snapshot_ok (applyCount s u ref)"
proof -
  define s1 where "s1 = (if mget (snap_pods s) u \<noteq> None then unapplyCount s u else s)"
  have ok1: "snapshot_ok s1" using ok small by (simp add: s1_def snapshot_ok_unapply)
  have absent: "mget (snap_pods s1) u = None" by (simp add: s1_def pods_unapply)
  have small1: "length (snap_pods s1) < 2 ^ 31 - 1"
    using small length_mdel [of "snap_pods s" u] by (auto simp: s1_def pods_unapply)
  have wf: "wf_gomap (snap_pods s1)" and tq: "table_ok (nodeQuota s1)" and td: "table_ok (nodeDomain s1)"
    and cq: "\<And>n q. get2 (nodeQuota s1) n q = of_nat (mcount (quotaAt n q) (snap_pods s1))"
    and cd: "\<And>n k. get2 (nodeDomain s1) n k = of_nat (mcount (domainAt n k) (snap_pods s1))"
    using ok1 by (auto simp: snapshot_ok_def)
  have "applyCount s u ref = \<lparr>snap_pods = mput (snap_pods s1) u ref,
      nodeQuota = incMap (nodeQuota s1) (NodeNameOf ref) (QuotaKeyOf ref),
      nodeDomain = incMap (nodeDomain s1) (NodeNameOf ref) (SchedKeyOf ref)\<rparr>"
    by (simp add: applyCount_def s1_def Let_def)
  then show ?thesis
    using ct.tally_insert [OF tq cq absent small1, of ref] ct.tally_insert [OF td cd absent small1, of ref] wf
    by (simp add: snapshot_ok_def)
qed

lemma fold_apply_ok:
  assumes "snapshot_ok s" and "length (snap_pods s) + length pods < 2 ^ 31"
  shows "snapshot_ok (fold (\<lambda>(u, ref) snap. applyCount snap u ref) pods s)"
  using assms
proof (induction pods arbitrary: s)
  case (Cons e pods)
  obtain u ref where e: "e = (u, ref)" by (cases e)
  have "snapshot_ok (applyCount s u ref)" using Cons.prems by (intro snapshot_ok_apply) simp_all
  moreover have "length (snap_pods (applyCount s u ref)) + length pods < 2 ^ 31"
    using Cons.prems length_pods_apply [of s u ref] by simp
  ultimately show ?case using Cons.IH e by simp
qed simp

lemma fold_apply_pods:
  assumes "wf_gomap pods"
  shows "mget (snap_pods (fold (\<lambda>(u, ref) snap. applyCount snap u ref) pods s)) v =
    (case mget pods v of None \<Rightarrow> mget (snap_pods s) v | Some ref \<Rightarrow> Some ref)"
  using assms
proof (induction pods arbitrary: s)
  case (Cons e pods)
  obtain u ref where e: "e = (u, ref)" by (cases e)
  with Cons show ?case
    by (auto simp: pods_apply_get wf_gomap_Cons split: option.splits)
qed simp

lemma rebuildSnapshot_ok: "length pods < 2 ^ 31 \<Longrightarrow> snapshot_ok (rebuildSnapshot pods)"
  unfolding rebuildSnapshot_def by (rule fold_apply_ok [OF snapshot_ok_empty]) (simp add: emptySnapshot_def)

lemma rebuildSnapshot_pods: "wf_gomap pods \<Longrightarrow> mget (snap_pods (rebuildSnapshot pods)) = mget pods"
  by (rule ext) (simp add: rebuildSnapshot_def fold_apply_pods emptySnapshot_def split: option.splits)

lemma length_rebuild_pods: "length (snap_pods (rebuildSnapshot pods)) \<le> length pods"
proof -
  have "length (snap_pods (fold (\<lambda>(u, ref) snap. applyCount snap u ref) pods s)) \<le> length (snap_pods s) + length pods" for s
  proof (induction pods arbitrary: s)
    case (Cons e pods)
    show ?case
      using Cons [of "applyCount s (fst e) (snd e)"] length_pods_apply [of s "fst e" "snd e"]
      by (simp add: case_prod_unfold)
  qed simp
  from this [of emptySnapshot] show ?thesis by (simp add: rebuildSnapshot_def emptySnapshot_def)
qed

subsection \<open>Effective counts\<close>

definition state_ok :: "spreadState \<Rightarrow> bool" where
  "state_ok s \<longleftrightarrow> snapshot_ok (st_snap s) \<and> wf_gomap (st_resv s)"

text \<open>Bound under which no \<open>int32\<close> counter overflows.\<close>

definition state_small :: "spreadState \<Rightarrow> bool" where
  "state_small s \<longleftrightarrow> length (snap_pods (st_snap s)) + length (st_resv s) < 2 ^ 31 - 1"

abbreviation resvQuotaAt :: "string \<Rightarrow> string \<Rightarrow> reservation \<Rightarrow> bool" where
  "resvQuotaAt n q r \<equiv> rsv_NodeName r = n \<and> rsv_QuotaKey r = q"

abbreviation resvDomainAt :: "string \<Rightarrow> string \<Rightarrow> reservation \<Rightarrow> bool" where
  "resvDomainAt n k r \<equiv> rsv_NodeName r = n \<and> rsv_SchedKey r = k"

definition quotaCount :: "spreadState \<Rightarrow> string \<Rightarrow> string \<Rightarrow> nat" where
  "quotaCount s n q = mcount (quotaAt n q) (snap_pods (st_snap s)) + mcount (resvQuotaAt n q) (st_resv s)"

definition domainCount :: "spreadState \<Rightarrow> string \<Rightarrow> string \<Rightarrow> nat" where
  "domainCount s n k = mcount (domainAt n k) (snap_pods (st_snap s)) + mcount (resvDomainAt n k) (st_resv s)"

lemma overlayLoop_counts:
  "overlayLoop es n k q (d, c) =
     (d + of_nat (mcount (resvDomainAt n k) es), c + of_nat (mcount (resvQuotaAt n q) es))"
  by (induction es arbitrary: d c) (auto simp: Let_def)

lemma snapshot_count_get2: "snapshot_count s n q k = (get2 (nodeQuota s) n q, get2 (nodeDomain s) n k)"
  by (simp add: snapshot_count_def get2_def rowOf_def mget0_def split: option.splits)

lemma effCount_counts:
  assumes "state_ok s"
  shows "effCount s n k q = (of_nat (domainCount s n k), of_nat (quotaCount s n q))"
  using assms
  by (simp add: effCount_def snapshot_count_get2 overlayLoop_counts state_ok_def snapshot_ok_def
      domainCount_def quotaCount_def)

lemma guard_EffCount_guardOf [simp]: "guard_EffCount (guardOf s) = effCount s"
  by (simp add: fun_eq_iff guard_EffCount_def effCount_def guardOf_def)

lemma counts_small:
  assumes "state_small s"
  shows "quotaCount s n q < 2 ^ 31 - 1" and "domainCount s n k < 2 ^ 31 - 1"
  using assms mcount_le_length [of "quotaAt n q" "snap_pods (st_snap s)"] mcount_le_length [of "resvQuotaAt n q" "st_resv s"]
    mcount_le_length [of "domainAt n k" "snap_pods (st_snap s)"] mcount_le_length [of "resvDomainAt n k" "st_resv s"]
  by (simp_all add: state_small_def quotaCount_def domainCount_def)

lemma sint_effCount:
  assumes "state_ok s" and "state_small s"
  shows "sint (fst (effCount s n k q)) = int (domainCount s n k)"
    and "sint (snd (effCount s n k q)) = int (quotaCount s n q)"
proof -
  have "domainCount s n k < 2 ^ 31" "quotaCount s n q < 2 ^ 31"
    using counts_small(2) [OF assms(2), of n k] counts_small(1) [OF assms(2), of n q] by linarith+
  then show "sint (fst (effCount s n k q)) = int (domainCount s n k)"
    and "sint (snd (effCount s n k q)) = int (quotaCount s n q)"
    by (simp_all add: effCount_counts [OF assms(1)] sint32_of_nat)
qed

subsection \<open>What each method does to the state\<close>

lemma snap_sel [simp]:
  "st_snap (Unreserve u s) = st_snap s" "st_snap (MarkBound u s) = st_snap s"
  "st_snap (releaseIfObserved u s) = st_snap s"
  "st_resv (upsertCount u ref s) = st_resv s" "st_resv (removeCount u s) = st_resv s"
  "st_resv (rebuild pods s) = st_resv s"
  by (simp_all add: Unreserve_def MarkBound_def releaseIfObserved_def upsertCount_def removeCount_def
      rebuild_def split: option.splits)

lemma pods_upsert:
  "state_ok s \<Longrightarrow> mget (snap_pods (st_snap (upsertCount u ref s))) = (mget (snap_pods (st_snap s)))(u \<mapsto> ref)"
  by (simp add: fun_eq_iff upsertCount_def state_ok_def snapshot_clone_id pods_apply_get)

lemma pods_remove:
  "state_ok s \<Longrightarrow> mget (snap_pods (st_snap (removeCount u s))) = (mget (snap_pods (st_snap s)))(u := None)"
  by (simp add: fun_eq_iff removeCount_def state_ok_def snapshot_clone_id pods_unapply)

lemma pods_rebuild:
  "wf_gomap pods \<Longrightarrow> mget (snap_pods (st_snap (rebuild pods s))) = mget pods"
  by (simp add: rebuild_def rebuildSnapshot_pods)

lemma resv_Unreserve:
  "mget (st_resv (Unreserve u s)) v =
     (case mget (st_resv s) v of Some r \<Rightarrow> if v = u \<and> rsv_Phase r = resvReserved then None else Some r | None \<Rightarrow> None)"
  by (auto simp: Unreserve_def split: option.splits)

lemma resv_MarkBound:
  "mget (st_resv (MarkBound u s)) v =
     map_option (\<lambda>r. if v = u then r\<lparr>rsv_Phase := resvBoundObs\<rparr> else r) (mget (st_resv s) v)"
proof (cases "mget (st_resv s) u")
  case None
  then show ?thesis by (cases "mget (st_resv s) v") (auto simp: MarkBound_def)
next
  case (Some r)
  have "r\<lparr>rsv_Phase := resvBoundObs\<rparr> = r" if "rsv_Phase r \<noteq> resvReserved"
    using that by (cases r; cases "rsv_Phase r") auto
  with Some show ?thesis by (cases "mget (st_resv s) v") (auto simp: MarkBound_def)
qed

lemma resv_release:
  "mget (st_resv (releaseIfObserved u s)) v =
     (case mget (st_resv s) v of None \<Rightarrow> None
      | Some r \<Rightarrow> if v = u \<and> (\<exists>ref. mget (snap_pods (st_snap s)) u = Some ref \<and> NodeNameOf ref = rsv_NodeName r)
                  then None else Some r)"
  by (auto simp: releaseIfObserved_def split: option.splits)

lemma wf_resv_methods:
  assumes "wf_gomap (st_resv s)"
  shows "wf_gomap (st_resv (Unreserve u s))" "wf_gomap (st_resv (MarkBound u s))"
    "wf_gomap (st_resv (releaseIfObserved u s))"
  using assms by (auto simp: Unreserve_def MarkBound_def releaseIfObserved_def split: option.splits)

definition newReservation :: "uid \<Rightarrow> podRef \<Rightarrow> int \<Rightarrow> reservation" where
  "newReservation u ref now = \<lparr>rsv_UID = u, rsv_QuotaKey = QuotaKeyOf ref, rsv_SchedKey = SchedKeyOf ref,
     rsv_NodeName = NodeNameOf ref, rsv_Phase = resvReserved, rsv_Since = now\<rparr>"

lemma TryReserveChecked_True:
  "TryReserveChecked u ref admit now s = Ret (True, s') \<longleftrightarrow>
     mget (st_resv s) u = None \<and> admit (guardOf s) = Ret True \<and>
     s' = s\<lparr>st_resv := mput (st_resv s) u (newReservation u ref now)\<rparr>"
  by (cases "admit (guardOf s)") (auto simp: TryReserveChecked_def newReservation_def)

lemma TryReserveChecked_False:
  "TryReserveChecked u ref admit now s = Ret (False, s') \<longleftrightarrow>
     s' = s \<and> (mget (st_resv s) u \<noteq> None \<or> admit (guardOf s) = Ret False)"
  by (cases "admit (guardOf s)") (auto simp: TryReserveChecked_def)

lemma state_ok_methods:
  assumes "state_ok s" and "state_small s"
  shows "state_ok (upsertCount u ref s)" "state_ok (removeCount u s)"
    "length pods < 2 ^ 31 \<Longrightarrow> state_ok (rebuild pods s)"
    "state_ok (Unreserve u s)" "state_ok (MarkBound u s)" "state_ok (releaseIfObserved u s)"
    "TryReserveChecked u ref admit now s = Ret (b, s') \<Longrightarrow> state_ok s'"
proof -
  have small: "length (snap_pods (st_snap s)) < 2 ^ 31 - 1" using assms(2) by (simp add: state_small_def)
  have ok: "snapshot_ok (st_snap s)" and wf: "wf_gomap (st_resv s)" using assms(1) by (simp_all add: state_ok_def)
  show "state_ok (upsertCount u ref s)"
    using wf snapshot_ok_apply [OF ok small] by (simp add: state_ok_def upsertCount_def snapshot_clone_id [OF ok])
  show "state_ok (removeCount u s)"
    using wf snapshot_ok_unapply [OF ok] small by (simp add: state_ok_def removeCount_def snapshot_clone_id [OF ok])
  show "length pods < 2 ^ 31 \<Longrightarrow> state_ok (rebuild pods s)"
    using wf by (simp add: state_ok_def rebuild_def rebuildSnapshot_ok)
  show "state_ok (Unreserve u s)" "state_ok (MarkBound u s)" "state_ok (releaseIfObserved u s)"
    using ok wf_resv_methods [OF wf] by (simp_all add: state_ok_def)
  show "TryReserveChecked u ref admit now s = Ret (b, s') \<Longrightarrow> state_ok s'"
    using ok wf by (cases b) (auto simp: TryReserveChecked_True TryReserveChecked_False state_ok_def)
qed

text \<open>C6: The per-node counts always agree with the pods. From a well-formed state in which no counter can
  overflow, inserting, moving or removing a pod and rebuilding from a listing leave a snapshot
  whose two nested count maps hold, for every node and key, exactly the number of pods with that
  node and key, without empty rows or zero entries; the pod map is updated as asked, and the
  reservations are not touched.\<close>

theorem snapshot_maintenance:
  assumes "state_ok s" and "state_small s" and "wf_gomap pods" and "length pods < 2 ^ 31"
  shows "state_ok (upsertCount u ref s) \<and>
           mget (snap_pods (st_snap (upsertCount u ref s))) = (mget (snap_pods (st_snap s)))(u \<mapsto> ref) \<and>
           st_resv (upsertCount u ref s) = st_resv s \<and>
         state_ok (removeCount u s) \<and>
           mget (snap_pods (st_snap (removeCount u s))) = (mget (snap_pods (st_snap s)))(u := None) \<and>
           st_resv (removeCount u s) = st_resv s \<and>
         state_ok (rebuild pods s) \<and>
           mget (snap_pods (st_snap (rebuild pods s))) = mget pods \<and>
           st_resv (rebuild pods s) = st_resv s"
  by (simp only: state_ok_methods [OF assms(1,2)] assms(4) pods_upsert [OF assms(1)] pods_remove [OF assms(1)]
      pods_rebuild [OF assms(3)] snap_sel simp_thms)

definition exampleRef :: "string \<Rightarrow> podRef" where
  "exampleRef n = \<lparr>QuotaKeyOf = ''q'', SchedKeyOf = ''q/d'', NodeNameOf = n\<rparr>"

lemma new_state_ok: "state_ok newSpreadState" "state_small newSpreadState"
  by (simp add: state_ok_def newSpreadState_def snapshot_ok_empty)
    (simp add: state_small_def newSpreadState_def emptySnapshot_def)

theorem snapshot_maintenance_witness:
  "state_ok (upsertCount ''u1'' (exampleRef ''n1'') newSpreadState) \<and>
   mget (snap_pods (st_snap (rebuild [(''u2'', exampleRef ''n2'')] newSpreadState))) ''u2'' = Some (exampleRef ''n2'')"
proof -
  have "wf_gomap [(''u2'', exampleRef ''n2'')]" "length [(''u2'', exampleRef ''n2'')] < 2 ^ 31"
    by (simp_all add: wf_gomap_def)
  from snapshot_maintenance [OF new_state_ok this, of "''u1''" "exampleRef ''n1''"] show ?thesis
    by simp
qed

subsection \<open>Occupied seats\<close>

text \<open>The pods that hold a seat of a service on a node: counted there, or reserved there.\<close>

definition occupants :: "spreadState \<Rightarrow> string \<Rightarrow> string \<Rightarrow> uid set" where
  "occupants s n q =
     {u. \<exists>ref. mget (snap_pods (st_snap s)) u = Some ref \<and> quotaAt n q ref} \<union>
     {u. \<exists>r. mget (st_resv s) u = Some r \<and> resvQuotaAt n q r}"

lemma finite_matching: "finite {k. \<exists>v. mget m k = Some v \<and> P v}"
  by (rule finite_subset [of _ "dom (map_of m)"]) (auto simp: finite_dom_map_of)

lemma finite_occupants [simp]: "finite (occupants s n q)"
  by (simp add: occupants_def finite_matching)

lemma quotaCount_card:
  assumes "state_ok s"
  shows "quotaCount s n q = card {u. \<exists>ref. mget (snap_pods (st_snap s)) u = Some ref \<and> quotaAt n q ref} +
     card {u. \<exists>r. mget (st_resv s) u = Some r \<and> resvQuotaAt n q r}"
  using assms by (simp add: quotaCount_def state_ok_def snapshot_ok_def mcount_card)

lemma card_occupants_le: "state_ok s \<Longrightarrow> card (occupants s n q) \<le> quotaCount s n q"
  by (simp add: quotaCount_card occupants_def card_Un_le)



lemma quotaCount_reserve:
  assumes "mget (st_resv s) u = None"
  shows "quotaCount (s\<lparr>st_resv := mput (st_resv s) u (newReservation u ref now)\<rparr>) n q =
     quotaCount s n q + (if quotaAt n q ref then 1 else 0)"
  using assms by (simp add: quotaCount_def mcount_mput_absent newReservation_def)

lemma domainCount_reserve:
  assumes "mget (st_resv s) u = None"
  shows "domainCount (s\<lparr>st_resv := mput (st_resv s) u (newReservation u ref now)\<rparr>) n k =
     domainCount s n k + (if domainAt n k ref then 1 else 0)"
  using assms by (simp add: domainCount_def mcount_mput_absent newReservation_def)

text \<open>Requests for a seat on one node, granted while the quota count is below a limit, in the order in
  which they get the mutex; the number of granted ones.\<close>

fun raceReserve :: "uid list \<Rightarrow> podRef \<Rightarrow> int32 \<Rightarrow> int \<Rightarrow> spreadState \<Rightarrow> nat \<times> spreadState" where
  "raceReserve [] ref lim now s = (0, s)"
| "raceReserve (u # us) ref lim now s =
     (case TryReserve u ref (\<lambda>domainN quotaN. sint quotaN < sint lim) now s of
        Panic m \<Rightarrow> (0, s)
      | Ret (ok, s') \<Rightarrow> (let (n, s'') = raceReserve us ref lim now s' in (if ok then Suc n else n, s'')))"

lemma TryReserve_step:
  assumes "state_ok s" and "state_small s" and "mget (st_resv s) u = None"
  shows "TryReserve u ref (\<lambda>domainN quotaN. sint quotaN < sint lim) now s =
    (if int (quotaCount s (NodeNameOf ref) (QuotaKeyOf ref)) < sint lim
     then Ret (True, s\<lparr>st_resv := mput (st_resv s) u (newReservation u ref now)\<rparr>) else Ret (False, s))"
proof -
  have "sint (snd (effCount s (NodeNameOf ref) (SchedKeyOf ref) (QuotaKeyOf ref))) =
      int (quotaCount s (NodeNameOf ref) (QuotaKeyOf ref))"
    by (rule sint_effCount [OF assms(1,2)])
  then show ?thesis
    using assms(3) by (simp add: TryReserve_def TryReserveChecked_def newReservation_def case_prod_unfold)
qed

lemma raceReserve_counts:
  assumes "state_ok s" and "length (snap_pods (st_snap s)) + length (st_resv s) + length us < 2 ^ 31 - 1"
    and "distinct us" and "\<forall>u \<in> set us. mget (st_resv s) u = None"
  shows "fst (raceReserve us ref lim now s) =
     min (length us) (nat (sint lim) - quotaCount s (NodeNameOf ref) (QuotaKeyOf ref))"
  using assms
proof (induction us arbitrary: s)
  case (Cons u us)
  let ?c = "quotaCount s (NodeNameOf ref) (QuotaKeyOf ref)"
  let ?s' = "s\<lparr>st_resv := mput (st_resv s) u (newReservation u ref now)\<rparr>"
  have small: "state_small s" using Cons.prems(2) by (simp add: state_small_def)
  have fresh: "mget (st_resv s) u = None" using Cons.prems(4) by simp
  show ?case
  proof (cases "int ?c < sint lim")
    case True
    have len: "length (st_resv ?s') = Suc (length (st_resv s))" using fresh by (simp add: mput_absent)
    have "fst (raceReserve us ref lim now ?s') =
        min (length us) (nat (sint lim) - quotaCount ?s' (NodeNameOf ref) (QuotaKeyOf ref))"
      using Cons.prems len by (intro Cons.IH) (auto simp: state_ok_def)
    moreover have "quotaCount ?s' (NodeNameOf ref) (QuotaKeyOf ref) = Suc ?c"
      using quotaCount_reserve [OF fresh] by simp
    ultimately show ?thesis
      using True TryReserve_step [OF Cons.prems(1) small fresh, of ref lim now]
      by (simp add: case_prod_unfold)
  next
    case False
    have "fst (raceReserve us ref lim now s) = min (length us) (nat (sint lim) - ?c)"
      using Cons.prems by (intro Cons.IH) auto
    with False show ?thesis
      using TryReserve_step [OF Cons.prems(1) small fresh, of ref lim now]
      by (simp add: case_prod_unfold)
  qed
qed simp

text \<open>C9: The last seats are granted exactly once each. However many pods race for seats of one service on
  one node, in whatever order they enter the critical section, the number of reservations granted
  is the number of free seats (the limit minus the effective count at the start), or the number of
  requests where that is smaller.\<close>

theorem race_for_the_last_seats:
  assumes "state_ok s" and "length (snap_pods (st_snap s)) + length (st_resv s) + length us < 2 ^ 31 - 1"
    and "distinct us" and "\<forall>u \<in> set us. mget (st_resv s) u = None"
  shows "fst (raceReserve us ref lim now s) =
     min (length us) (nat (sint lim) - quotaCount s (NodeNameOf ref) (QuotaKeyOf ref))"
  using assms by (rule raceReserve_counts)

theorem race_for_the_last_seats_witness:
  "fst (raceReserve [''u1'', ''u2'', ''u3''] (exampleRef ''n1'') 1 0 newSpreadState) = 1"
proof -
  have "quotaCount newSpreadState ''n1'' ''q'' = 0"
    by (simp add: quotaCount_def newSpreadState_def emptySnapshot_def)
  then show ?thesis
    using race_for_the_last_seats [OF new_state_ok(1), of "[''u1'', ''u2'', ''u3'']" "exampleRef ''n1''" 1 0]
    by (simp add: newSpreadState_def emptySnapshot_def exampleRef_def)
qed



subsection \<open>The window in effCount\<close>

text \<open>\<open>effCount\<close> loads the snapshot before it takes the mutex for the overlay, so an informer event can come
  between the two reads: \<open>s0\<close> is the state at the load, \<open>s1\<close> the state when the mutex is taken.\<close>

definition effCountInterleaved ::
    "spreadState \<Rightarrow> spreadState \<Rightarrow> string \<Rightarrow> string \<Rightarrow> string \<Rightarrow> int32 \<times> int32" where
  "effCountInterleaved s0 s1 node schedKey quotaKey =
     (let (quotaN, domainN) = snapshot_count (st_snap s0) node quotaKey schedKey
      in overlayLoop (st_resv s1) node schedKey quotaKey (domainN, quotaN))"

lemma effCountInterleaved_same: "effCountInterleaved s s = effCount s"
  by (simp add: fun_eq_iff effCountInterleaved_def effCount_def)

definition reservedState :: spreadState where
  "reservedState = newSpreadState\<lparr>st_resv := [(''u1'', newReservation ''u1'' (exampleRef ''n1'') 0)]\<rparr>"

definition observedState :: spreadState where
  "observedState = releaseIfObserved ''u1'' (upsertCount ''u1'' (exampleRef ''n1'') reservedState)"

lemma reserved_state_ok: "state_ok reservedState"
  by (simp add: state_ok_def reservedState_def newSpreadState_def snapshot_ok_empty wf_gomap_def)

lemma observed_state:
  "mget (snap_pods (st_snap observedState)) ''u1'' = Some (exampleRef ''n1'')" "st_resv observedState = []"
proof -
  have r: "st_resv reservedState = [(''u1'', newReservation ''u1'' (exampleRef ''n1'') 0)]"
    by (simp add: reservedState_def)
  show "mget (snap_pods (st_snap observedState)) ''u1'' = Some (exampleRef ''n1'')"
    by (simp add: observedState_def pods_upsert [OF reserved_state_ok])
  show "st_resv observedState = []"
    by (simp add: observedState_def releaseIfObserved_def pods_upsert [OF reserved_state_ok] r newReservation_def)
qed

text \<open>The read path can underestimate. When the binding of a reserved pod is observed between the two
  reads of \<open>effCount\<close>, the count misses the pod although it holds a seat before and after, against the
  documented direction of the error; the critical section of \<open>TryReserveChecked\<close>, which reads both under
  the mutex, is not affected.\<close>

theorem effCount_window_underestimates:
  "''u1'' \<in> occupants reservedState ''n1'' ''q'' \<and> ''u1'' \<in> occupants observedState ''n1'' ''q'' \<and>
   effCountInterleaved reservedState observedState ''n1'' ''q/d'' ''q'' = (0, 0) \<and>
   effCountInterleaved reservedState reservedState ''n1'' ''q/d'' ''q'' = (1, 1)"
  using observed_state(1) by (simp add: occupants_def effCountInterleaved_def observed_state(2))
    (simp add: reservedState_def newSpreadState_def emptySnapshot_def snapshot_count_def newReservation_def exampleRef_def)

end
