(* ===== verification/Lifecycle.thy ===== *)
theory Lifecycle
  imports State Config_Args
begin

section \<open>Pod events, the reservation janitor and the reconciler\<close>

text \<open>
  \<open>internal/spread/lifecycle.go\<close>: which pods count, the informer callbacks, one pass of the TTL janitor,
  the two background loops over a sequence of ticker events, and the production source of countable
  pods. Listings and clock readings are arguments; alerts are returned in the order in which they
  are raised. A verification source is an interface; its contract is the locale \<open>pod_source\<close>.
\<close>

definition countablePod :: "pod \<Rightarrow> bool" where
  "countablePod p \<longleftrightarrow> ps_NodeName (pod_Spec p) \<noteq> '''' \<and> (pod_Phase p = ''Pending'' \<or> pod_Phase p = ''Running'')"

text \<open>The result of \<open>PodSource.ListCountable\<close>: an error or a map of references.\<close>

type_synonym countListing = "string + (uid, podRef) gomap"

subsection \<open>Informer callbacks\<close>

definition OnPodAddOrUpdate :: "pod \<Rightarrow> podRef \<Rightarrow> spreadState \<Rightarrow> spreadState" where
  "OnPodAddOrUpdate p ref s =
     (let s1 = (if countablePod p then upsertCount (pod_UID p) ref s else removeCount (pod_UID p) s)
      in releaseIfObserved (pod_UID p) s1)"

definition OnPodDelete :: "uid \<Rightarrow> spreadState \<Rightarrow> spreadState" where
  "OnPodDelete u s =
     (let s1 = removeCount u s in s1\<lparr>st_resv := mdel (st_resv s1) u\<rparr>)"

subsection \<open>The janitor\<close>

definition janitorTick :: "duration \<Rightarrow> duration" where
  "janitorTick ttl =
     (if ttl < 5 * Second then ttl
      else if go_div ttl 4 < 5 * Second then 5 * Second
      else go_div ttl 4)"

text \<open>\<open>time.Time.Sub\<close> saturates at the limits of a 64-bit duration.\<close>

definition timeSub :: "int \<Rightarrow> int \<Rightarrow> duration" where
  "timeSub a b = max (- (2 ^ 63)) (min (2 ^ 63 - 1) (a - b))"

definition releaseUnverified :: "uid \<Rightarrow> string \<Rightarrow> spreadState \<Rightarrow> spreadState" where
  "releaseUnverified u node s =
     (case mget (st_resv s) u of
        Some r \<Rightarrow> s\<lparr>st_resv := mdel (st_resv s) u\<rparr>
      | None \<Rightarrow> s)"

definition expiredReservations :: "duration \<Rightarrow> int \<Rightarrow> spreadState \<Rightarrow> uid list" where
  "expiredReservations ttl now s = map fst (filter (\<lambda>e. timeSub now (rsv_Since (snd e)) \<ge> ttl) (st_resv s))"

definition janitorStep :: "(uid, podRef) gomap \<Rightarrow> uid \<Rightarrow> uid list \<times> spreadState \<Rightarrow> uid list \<times> spreadState" where
  "janitorStep counts u acc =
     (let alerts = fst acc; s = snd acc
      in case mget (st_resv s) u of
           None \<Rightarrow> (alerts, s)
         | Some r \<Rightarrow>
             (let expectedNode = rsv_NodeName r
              in case mget counts u of
                   None \<Rightarrow> (alerts, releaseUnverified u expectedNode s)
                 | Some ref \<Rightarrow>
                     if NodeNameOf ref \<noteq> expectedNode then (alerts, releaseUnverified u expectedNode s)
                     else (let s1 = rebuild counts s; s2 = releaseIfObserved u s1
                           in case reservationPhase u s2 of
                                Some ph \<Rightarrow> (alerts @ [u], s2)
                              | None \<Rightarrow> (alerts, s2))))"

definition janitorOnce :: "duration \<Rightarrow> countListing \<Rightarrow> int \<Rightarrow> spreadState \<Rightarrow> uid list \<times> spreadState" where
  "janitorOnce ttl src now s =
     (let expired = expiredReservations ttl now s
      in if length expired = 0 then ([], s)
         else case src of
                Inl err \<Rightarrow> (expired, s)
              | Inr counts \<Rightarrow> fold (janitorStep counts) expired ([], s))"

text \<open>What the \<open>select\<close> of a background loop receives: a tick, with the clock and the listing of that
  moment, or the end of the context.\<close>

datatype loopEvent = Tick int countListing | CtxDone

primrec RunJanitor :: "duration \<Rightarrow> loopEvent list \<Rightarrow> uid list \<times> spreadState \<Rightarrow> uid list \<times> spreadState" where
  "RunJanitor ttl [] acc = acc"
| "RunJanitor ttl (e # es) acc =
     (case e of
        CtxDone \<Rightarrow> acc
      | Tick now src \<Rightarrow>
          (let (alerts, s) = janitorOnce ttl src now (snd acc)
           in RunJanitor ttl es (fst acc @ alerts, s)))"

primrec RunReconciler :: "loopEvent list \<Rightarrow> spreadState \<Rightarrow> spreadState" where
  "RunReconciler [] s = s"
| "RunReconciler (e # es) s =
     (case e of
        CtxDone \<Rightarrow> s
      | Tick now src \<Rightarrow>
          RunReconciler es (case src of Inr counts \<Rightarrow> rebuild counts s | Inl err \<Rightarrow> s))"

subsection \<open>The production pod source and the start of the loops\<close>

primrec countableLoop :: "string \<Rightarrow> string \<Rightarrow> pod list \<Rightarrow> (uid, podRef) gomap \<Rightarrow> (uid, podRef) gomap" where
  "countableLoop managedSched serviceLabelKey [] out = out"
| "countableLoop managedSched serviceLabelKey (p # ps) out =
     countableLoop managedSched serviceLabelKey ps
       (if ps_SchedulerName (pod_Spec p) \<noteq> managedSched \<or> \<not> countablePod p then out
        else (case PodRefFor p managedSched serviceLabelKey of
                Inl err \<Rightarrow> out
              | Inr ref \<Rightarrow> mput out (pod_UID p) ref))"

definition ListCountable :: "string \<Rightarrow> string \<Rightarrow> string + pod list \<Rightarrow> countListing" where
  "ListCountable managedSched serviceLabelKey lister =
     (case lister of
        Inl err \<Rightarrow> Inl err
      | Inr all \<Rightarrow> Inr (countableLoop managedSched serviceLabelKey all []))"

text \<open>The periods with which the two loops are started.\<close>

definition StartLifecycleLoops :: "duration \<Rightarrow> duration \<Rightarrow> duration \<times> duration" where
  "StartLifecycleLoops ttl period =
     (if ttl \<le> 0 then DefaultReservationTTL else ttl,
      if period \<le> 0 then DefaultReconcilePeriod else period)"

subsection \<open>The contract of a verification source\<close>

text \<open>A listing has one reference per pod and only references with a node: what the janitor and the
  reconciler rely on.\<close>

locale pod_source =
  fixes listing :: "'p list \<Rightarrow> (uid, podRef) gomap"
    and covers :: "'p \<Rightarrow> podRef option"
    and uid_of :: "'p \<Rightarrow> uid"
  assumes wf_listing: "wf_gomap (listing ps)"
    and length_listing: "length (listing ps) \<le> length ps"
    and listing_covers: "distinct (map uid_of ps) \<Longrightarrow> p \<in> set ps \<Longrightarrow> mget (listing ps) (uid_of p) = covers p"
    and listing_sound: "mget (listing ps) u = Some ref \<Longrightarrow> \<exists>p \<in> set ps. uid_of p = u \<and> covers p = Some ref"
begin

lemma rebuild_covers:
  assumes "distinct (map uid_of ps)" and "p \<in> set ps"
  shows "mget (snap_pods (st_snap (rebuild (listing ps) s))) (uid_of p) = covers p"
  using listing_covers [OF assms] by (simp add: pods_rebuild [OF wf_listing])

lemma rebuild_sound:
  assumes "mget (snap_pods (st_snap (rebuild (listing ps) s))) u = Some ref"
  shows "\<exists>p \<in> set ps. uid_of p = u \<and> covers p = Some ref"
  using assms listing_sound by (simp add: pods_rebuild [OF wf_listing])

lemma rebuild_ok:
  assumes "state_ok s" and "length ps < 2 ^ 31"
  shows "state_ok (rebuild (listing ps) s)"
  using assms length_listing [of ps] by (simp add: state_ok_def rebuild_def rebuildSnapshot_ok)

end

text \<open>The reference under which a pod is counted by the lister source.\<close>

definition countedRef :: "string \<Rightarrow> string \<Rightarrow> pod \<Rightarrow> podRef option" where
  "countedRef managedSched serviceLabelKey p =
     (if ps_SchedulerName (pod_Spec p) \<noteq> managedSched \<or> \<not> countablePod p then None
      else (case PodRefFor p managedSched serviceLabelKey of Inl err \<Rightarrow> None | Inr ref \<Rightarrow> Some ref))"

lemma countableLoop_step:
  "countableLoop ms k (p # ps) out =
     countableLoop ms k ps (case countedRef ms k p of None \<Rightarrow> out | Some ref \<Rightarrow> mput out (pod_UID p) ref)"
  by (auto simp: countedRef_def split: sum.splits)

lemma countableLoop_wf: "wf_gomap out \<Longrightarrow> wf_gomap (countableLoop ms k ps out)"
  by (induction ps arbitrary: out) (auto simp: countableLoop_step split: option.splits simp del: countableLoop.simps(2))

lemma countableLoop_length: "length (countableLoop ms k ps out) \<le> length out + length ps"
proof (induction ps arbitrary: out)
  case (Cons p ps)
  show ?case
  proof (cases "countedRef ms k p")
    case None
    then show ?thesis using Cons [of out] by (simp add: countableLoop_step del: countableLoop.simps(2))
  next
    case (Some ref)
    then show ?thesis
      using Cons [of "mput out (pod_UID p) ref"] length_mput [of out "pod_UID p" ref]
      by (simp add: countableLoop_step del: countableLoop.simps(2))
  qed
qed simp

lemma countableLoop_sound:
  assumes "mget (countableLoop ms k ps out) u = Some ref"
  shows "mget out u = Some ref \<or> (\<exists>p \<in> set ps. pod_UID p = u \<and> countedRef ms k p = Some ref)"
  using assms
proof (induction ps arbitrary: out)
  case (Cons p ps)
  let ?out = "case countedRef ms k p of None \<Rightarrow> out | Some r \<Rightarrow> mput out (pod_UID p) r"
  have "mget ?out u = Some ref \<or> (\<exists>p \<in> set ps. pod_UID p = u \<and> countedRef ms k p = Some ref)"
    using Cons.prems by (intro Cons.IH) (simp only: countableLoop_step)
  then show ?case by (auto split: option.splits if_splits)
qed simp

lemma countableLoop_other: "u \<notin> pod_UID ` set ps \<Longrightarrow> mget (countableLoop ms k ps out) u = mget out u"
proof (induction ps arbitrary: out)
  case (Cons p ps)
  then show ?case
    by (cases "countedRef ms k p") (auto simp: countableLoop_step simp del: countableLoop.simps(2))
qed simp

lemma countableLoop_covers:
  assumes "distinct (map pod_UID ps)" and "p \<in> set ps" and "mget out (pod_UID p) = None"
  shows "mget (countableLoop ms k ps out) (pod_UID p) = countedRef ms k p"
  using assms
proof (induction ps arbitrary: out)
  case (Cons p' ps)
  let ?out = "case countedRef ms k p' of None \<Rightarrow> out | Some r \<Rightarrow> mput out (pod_UID p') r"
  show ?case
  proof (cases "p = p'")
    case True
    have "mget (countableLoop ms k (p' # ps) out) (pod_UID p) = mget ?out (pod_UID p)"
      using Cons.prems True by (simp only: countableLoop_step) (rule countableLoop_other, simp)
    then show ?thesis using True Cons.prems(3) by (simp split: option.splits)
  next
    case False
    with Cons.prems have "p \<in> set ps" by simp
    then have "pod_UID p \<in> pod_UID ` set ps" by (rule imageI)
    moreover have "pod_UID p' \<notin> pod_UID ` set ps" using Cons.prems(1) by simp
    ultimately have "pod_UID p \<noteq> pod_UID p'" by metis
    then have "mget ?out (pod_UID p) = None" using Cons.prems(3) by (simp split: option.splits)
    then show ?thesis
      using Cons.IH [of ?out] Cons.prems(1) \<open>p \<in> set ps\<close> by (simp add: countableLoop_step del: countableLoop.simps(2))
  qed
qed simp

interpretation lps: pod_source "\<lambda>ps. countableLoop managedSched serviceLabelKey ps []"
    "countedRef managedSched serviceLabelKey" pod_UID
  for managedSched serviceLabelKey
proof
  fix ps u ref p
  show "wf_gomap (countableLoop managedSched serviceLabelKey ps [])"
    by (rule countableLoop_wf) simp
  show "length (countableLoop managedSched serviceLabelKey ps []) \<le> length ps"
    using countableLoop_length [of managedSched serviceLabelKey ps "[]"] by simp
  show "distinct (map pod_UID ps) \<Longrightarrow> p \<in> set ps \<Longrightarrow>
      mget (countableLoop managedSched serviceLabelKey ps []) (pod_UID p) = countedRef managedSched serviceLabelKey p"
    by (rule countableLoop_covers) auto
  show "mget (countableLoop managedSched serviceLabelKey ps []) u = Some ref \<Longrightarrow>
      \<exists>p \<in> set ps. pod_UID p = u \<and> countedRef managedSched serviceLabelKey p = Some ref"
    using countableLoop_sound [of managedSched serviceLabelKey ps "[]" u ref] by simp
qed

subsection \<open>What the callbacks and the loops do\<close>

lemma state_ok_del_resv: "state_ok s \<Longrightarrow> state_ok (s\<lparr>st_resv := mdel (st_resv s) u\<rparr>)"
  by (simp add: state_ok_def)

lemma state_small_upsert:
  assumes "state_ok s" and "length (snap_pods (st_snap s)) + length (st_resv s) < 2 ^ 31 - 2"
  shows "state_small (upsertCount u ref s)"
  using assms length_pods_apply [of "st_snap s" u ref]
  by (simp add: state_small_def upsertCount_def state_ok_def snapshot_clone_id)

lemma state_small_remove: "state_ok s \<Longrightarrow> state_small s \<Longrightarrow> state_small (removeCount u s)"
  using length_mdel [of "snap_pods (st_snap s)" u]
  by (simp add: state_small_def removeCount_def state_ok_def snapshot_clone_id pods_unapply)

lemma pods_OnPodAddOrUpdate:
  "state_ok s \<Longrightarrow> mget (snap_pods (st_snap (OnPodAddOrUpdate p ref s))) =
     (mget (snap_pods (st_snap s)))(pod_UID p := if countablePod p then Some ref else None)"
  by (simp add: OnPodAddOrUpdate_def pods_upsert pods_remove fun_eq_iff)

lemma resv_OnPodAddOrUpdate:
  "state_ok s \<Longrightarrow> mget (st_resv (OnPodAddOrUpdate p ref s)) v =
     (case mget (st_resv s) v of None \<Rightarrow> None
      | Some r \<Rightarrow> if v = pod_UID p \<and> countablePod p \<and> NodeNameOf ref = rsv_NodeName r then None else Some r)"
  by (auto simp: OnPodAddOrUpdate_def resv_release pods_upsert pods_remove split: option.splits)

lemma pods_OnPodDelete:
  "state_ok s \<Longrightarrow> mget (snap_pods (st_snap (OnPodDelete u s))) = (mget (snap_pods (st_snap s)))(u := None)"
  by (simp add: OnPodDelete_def pods_remove fun_eq_iff)

lemma resv_OnPodDelete: "mget (st_resv (OnPodDelete u s)) = (mget (st_resv s))(u := None)"
  by (simp add: OnPodDelete_def fun_eq_iff)

lemma state_ok_events:
  assumes "state_ok s" and "state_small s"
  shows "state_ok (OnPodAddOrUpdate p ref s)" "state_ok (OnPodDelete u s)"
proof -
  have rel: "state_ok (releaseIfObserved v t)" if "state_ok t" for v t
    using that wf_resv_methods by (simp add: state_ok_def)
  show "state_ok (OnPodAddOrUpdate p ref s)"
    using state_ok_methods [OF assms] by (simp add: OnPodAddOrUpdate_def rel)
  show "state_ok (OnPodDelete u s)"
    using state_ok_methods(2) [OF assms] by (simp add: OnPodDelete_def state_ok_del_resv [of "removeCount u s", simplified])
qed

text \<open>C13: Pod events keep the counts exact and release a reservation only when its seat is counted. After an
  Add or Update the pod is counted under its reference exactly when it is countable; its reservation
  goes exactly when the pod is countable on the reserved node, and no other pod is affected. A
  Delete frees the pod's count and its reservation and nothing else. Both keep the state
  well-formed.\<close>

theorem pod_events_spec:
  assumes "state_ok s" and "state_small s"
  shows "state_ok (OnPodAddOrUpdate p ref s) \<and> state_ok (OnPodDelete u s) \<and>
    mget (snap_pods (st_snap (OnPodAddOrUpdate p ref s))) =
      (mget (snap_pods (st_snap s)))(pod_UID p := if countablePod p then Some ref else None) \<and>
    (\<forall>v. mget (st_resv (OnPodAddOrUpdate p ref s)) v =
      (case mget (st_resv s) v of None \<Rightarrow> None
       | Some r \<Rightarrow> if v = pod_UID p \<and> countablePod p \<and> NodeNameOf ref = rsv_NodeName r then None else Some r)) \<and>
    mget (snap_pods (st_snap (OnPodDelete u s))) = (mget (snap_pods (st_snap s)))(u := None) \<and>
    mget (st_resv (OnPodDelete u s)) = (mget (st_resv s))(u := None)"
  by (intro conjI allI state_ok_events [OF assms] pods_OnPodAddOrUpdate [OF assms(1)] resv_OnPodAddOrUpdate [OF assms(1)]
      pods_OnPodDelete [OF assms(1)] resv_OnPodDelete)

theorem pod_events_spec_witness:
  "state_ok (OnPodAddOrUpdate (example_pod\<lparr>pod_Phase := ''Running''\<rparr>) (exampleRef ''n1'') newSpreadState) \<and>
   mget (st_resv (OnPodDelete ''u1'' (newSpreadState))) ''u1'' = None"
  using pod_events_spec [OF new_state_ok, of "example_pod\<lparr>pod_Phase := ''Running''\<rparr>" "exampleRef ''n1''" "''u1''"]
  by simp

lemma expired_iff:
  assumes "wf_gomap (st_resv s)"
  shows "u \<in> set (expiredReservations ttl now s) \<longleftrightarrow>
     (\<exists>r. mget (st_resv s) u = Some r \<and> timeSub now (rsv_Since r) \<ge> ttl)"
  using assms by (force simp: expiredReservations_def wf_gomap_def)

lemma expired_distinct: "wf_gomap (st_resv s) \<Longrightarrow> distinct (expiredReservations ttl now s)"
  by (simp add: expiredReservations_def wf_gomap_def distinct_map_filter)

text \<open>A reservation that the listing confirms: the pod is bound to the reserved node.\<close>

definition confirmed :: "(uid, podRef) gomap \<Rightarrow> spreadState \<Rightarrow> uid \<Rightarrow> bool" where
  "confirmed counts s u =
     (case (mget (st_resv s) u, mget counts u) of
        (Some r, Some ref) \<Rightarrow> NodeNameOf ref = rsv_NodeName r
      | _ \<Rightarrow> False)"

lemma janitorStep_spec:
  assumes "wf_gomap counts"
  shows "janitorStep counts u (al, s) =
    (al, \<lparr>st_snap = (if confirmed counts s u then rebuildSnapshot counts else st_snap s),
          st_resv = (if mget (st_resv s) u = None then st_resv s else mdel (st_resv s) u)\<rparr>)"
  using assms
  by (cases s) (auto simp: janitorStep_def confirmed_def releaseUnverified_def releaseIfObserved_def rebuild_def
      rebuildSnapshot_pods reservationPhase_def Let_def split: option.splits)

lemma janitor_fold:
  assumes "wf_gomap counts" and "distinct us"
  shows "\<exists>s'. fold (janitorStep counts) us (al, s) = (al, s') \<and>
    (\<forall>v. mget (st_resv s') v = (if v \<in> set us then None else mget (st_resv s) v)) \<and>
    st_snap s' = (if \<exists>u \<in> set us. confirmed counts s u then rebuildSnapshot counts else st_snap s)"
  using assms(2)
proof (induction us arbitrary: s)
  case (Cons u us)
  let ?s = "snd (janitorStep counts u (al, s))"
  have "confirmed counts ?s v = confirmed counts s v" if "v \<in> set us" for v
    using that Cons.prems by (auto simp: janitorStep_spec [OF assms(1)] confirmed_def split: option.splits)
  then show ?case
    using Cons.IH [of ?s] Cons.prems by (auto simp: janitorStep_spec [OF assms(1)])
qed simp

text \<open>C11: One pass of the janitor. When the verification source fails, the state is left alone and every
  expired reservation is alerted, once. Otherwise no alert is raised, exactly the expired
  reservations are released, and the snapshot is rebuilt from the listing exactly when some expired
  reservation's pod is bound to its reserved node; such a pod is counted there
  before its reservation goes, so its seat is never lost.\<close>

theorem janitor_pass:
  assumes "wf_gomap (st_resv s)" and "wf_gomap counts"
  shows "\<exists>s'. janitorOnce ttl (Inr counts) now s = ([], s') \<and>
      (\<forall>v. mget (st_resv s') v =
         (case mget (st_resv s) v of None \<Rightarrow> None
          | Some r \<Rightarrow> if timeSub now (rsv_Since r) \<ge> ttl then None else Some r)) \<and>
      (\<forall>u r ref. mget (st_resv s) u = Some r \<and> timeSub now (rsv_Since r) \<ge> ttl \<and>
         mget counts u = Some ref \<and> NodeNameOf ref = rsv_NodeName r \<longrightarrow>
           mget (snap_pods (st_snap s')) u = Some ref) \<and>
      (st_snap s' = st_snap s \<or> st_snap s' = rebuildSnapshot counts) \<and>
      snd (janitorOnce ttl (Inl err) now s) = s \<and>
      set (fst (janitorOnce ttl (Inl err) now s)) =
        {u. \<exists>r. mget (st_resv s) u = Some r \<and> timeSub now (rsv_Since r) \<ge> ttl} \<and>
      distinct (fst (janitorOnce ttl (Inl err) now s))"
proof -
  let ?E = "expiredReservations ttl now s"
  obtain s' where s': "fold (janitorStep counts) ?E ([], s) = ([], s')"
    "\<forall>v. mget (st_resv s') v = (if v \<in> set ?E then None else mget (st_resv s) v)"
    "st_snap s' = (if \<exists>u \<in> set ?E. confirmed counts s u then rebuildSnapshot counts else st_snap s)"
    using janitor_fold [where al = "[]" and s = s, OF assms(2) expired_distinct [OF assms(1)]] by blast
  have run: "janitorOnce ttl (Inr counts) now s = ([], s')"
    using s'(1) by (auto simp: janitorOnce_def Let_def)
  have resv: "mget (st_resv s') v = (case mget (st_resv s) v of None \<Rightarrow> None
          | Some r \<Rightarrow> if timeSub now (rsv_Since r) \<ge> ttl then None else Some r)" for v
    using s'(2) by (auto simp: expired_iff [OF assms(1)] split: option.splits)
  have keep: "mget (snap_pods (st_snap s')) u = Some ref"
    if "mget (st_resv s) u = Some r \<and> timeSub now (rsv_Since r) \<ge> ttl \<and>
      mget counts u = Some ref \<and> NodeNameOf ref = rsv_NodeName r" for u r ref
  proof -
    have "u \<in> set ?E" "confirmed counts s u" using that by (auto simp: expired_iff [OF assms(1)] confirmed_def)
    then show ?thesis using s'(3) that by (auto simp: rebuildSnapshot_pods [OF assms(2)])
  qed
  have snap: "st_snap s' = st_snap s \<or> st_snap s' = rebuildSnapshot counts" using s'(3) by simp
  have fail: "janitorOnce ttl (Inl err) now s = (?E, s)" by (simp add: janitorOnce_def Let_def)
  have E: "set ?E = {u. \<exists>r. mget (st_resv s) u = Some r \<and> timeSub now (rsv_Since r) \<ge> ttl}"
    by (rule set_eqI) (simp add: expired_iff [OF assms(1)])
  show ?thesis
    by (rule exI [of _ s'], intro conjI allI impI run resv keep snap)
      (simp_all only: fail fst_conv snd_conv E expired_distinct [OF assms(1)])
qed

theorem janitor_pass_witness:
  "mget (snap_pods (st_snap (snd (janitorOnce 30 (Inr [(''u1'', exampleRef ''n1'')]) 100
     (newSpreadState\<lparr>st_resv := [(''u1'', newReservation ''u1'' (exampleRef ''n1'') 0)]\<rparr>))))) ''u1'' =
   Some (exampleRef ''n1'')"
proof -
  let ?s = "newSpreadState\<lparr>st_resv := [(''u1'', newReservation ''u1'' (exampleRef ''n1'') 0)]\<rparr>"
  have wf: "wf_gomap (st_resv ?s)" "wf_gomap [(''u1'', exampleRef ''n1'')]" by (simp_all add: wf_gomap_def)
  obtain s' where run: "janitorOnce 30 (Inr [(''u1'', exampleRef ''n1'')]) 100 ?s = ([], s')"
    and keep: "\<forall>u r ref. mget (st_resv ?s) u = Some r \<and> timeSub 100 (rsv_Since r) \<ge> 30 \<and>
         mget [(''u1'', exampleRef ''n1'')] u = Some ref \<and> NodeNameOf ref = rsv_NodeName r \<longrightarrow>
           mget (snap_pods (st_snap s')) u = Some ref"
    using janitor_pass [OF wf, of 30 100 "''timeout''"] by blast
  have "mget (snap_pods (st_snap s')) ''u1'' = Some (exampleRef ''n1'')"
    by (rule keep [rule_format, of _ "newReservation ''u1'' (exampleRef ''n1'') 0"])
      (simp add: newReservation_def timeSub_def)
  then show ?thesis using run by simp
qed

text \<open>The ticker periods of the two loops are positive whatever durations they are started with, so
  \<open>time.NewTicker\<close> cannot panic; the janitor wakes up at least once per TTL.\<close>

theorem loop_periods_positive:
  "0 < janitorTick (fst (StartLifecycleLoops ttl period)) \<and>
   janitorTick (fst (StartLifecycleLoops ttl period)) \<le> fst (StartLifecycleLoops ttl period) \<and>
   0 < snd (StartLifecycleLoops ttl period)"
  by (auto simp: StartLifecycleLoops_def janitorTick_def go_div_nonneg duration_defs)

lemma RunReconciler_resv: "st_resv (RunReconciler es s) = st_resv s"
  by (induction es arbitrary: s) (auto split: loopEvent.splits sum.splits)

lemma RunReconciler_append:
  "CtxDone \<notin> set es \<Longrightarrow> RunReconciler (es @ fs) s = RunReconciler fs (RunReconciler es s)"
  by (induction es arbitrary: s) (auto split: loopEvent.splits)

lemma RunReconciler_failing: "\<forall>e \<in> set es. \<exists>now err. e = Tick now (Inl err) \<Longrightarrow> RunReconciler es s = s"
  by (induction es) auto

text \<open>The reconciler repairs drift and nothing else. However many ticks it gets, and whatever the
  source answers, no reservation is touched; after a tick with a successful listing, and any number
  of failing ones, the snapshot is exactly the one built from that listing.\<close>

theorem reconciler_repairs_drift:
  "st_resv (RunReconciler es s) = st_resv s \<and>
   (CtxDone \<notin> set es \<and> (\<forall>e \<in> set fs. \<exists>t err. e = Tick t (Inl err)) \<longrightarrow>
      st_snap (RunReconciler (es @ Tick now (Inr counts) # fs) s) = rebuildSnapshot counts)"
  by (simp add: RunReconciler_resv RunReconciler_append RunReconciler_failing rebuild_def)

theorem reconciler_repairs_drift_witness:
  "st_snap (RunReconciler ([Tick 0 (Inl ''timeout'')] @ Tick 1 (Inr [(''u1'', exampleRef ''n1'')]) # [Tick 2 (Inl ''timeout'')])
     newSpreadState) = rebuildSnapshot [(''u1'', exampleRef ''n1'')]"
  using reconciler_repairs_drift [of "[Tick 0 (Inl ''timeout'')]" newSpreadState "[Tick 2 (Inl ''timeout'')]" 1]
  by simp

end
