(* ===== verification/Plugins_Api.thy ===== *)
theory Plugins_Api
  imports Lifecycle
begin

section \<open>Wiring: informer handlers, the policy informer and the owner chain\<close>

text \<open>
  \<open>internal/spread/plugins_api.go\<close>: the handlers that \<open>depsFromHandle\<close> registers on the pod informer,
  \<open>onPodEvent\<close>, the conversion of policies read from the dynamic informer, and the resolution of
  Pod to ReplicaSet to Deployment. Informer caches and the unstructured converter belong to client-go:
  what they answer is an argument.
\<close>

subsection \<open>Pod events\<close>

definition onPodEvent :: "ServiceSpreadArgs \<Rightarrow> pod \<Rightarrow> spreadState \<Rightarrow> spreadState" where
  "onPodEvent args p s =
     (if ps_SchedulerName (pod_Spec p) = ManagedSchedulerName args then
        (case PodRefFor p (ManagedSchedulerName args) (ServiceLabelKey args) of
           Inr ref \<Rightarrow> OnPodAddOrUpdate p ref s
         | Inl err \<Rightarrow> OnPodAddOrUpdate p emptyRef s)
      else OnPodAddOrUpdate p emptyRef s)"

text \<open>The dynamic types of what an informer delivers; \<open>DeletedFinalStateUnknown\<close> wraps the last known
  object of a missed deletion.\<close>

datatype informerObj = PodObj pod | DeletedFinalStateUnknown informerObj | OtherObj

datatype podInformerEvent = AddFunc informerObj | UpdateFunc informerObj informerObj | DeleteFunc informerObj

definition podHandler :: "ServiceSpreadArgs \<Rightarrow> podInformerEvent \<Rightarrow> spreadState \<Rightarrow> spreadState" where
  "podHandler args ev s =
     (case ev of
        AddFunc obj \<Rightarrow> (case obj of PodObj p \<Rightarrow> onPodEvent args p s | _ \<Rightarrow> s)
      | UpdateFunc oldObj newObj \<Rightarrow> (case newObj of PodObj p \<Rightarrow> onPodEvent args p s | _ \<Rightarrow> s)
      | DeleteFunc obj \<Rightarrow>
          (case obj of
             PodObj p \<Rightarrow> OnPodDelete (pod_UID p) s
           | DeletedFinalStateUnknown inner \<Rightarrow>
               (case inner of PodObj p \<Rightarrow> OnPodDelete (pod_UID p) s | _ \<Rightarrow> s)
           | OtherObj \<Rightarrow> s))"

subsection \<open>The policy informer\<close>

record groupVersionResource =
  gvr_Group :: string
  gvr_Version :: string
  gvr_Resource :: string

definition policyGVR :: groupVersionResource where
  "policyGVR = \<lparr>gvr_Group = fst GroupVersion, gvr_Version = snd GroupVersion, gvr_Resource = ''servicespreadpolicies''\<rparr>"

datatype 'u indexObj = Unstructured 'u | OtherIndexObj

text \<open>\<open>inf\<close> is nil when the client could not be built; its index answers with objects or an error.\<close>

record 'u policyInformer =
  pi_inf :: "(string \<Rightarrow> string + 'u indexObj list) option"
  pi_synced :: "bool option"

definition policyInformer_HasSynced :: "'u policyInformer \<Rightarrow> bool" where
  "policyInformer_HasSynced p = (case pi_synced p of None \<Rightarrow> False | Some b \<Rightarrow> b)"

primrec convertLoop ::
    "('u \<Rightarrow> string + ServiceSpreadPolicy) \<Rightarrow> 'u indexObj list \<Rightarrow> ServiceSpreadPolicy list \<Rightarrow> ServiceSpreadPolicy list" where
  "convertLoop conv [] out = out"
| "convertLoop conv (ob # objs) out =
     (case ob of
        OtherIndexObj \<Rightarrow> convertLoop conv objs out
      | Unstructured u \<Rightarrow>
          (case conv u of
             Inl err \<Rightarrow> convertLoop conv objs out
           | Inr pol \<Rightarrow> convertLoop conv objs (out @ [pol])))"

definition policyInformer_List ::
    "('u \<Rightarrow> string + ServiceSpreadPolicy) \<Rightarrow> 'u policyInformer \<Rightarrow> string \<Rightarrow> string + ServiceSpreadPolicy list" where
  "policyInformer_List conv p namespace =
     (case pi_inf p of
        None \<Rightarrow> Inl ''policy informer unavailable''
      | Some byIndex \<Rightarrow>
          (case byIndex namespace of
             Inl err \<Rightarrow> Inl err
           | Inr objs \<Rightarrow> Inr (convertLoop conv objs [])))"

subsection \<open>The owner chain\<close>

primrec controllerRef :: "ownerReference list \<Rightarrow> string \<Rightarrow> ownerReference option" where
  "controllerRef [] kind = None"
| "controllerRef (r # refs) kind =
     (if or_Kind r = kind \<and> or_Controller r = Some True then Some r else controllerRef refs kind)"

text \<open>\<open>getRS\<close> and \<open>getDep\<close> are the listers: namespace and name to the owner references of the ReplicaSet, or to
  whether the Deployment is found.\<close>

definition OwnedByDeployment ::
    "(string \<Rightarrow> string \<Rightarrow> ownerReference list option) \<Rightarrow> (string \<Rightarrow> string \<Rightarrow> bool) \<Rightarrow>
     string \<Rightarrow> string \<Rightarrow> ownerReference list \<Rightarrow> bool" where
  "OwnedByDeployment getRS getDep podUID namespace podOwnerRefs =
     (case controllerRef podOwnerRefs ''ReplicaSet'' of
        None \<Rightarrow> False
      | Some rsRef \<Rightarrow>
          (case getRS namespace (or_Name rsRef) of
             None \<Rightarrow> False
           | Some rsOwners \<Rightarrow>
               (case controllerRef rsOwners ''Deployment'' of
                  None \<Rightarrow> False
                | Some depRef \<Rightarrow> getDep namespace (or_Name depRef))))"

subsection \<open>Conversion and ownership\<close>

lemma convertLoop_filter:
  "convertLoop conv objs out =
     out @ map projr (filter (\<lambda>x. \<not> isl x) (map conv (concat (map (\<lambda>ob. case ob of Unstructured u \<Rightarrow> [u] | OtherIndexObj \<Rightarrow> []) objs))))"
  by (induction objs arbitrary: out) (auto split: indexObj.splits sum.splits)

lemma controllerRef_Some:
  "controllerRef refs kind = Some r \<Longrightarrow> r \<in> set refs \<and> or_Kind r = kind \<and> or_Controller r = Some True"
  by (induction refs) (auto split: if_splits)

lemma controllerRef_unique:
  assumes "\<And>r. r \<in> set refs \<Longrightarrow> or_Controller r = Some True \<Longrightarrow> r = c"
    and "c \<in> set refs" and "or_Controller c = Some True"
  shows "controllerRef refs kind = (if or_Kind c = kind then Some c else None)"
  using assms
proof (induction refs)
  case (Cons r refs)
  show ?case
  proof (cases "or_Controller r = Some True")
    case True
    then have "r = c" using Cons.prems(1) by simp
    have "controllerRef refs kind = None" if other: "or_Kind c \<noteq> kind"
    proof (cases "controllerRef refs kind")
      case (Some r')
      have c: "r' \<in> set refs" "or_Kind r' = kind" "or_Controller r' = Some True"
        using controllerRef_Some [OF Some] by auto
      then have "r' = c" by (intro Cons.prems(1)) simp_all
      with c(2) other show ?thesis by simp
    qed
    with True show ?thesis unfolding \<open>r = c\<close> controllerRef.simps by simp
  next
    case False
    then have "c \<in> set refs" using Cons.prems(2,3) by auto
    moreover have "r' = c" if "r' \<in> set refs" "or_Controller r' = Some True" for r'
      using that by (intro Cons.prems(1)) simp_all
    ultimately have "controllerRef refs kind = (if or_Kind c = kind then Some c else None)"
      using Cons.IH Cons.prems(3) by metis
    with False show ?thesis by simp
  qed
qed simp

text \<open>The owner chain. A pod counts as owned by a Deployment only if one of its owner references is a
  controlling ReplicaSet that exists in the pod's namespace and has in turn a controlling Deployment that
  exists there; and where each object has at most one controller (as Kubernetes guarantees), that is
  exactly the condition.\<close>

theorem owner_chain:
  "(OwnedByDeployment getRS getDep u ns refs \<longrightarrow>
      (\<exists>r \<in> set refs. or_Kind r = ''ReplicaSet'' \<and> or_Controller r = Some True \<and>
        (\<exists>owners. getRS ns (or_Name r) = Some owners \<and>
          (\<exists>d \<in> set owners. or_Kind d = ''Deployment'' \<and> or_Controller d = Some True \<and> getDep ns (or_Name d))))) \<and>
   ((\<forall>r \<in> set refs. or_Controller r = Some True \<longrightarrow> r = c) \<and> c \<in> set refs \<and> or_Controller c = Some True \<and>
    getRS ns (or_Name c) = Some owners \<and>
    (\<forall>d \<in> set owners. or_Controller d = Some True \<longrightarrow> d = e) \<and> e \<in> set owners \<and> or_Controller e = Some True \<longrightarrow>
      OwnedByDeployment getRS getDep u ns refs =
        (or_Kind c = ''ReplicaSet'' \<and> or_Kind e = ''Deployment'' \<and> getDep ns (or_Name e)))"
proof (intro conjI impI)
  assume "OwnedByDeployment getRS getDep u ns refs"
  then show "\<exists>r \<in> set refs. or_Kind r = ''ReplicaSet'' \<and> or_Controller r = Some True \<and>
        (\<exists>owners. getRS ns (or_Name r) = Some owners \<and>
          (\<exists>d \<in> set owners. or_Kind d = ''Deployment'' \<and> or_Controller d = Some True \<and> getDep ns (or_Name d)))"
    by (fastforce simp: OwnedByDeployment_def dest: controllerRef_Some split: option.splits)
next
  assume unique: "(\<forall>r \<in> set refs. or_Controller r = Some True \<longrightarrow> r = c) \<and> c \<in> set refs \<and> or_Controller c = Some True \<and>
    getRS ns (or_Name c) = Some owners \<and>
    (\<forall>d \<in> set owners. or_Controller d = Some True \<longrightarrow> d = e) \<and> e \<in> set owners \<and> or_Controller e = Some True"
  then have "controllerRef refs ''ReplicaSet'' = (if or_Kind c = ''ReplicaSet'' then Some c else None)"
    and "controllerRef owners ''Deployment'' = (if or_Kind e = ''Deployment'' then Some e else None)"
    using controllerRef_unique [of refs c] controllerRef_unique [of owners e] by blast+
  with unique show "OwnedByDeployment getRS getDep u ns refs =
      (or_Kind c = ''ReplicaSet'' \<and> or_Kind e = ''Deployment'' \<and> getDep ns (or_Name e))"
    by (simp add: OwnedByDeployment_def)
qed

definition controllerOf :: "string \<Rightarrow> string \<Rightarrow> ownerReference" where
  "controllerOf kind name = \<lparr>or_Kind = kind, or_Name = name, or_Controller = Some True\<rparr>"

theorem owner_chain_witness:
  "OwnedByDeployment (\<lambda>ns n. Some [controllerOf ''Deployment'' ''web'']) (\<lambda>ns n. n = ''web'') ''u1'' ''ns1''
     [controllerOf ''ReplicaSet'' ''web-1'']"
  using owner_chain [of "\<lambda>ns n. Some [controllerOf ''Deployment'' ''web'']" "\<lambda>ns n. n = ''web''" "''u1''" "''ns1''"
      "[controllerOf ''ReplicaSet'' ''web-1'']" "controllerOf ''ReplicaSet'' ''web-1''"
      "[controllerOf ''Deployment'' ''web'']" "controllerOf ''Deployment'' ''web''"]
  by (simp add: controllerOf_def)

subsection \<open>The event path and the listing\<close>

definition eventRef :: "ServiceSpreadArgs \<Rightarrow> pod \<Rightarrow> podRef" where
  "eventRef args p =
     (case countedRef (ManagedSchedulerName args) (ServiceLabelKey args) p of None \<Rightarrow> emptyRef | Some ref \<Rightarrow> ref)"

lemma OnPodAddOrUpdate_uncountable:
  "\<not> countablePod p \<Longrightarrow> OnPodAddOrUpdate p ref s = OnPodAddOrUpdate p ref' s"
  by (simp add: OnPodAddOrUpdate_def)

lemma onPodEvent_eventRef: "onPodEvent args p s = OnPodAddOrUpdate p (eventRef args p) s"
  by (cases "countablePod p")
    (auto simp: onPodEvent_def eventRef_def countedRef_def split: sum.splits intro: OnPodAddOrUpdate_uncountable)

lemma length_pods_event:
  assumes "state_ok s"
  shows "length (snap_pods (st_snap (OnPodAddOrUpdate p ref s))) \<le> Suc (length (snap_pods (st_snap s)))"
    and "length (st_resv (OnPodAddOrUpdate p ref s)) \<le> length (st_resv s)"
  using assms length_pods_apply [of "st_snap s" "pod_UID p" ref] length_mdel [of "snap_pods (st_snap s)" "pod_UID p"]
    length_mdel [of "st_resv s" "pod_UID p"]
  by (auto simp: OnPodAddOrUpdate_def upsertCount_def removeCount_def state_ok_def snapshot_clone_id pods_unapply
      releaseIfObserved_def Let_def split: option.splits)

lemma replay_events:
  assumes "state_ok s" and "length (snap_pods (st_snap s)) + length (st_resv s) + length ps < 2 ^ 31"
    and "distinct (map pod_UID ps)"
  shows "state_ok (fold (onPodEvent args) ps s) \<and>
    (\<forall>u. mget (snap_pods (st_snap (fold (onPodEvent args) ps s))) u =
      (case find (\<lambda>p. pod_UID p = u) ps of
         None \<Rightarrow> mget (snap_pods (st_snap s)) u
       | Some p \<Rightarrow> if countablePod p then Some (eventRef args p) else None))"
  using assms
proof (induction ps arbitrary: s)
  case (Cons p ps)
  let ?s = "onPodEvent args p s"
  have small: "state_small s" using Cons.prems(2) by (simp add: state_small_def)
  have ok: "state_ok ?s" using state_ok_events(1) [OF Cons.prems(1) small] by (simp add: onPodEvent_eventRef)
  have len: "length (snap_pods (st_snap ?s)) + length (st_resv ?s) + length ps < 2 ^ 31"
    using Cons.prems(2) length_pods_event [OF Cons.prems(1), of p "eventRef args p"] by (simp add: onPodEvent_eventRef)
  have IH: "state_ok (fold (onPodEvent args) ps ?s) \<and>
    (\<forall>u. mget (snap_pods (st_snap (fold (onPodEvent args) ps ?s))) u =
      (case find (\<lambda>p. pod_UID p = u) ps of
         None \<Rightarrow> mget (snap_pods (st_snap ?s)) u
       | Some p \<Rightarrow> if countablePod p then Some (eventRef args p) else None))"
    using Cons.prems(3) by (intro Cons.IH ok len) simp
  have none: "find (\<lambda>q. pod_UID q = pod_UID p) ps = None"
    using Cons.prems(3) by (auto simp: find_None_iff image_iff)
  have pods: "mget (snap_pods (st_snap ?s)) u =
      (if u = pod_UID p then if countablePod p then Some (eventRef args p) else None else mget (snap_pods (st_snap s)) u)" for u
    by (simp add: onPodEvent_eventRef pods_OnPodAddOrUpdate [OF Cons.prems(1)])
  have "mget (snap_pods (st_snap (fold (onPodEvent args) (p # ps) s))) u =
      (case find (\<lambda>p. pod_UID p = u) (p # ps) of
         None \<Rightarrow> mget (snap_pods (st_snap s)) u
       | Some p \<Rightarrow> if countablePod p then Some (eventRef args p) else None)" for u
    using IH none pods [of u] by (cases "pod_UID p = u") (simp_all split: option.split)
  with IH show ?case by simp
qed simp

lemma find_uid: "find (\<lambda>p. pod_UID p = u) ps = Some p \<Longrightarrow> p \<in> set ps \<and> pod_UID p = u"
  by (induction ps) (auto split: if_splits)

lemma mget_listing:
  assumes "distinct (map pod_UID ps)"
  shows "mget (countableLoop ms k ps []) u = (case find (\<lambda>p. pod_UID p = u) ps of None \<Rightarrow> None | Some p \<Rightarrow> countedRef ms k p)"
proof (cases "find (\<lambda>p. pod_UID p = u) ps")
  case None
  then have "u \<notin> pod_UID ` set ps" by (auto simp: find_None_iff)
  with None show ?thesis by (simp add: countableLoop_other)
next
  case (Some p)
  with find_uid [OF Some] lps.listing_covers [OF assms, of p] show ?thesis by simp
qed

text \<open>C32: The event path and the periodic listing count alike where it matters. Starting from the empty
  state, delivering an Add for every pod of the cluster and rebuilding from the lister's countable
  pods give, on every node, the same number of pods for every quota key and for every scheduling
  key.\<close>

theorem event_path_agrees_with_listing:
  assumes "distinct (map pod_UID ps)" and "length ps < 2 ^ 31" and "n \<noteq> ''''"
  shows "state_ok (fold (onPodEvent args) ps newSpreadState) \<and>
    (\<exists>counts. ListCountable (ManagedSchedulerName args) (ServiceLabelKey args) (Inr ps) = Inr counts \<and>
       quotaCount (fold (onPodEvent args) ps newSpreadState) n q = quotaCount (rebuild counts newSpreadState) n q \<and>
       domainCount (fold (onPodEvent args) ps newSpreadState) n k = domainCount (rebuild counts newSpreadState) n k)"
proof -
  let ?e = "fold (onPodEvent args) ps newSpreadState"
  let ?c = "countableLoop (ManagedSchedulerName args) (ServiceLabelKey args) ps []"
  let ?r = "rebuild ?c newSpreadState"
  have new: "mget (snap_pods (st_snap newSpreadState)) u = None" "length (snap_pods (st_snap newSpreadState)) = 0"
    "length (st_resv newSpreadState) = 0" for u
    by (simp_all add: newSpreadState_def emptySnapshot_def)
  have e: "state_ok ?e \<and> (\<forall>u. mget (snap_pods (st_snap ?e)) u = (case find (\<lambda>p. pod_UID p = u) ps of
         None \<Rightarrow> None | Some p \<Rightarrow> if countablePod p then Some (eventRef args p) else None))"
    using replay_events [OF new_state_ok(1) _ assms(1), of args] assms(2) by (simp only: new) simp
  have r: "state_ok ?r" by (rule lps.rebuild_ok [OF new_state_ok(1) assms(2)])
  have pods_r: "mget (snap_pods (st_snap ?r)) = mget ?c" by (rule pods_rebuild [OF lps.wf_listing])
  have resv_e: "st_resv ?e = []"
  proof -
    have "st_resv (fold (onPodEvent args) ps s) = []" if "st_resv s = []" for s
      using that
    proof (induction ps arbitrary: s)
      case (Cons p ps)
      have "st_resv (onPodEvent args p s) = []"
        using Cons.prems by (simp add: onPodEvent_eventRef OnPodAddOrUpdate_def releaseIfObserved_def)
      then show ?case using Cons.IH by simp
    qed simp
    then show ?thesis by (simp add: newSpreadState_def)
  qed
  have same: "(\<exists>ref. mget (snap_pods (st_snap ?e)) u = Some ref \<and> NodeNameOf ref = n \<and> P ref) \<longleftrightarrow>
      (\<exists>ref. mget ?c u = Some ref \<and> NodeNameOf ref = n \<and> P ref)" for u P
  proof (cases "find (\<lambda>p. pod_UID p = u) ps")
    case None
    then show ?thesis using e by (simp add: mget_listing [OF assms(1)])
  next
    case (Some p)
    have "countedRef (ManagedSchedulerName args) (ServiceLabelKey args) p = None" if "\<not> countablePod p"
      using that by (simp add: countedRef_def)
    with Some assms(3) e show ?thesis
      by (auto simp: mget_listing [OF assms(1)] eventRef_def emptyRef_def split: option.splits)
  qed
  have cnt: "mcount (\<lambda>r. NodeNameOf r = n \<and> P r) (snap_pods (st_snap ?e)) =
      mcount (\<lambda>r. NodeNameOf r = n \<and> P r) (snap_pods (st_snap ?r))" for P
    using e r same [of _ P] by (simp add: mcount_card state_ok_def snapshot_ok_def pods_r)
  show ?thesis
    using e cnt by (simp add: ListCountable_def quotaCount_def domainCount_def resv_e) (simp add: newSpreadState_def)
qed

definition unmanagedPod :: pod where
  "unmanagedPod = example_pod\<lparr>pod_UID := ''u9'', pod_Phase := ''Running'',
     pod_Spec := (pod_Spec example_pod)\<lparr>ps_SchedulerName := ''default-scheduler'', ps_NodeName := ''n1''\<rparr>\<rparr>"

theorem event_path_agrees_with_listing_witness:
  "state_ok (fold (onPodEvent example_args) [example_pod, unmanagedPod] newSpreadState)"
proof -
  have "distinct (map pod_UID [example_pod, unmanagedPod])" by (simp add: unmanagedPod_def example_pod_def)
  from event_path_agrees_with_listing [OF this, of "''n1''" example_args] show ?thesis by simp
qed

text \<open>Yet the two do not hold the same pods: a running pod of another scheduler enters the
  snapshot on its Add event, under the empty reference, although the comments say that unmanaged pods
  never count and that the listing covers exactly the UIDs of the event path.\<close>

theorem unmanaged_pod_enters_snapshot:
  "mget (snap_pods (st_snap (podHandler example_args (AddFunc (PodObj unmanagedPod)) newSpreadState))) ''u9'' =
     Some emptyRef \<and>
   ListCountable (ManagedSchedulerName example_args) (ServiceLabelKey example_args) (Inr [unmanagedPod]) = Inr []"
  by (simp add: podHandler_def onPodEvent_def pods_OnPodAddOrUpdate [OF new_state_ok(1)] ListCountable_def
      countablePod_def unmanagedPod_def example_pod_def example_spec_def example_args_def DefaultManagedSchedulerName_def)

end
