(* ===== verification/Plugin.thy ===== *)
theory Plugin
  imports Domain Plugins_Api
begin

section \<open>The scheduler plugin\<close>

text \<open>
  \<open>internal/spread/plugin.go\<close> and the factory of \<open>plugins_api.go\<close>: the extension points PreFilter, Filter,
  PreScore, Score, Reserve, Unreserve and PostBind. What an extension point reads from informer caches is
  in the record \<open>pluginDeps\<close>; the shared \<open>spreadState\<close> is threaded explicitly; the scheduler's per-cycle
  store is \<open>cycleState\<close>; increments of Prometheus counters are returned as a list. A dereference of a nil
  policy is a panic.
\<close>

subsection \<open>Statuses, the cycle state and the plugin\<close>

datatype code = Success | Error | Unschedulable | UnschedulableAndUnresolvable

record status =
  st_Code :: code
  st_Reasons :: "string list"

definition NewStatus :: "code \<Rightarrow> string list \<Rightarrow> status" where
  "NewStatus c rs = \<lparr>st_Code = c, st_Reasons = rs\<rparr>"

text \<open>An increment of a counter vector: its name and label value.\<close>

type_synonym increment = "string \<times> string"

definition filterRejections :: "string \<Rightarrow> increment" where
  "filterRejections reason = (''service_spread_filter_rejections_total'', reason)"

definition policyResolutionFailures :: "string \<Rightarrow> increment" where
  "policyResolutionFailures reason = (''service_spread_policy_resolution_failures_total'', reason)"

definition PluginName :: string where "PluginName = ''ServiceSpread''"

definition preFilterStateKey :: string where "preFilterStateKey = PluginName @ ''/preFilter''"
definition preScoreStateKey :: string where "preScoreStateKey = PluginName @ ''/preScore''"

record preFilterState =
  pf_quotaKey :: string
  pf_schedKey :: string
  pf_policy :: "ServiceSpreadPolicy option"
  pf_domainSet :: "string list"
  pf_minCount :: int32
  pf_effDomain :: "(string, int32) gomap"
  pf_effQuota :: "(string, int32) gomap"

text \<open>A set is kept as the list of its elements; copying it inserts them one by one.\<close>

definition copySet :: "string list \<Rightarrow> string list" where
  "copySet xs = fold (\<lambda>k c. if k \<in> set c then c else c @ [k]) xs []"

definition preFilterState_Clone :: "preFilterState \<Rightarrow> preFilterState" where
  "preFilterState_Clone s = s\<lparr>
     pf_domainSet := copySet (pf_domainSet s),
     pf_effDomain := copyMap (pf_effDomain s),
     pf_effQuota := copyMap (pf_effQuota s)\<rparr>"

record preScoreState =
  sc_skip :: bool
  sc_cmin :: int32
  sc_cmax :: int32

definition preScoreState_Clone :: "preScoreState \<Rightarrow> preScoreState" where
  "preScoreState_Clone s = s"

text \<open>The dynamic types under which data can be found in the cycle state.\<close>

datatype stateData = PreFilterData "preFilterState option" | PreScoreData preScoreState | OtherData

type_synonym cycleState = "(string, stateData) gomap"

record pluginDeps =
  dep_policies :: "string \<Rightarrow> string + ServiceSpreadPolicy list"
  dep_owners :: "string \<Rightarrow> string \<Rightarrow> ownerReference list \<Rightarrow> bool"
  dep_nodes :: "string + node option list"
  dep_synced :: "bool option"

record ServiceSpread =
  sp_args :: ServiceSpreadArgs
  sp_deps :: pluginDeps

definition NewWithDeps :: "ServiceSpreadArgs \<Rightarrow> pluginDeps \<Rightarrow> string + ServiceSpread" where
  "NewWithDeps args deps =
     (if ServiceLabelKey args = '''' then Inl (PluginName @ '': serviceLabelKey is required'')
      else let a = (if ManagedSchedulerName args = ''''
                    then args\<lparr>ManagedSchedulerName := DefaultManagedSchedulerName\<rparr> else args);
               d = (if dep_synced deps = None then deps\<lparr>dep_synced := Some True\<rparr> else deps)
           in Inr \<lparr>sp_args = a, sp_deps = d\<rparr>)"

datatype newError = DecodeArgs argsError | NewError string

definition New ::
    "k8s_lib \<Rightarrow> (string \<Rightarrow> string + ServiceSpreadArgs) \<Rightarrow> (ServiceSpreadArgs \<Rightarrow> pluginDeps) \<Rightarrow> argsObject \<Rightarrow>
     (newError + ServiceSpread) outcome" where
  "New lib decodeStrict depsFromHandle configuration =
     bindOutcome (DecodeServiceSpreadArgs lib decodeStrict configuration) (\<lambda>res.
       case res of
         Inl err \<Rightarrow> Ret (Inl (DecodeArgs err))
       | Inr args \<Rightarrow> (case NewWithDeps args (depsFromHandle args) of
             Inl e \<Rightarrow> Ret (Inl (NewError e))
           | Inr pl \<Rightarrow> Ret (Inr pl)))"

definition getPreFilterState :: "cycleState \<Rightarrow> status + preFilterState" where
  "getPreFilterState cs =
     (case mget cs preFilterStateKey of
        None \<Rightarrow> Inl (NewStatus Error [''reading preFilterState''])
      | Some (PreFilterData (Some s)) \<Rightarrow> Inr s
      | Some data \<Rightarrow> Inl (NewStatus Error [''invalid preFilterState'']))"

subsection \<open>Policy resolution\<close>

definition selectorMatchesService :: "labelSelector \<Rightarrow> string \<Rightarrow> string \<Rightarrow> bool" where
  "selectorMatchesService sel serviceLabelKey labelValue =
     (if length (LabelExpressions sel) \<noteq> 0 \<or> length (MatchLabels sel) \<noteq> 1 then False
      else (case mget (MatchLabels sel) serviceLabelKey of None \<Rightarrow> False | Some v \<Rightarrow> v = labelValue))"

primrec matchLoop ::
    "string \<Rightarrow> string \<Rightarrow> string \<Rightarrow> ServiceSpreadPolicy list \<Rightarrow> ServiceSpreadPolicy list \<Rightarrow> ServiceSpreadPolicy list" where
  "matchLoop sched key labelValue [] matches = matches"
| "matchLoop sched key labelValue (p # ps) matches =
     (if pol_SchedulerName (pol_Spec p) \<noteq> sched then matchLoop sched key labelValue ps matches
      else if selectorMatchesService (pol_ServiceSelector (pol_Spec p)) key labelValue
           then matchLoop sched key labelValue ps (matches @ [p])
           else matchLoop sched key labelValue ps matches)"

definition resolvePolicy ::
    "ServiceSpread \<Rightarrow> string \<Rightarrow> string \<Rightarrow> (ServiceSpreadPolicy option \<times> status option) \<times> increment list" where
  "resolvePolicy pl namespace labelValue =
     (case dep_policies (sp_deps pl) namespace of
        Inl err \<Rightarrow> ((None, Some (NewStatus Error [''listing ServiceSpreadPolicies: '' @ err])),
                    [policyResolutionFailures ''PolicyListError''])
      | Inr policies \<Rightarrow>
          (let matches = matchLoop (ManagedSchedulerName (sp_args pl)) (ServiceLabelKey (sp_args pl)) labelValue policies [];
               requirePolicy = (case RequirePolicy (sp_args pl) of None \<Rightarrow> True | Some b \<Rightarrow> b)
           in if length matches = 0 then
                (if requirePolicy then
                   ((None, Some (NewStatus UnschedulableAndUnresolvable
                      [''ServiceSpreadPolicyNotFound: no policy selects this service in namespace '' @ namespace])),
                    [policyResolutionFailures ''ServiceSpreadPolicyNotFound''])
                 else ((None, None), []))
              else if length matches > 1 then
                ((None, Some (NewStatus UnschedulableAndUnresolvable
                   [''AmbiguousServiceSpreadPolicy: '' @ showNat (length matches) @ '' policies select this service''])),
                 [policyResolutionFailures ''AmbiguousServiceSpreadPolicy''])
              else ((Some (matches ! 0), None), [])))"

subsection \<open>PreFilter and Filter\<close>

text \<open>The loop over the domain; the accumulator is \<open>(effDomain, effQuota, minCount)\<close>.\<close>

primrec preFilterLoop ::
    "spreadState \<Rightarrow> string \<Rightarrow> string \<Rightarrow> string list \<Rightarrow>
     (string, int32) gomap \<times> (string, int32) gomap \<times> int32 \<Rightarrow>
     (string, int32) gomap \<times> (string, int32) gomap \<times> int32" where
  "preFilterLoop s schedKey quotaKey [] acc = acc"
| "preFilterLoop s schedKey quotaKey (node # nodes) acc =
     (let (effDomain, effQuota, minCount) = acc;
          (domainN, quotaN) = effCount s node schedKey quotaKey
      in preFilterLoop s schedKey quotaKey nodes
           (mput effDomain node domainN, mput effQuota node quotaN,
            if sint minCount < 0 \<or> sint domainN < sint minCount then domainN else minCount))"

definition PreFilter ::
    "k8s_lib \<Rightarrow> ServiceSpread \<Rightarrow> spreadState \<Rightarrow> cycleState \<Rightarrow> pod \<Rightarrow> (status \<times> cycleState \<times> increment list) outcome" where
  "PreFilter lib pl s cs p =
     (case dep_synced (sp_deps pl) of
        None \<Rightarrow> Panic ''nil pointer dereference''
      | Some synced \<Rightarrow>
      if \<not> synced then Ret (NewStatus Unschedulable [''CacheNotSynced''], cs, [])
      else if ps_SchedulerName (pod_Spec p) \<noteq> ManagedSchedulerName (sp_args pl) then Ret (NewStatus Success [], cs, [])
      else case mget (pod_Labels p) (ServiceLabelKey (sp_args pl)) of
        None \<Rightarrow> Ret (NewStatus UnschedulableAndUnresolvable
                   [''MissingRequiredServiceLabel: pod misses required label '' @ ServiceLabelKey (sp_args pl)],
                 cs, [policyResolutionFailures ''MissingRequiredServiceLabel''])
      | Some labelValue \<Rightarrow>
          if \<not> dep_owners (sp_deps pl) (pod_UID p) (pod_Namespace p) (pod_OwnerReferences p)
          then Ret (NewStatus UnschedulableAndUnresolvable
                  [''UnsupportedWorkloadOwner: pod must be owned by a Deployment via a ReplicaSet''],
                cs, [policyResolutionFailures ''UnsupportedWorkloadOwner''])
          else (case resolvePolicy pl (pod_Namespace p) labelValue of
                  ((_, Some st), inc) \<Rightarrow> Ret (st, cs, inc)
                | ((policy, None), inc) \<Rightarrow>
                    (let domainSet = computeStableDomain lib p (dep_nodes (sp_deps pl))
                     in if length domainSet = 0 then Ret (NewStatus Unschedulable [''EmptySpreadDomain''], cs, inc)
                        else let quotaKey = QuotaKey (pod_Namespace p) (ManagedSchedulerName (sp_args pl))
                                              (ServiceLabelKey (sp_args pl)) labelValue
                        in case DomainHash p of
                             Inl err \<Rightarrow> Ret (NewStatus Error [''computing schedulingDomainHash: '' @ err], cs, inc)
                           | Inr hash \<Rightarrow>
                               (let schedKey = SchedKey quotaKey hash;
                                    (effDomain, effQuota, minCount) =
                                      preFilterLoop s schedKey quotaKey domainSet ([], [], - 1)
                                in Ret (NewStatus Success [],
                                    mput cs preFilterStateKey (PreFilterData (Some
                                      \<lparr>pf_quotaKey = quotaKey, pf_schedKey = schedKey, pf_policy = policy,
                                       pf_domainSet = domainSet, pf_minCount = minCount,
                                       pf_effDomain = effDomain, pf_effQuota = effQuota\<rparr>)),
                                    inc)))))"

text \<open>The read of \<open>state.policy.Spec\<close>.\<close>

definition policySpecOf :: "ServiceSpreadPolicy option \<Rightarrow> ServiceSpreadPolicySpec outcome" where
  "policySpecOf p = (case p of None \<Rightarrow> Panic ''nil pointer dereference'' | Some pol \<Rightarrow> Ret (pol_Spec pol))"

definition Filter :: "cycleState \<Rightarrow> pod \<Rightarrow> node option \<Rightarrow> (status \<times> increment list) outcome" where
  "Filter cs p nodeInfo =
     (case getPreFilterState cs of
        Inl st \<Rightarrow> Ret (st, [])
      | Inr state \<Rightarrow>
          (case nodeInfo of
             None \<Rightarrow> Ret (NewStatus Error [''node not found''], [])
           | Some nd \<Rightarrow>
               if node_Name nd \<notin> set (pf_domainSet state)
               then Ret (NewStatus Unschedulable [''NodeOutsideSpreadDomain: node='' @ node_Name nd],
                         [filterRejections ''ServiceSpreadConstraint''])
               else bindOutcome (policySpecOf (pf_policy state)) (\<lambda>spec.
                 let quota = mget0 (pf_effQuota state) (node_Name nd) + 1
                 in if sint quota > sint (pol_MaxPodsPerNode spec)
                    then Ret (NewStatus Unschedulable
                           [''MaxPodsPerNodeExceeded: node='' @ node_Name nd @ '' quota='' @
                            showInt (sint (mget0 (pf_effQuota state) (node_Name nd))) @ ''/'' @ showInt (sint quota) @
                            '' limit='' @ showInt (sint (pol_MaxPodsPerNode spec))],
                           [filterRejections ''ServiceSpreadConstraint''])
                    else let count = mget0 (pf_effDomain state) (node_Name nd);
                             skew = count + 1 - pf_minCount state
                         in if sint skew > sint (pol_MaxSkew spec)
                            then Ret (NewStatus Unschedulable
                                   [''MaxSkewExceeded: node='' @ node_Name nd @ '' count='' @ showInt (sint count) @
                                    '' min='' @ showInt (sint (pf_minCount state)) @ '' skew='' @ showInt (sint skew) @
                                    '' maxSkew='' @ showInt (sint (pol_MaxSkew spec))],
                                   [filterRejections ''ServiceSpreadConstraint''])
                            else Ret (NewStatus Success [], []))))"

subsection \<open>PreScore and Score\<close>

primrec extremaLoop :: "(string, int32) gomap \<Rightarrow> node list \<Rightarrow> int32 \<times> int32 \<Rightarrow> int32 \<times> int32" where
  "extremaLoop eff [] acc = acc"
| "extremaLoop eff (n # ns) acc =
     (let (cmin, cmax) = acc; c = mget0 eff (node_Name n)
      in extremaLoop eff ns
           (if sint cmin < 0 \<or> sint c < sint cmin then c else cmin,
            if sint c > sint cmax then c else cmax))"

definition PreScore :: "cycleState \<Rightarrow> pod \<Rightarrow> node list \<Rightarrow> status \<times> cycleState" where
  "PreScore cs p nodes =
     (case getPreFilterState cs of
        Inl st \<Rightarrow> (st, cs)
      | Inr state \<Rightarrow>
          if length nodes = 0 then (NewStatus Unschedulable [''no feasible nodes''], cs)
          else (let (cmin, cmax) = extremaLoop (pf_effDomain state) nodes (- 1, - 1)
                in (NewStatus Success [],
                    mput cs preScoreStateKey (PreScoreData \<lparr>sc_skip = (cmin = cmax), sc_cmin = cmin, sc_cmax = cmax\<rparr>))))"

text \<open>Signed 64-bit division; division by zero panics.\<close>

definition div64 :: "int64 \<Rightarrow> int64 \<Rightarrow> int64 outcome" where
  "div64 a b = (if b = 0 then Panic ''integer divide by zero'' else Ret (word_of_int (go_div (sint a) (sint b))))"

definition int64_of_int32 :: "int32 \<Rightarrow> int64" where
  "int64_of_int32 a = word_of_int (sint a)"

definition Score :: "k8s_lib \<Rightarrow> cycleState \<Rightarrow> pod \<Rightarrow> string \<Rightarrow> (int64 \<times> status) outcome" where
  "Score lib cs p nodeName =
     (case getPreFilterState cs of
        Inl st \<Rightarrow> Ret (0, st)
      | Inr state \<Rightarrow>
          (case mget cs preScoreStateKey of
             None \<Rightarrow> Ret (0, NewStatus Error [''reading preScoreState''])
           | Some (PreScoreData ss) \<Rightarrow>
               if sc_skip ss then Ret (0, NewStatus Success [])
               else (let count = mget0 (pf_effDomain state) nodeName
                     in bindOutcome
                          (div64 (int64_of_int32 (sc_cmax ss - count) * lib_MaxNodeScore lib)
                                 (int64_of_int32 (sc_cmax ss - sc_cmin ss + 1)))
                          (\<lambda>score. Ret (score, NewStatus Success [])))
           | Some data \<Rightarrow> Ret (0, NewStatus Error [''invalid preScoreState''])))"

subsection \<open>Reserve, Unreserve and PostBind\<close>

text \<open>The recomputed minimum over the current domain, with the candidate's own count substituted.\<close>

primrec reserveMinLoop :: "reserveGuard \<Rightarrow> string \<Rightarrow> string \<Rightarrow> string \<Rightarrow> int32 \<Rightarrow> string list \<Rightarrow> int32 \<Rightarrow> int32" where
  "reserveMinLoop g nodeName schedKey quotaKey domainN [] m = m"
| "reserveMinLoop g nodeName schedKey quotaKey domainN (n # ns) m =
     (let d0 = fst (guard_EffCount g n schedKey quotaKey);
          d = (if n = nodeName then domainN else d0)
      in reserveMinLoop g nodeName schedKey quotaKey domainN ns (if sint m < 0 \<or> sint d < sint m then d else m))"

definition reserveAdmit :: "preFilterState \<Rightarrow> string list \<Rightarrow> string \<Rightarrow> reserveGuard \<Rightarrow> bool outcome" where
  "reserveAdmit state domain nodeName g =
     (let (domainN, quotaN) = guard_EffCount g nodeName (pf_schedKey state) (pf_quotaKey state)
      in bindOutcome (policySpecOf (pf_policy state)) (\<lambda>spec.
        if sint (quotaN + 1) > sint (pol_MaxPodsPerNode spec) then Ret False
        else let m = reserveMinLoop g nodeName (pf_schedKey state) (pf_quotaKey state) domainN domain (- 1)
             in Ret (sint (domainN + 1 - m) \<le> sint (pol_MaxSkew spec))))"

definition Reserve ::
    "k8s_lib \<Rightarrow> ServiceSpread \<Rightarrow> cycleState \<Rightarrow> pod \<Rightarrow> string \<Rightarrow> int \<Rightarrow> spreadState \<Rightarrow> (status \<times> spreadState) outcome" where
  "Reserve lib pl cs p nodeName now s =
     (case getPreFilterState cs of
        Inl st \<Rightarrow> Ret (st, s)
      | Inr state \<Rightarrow>
          (let domain = computeStableDomain lib p (dep_nodes (sp_deps pl))
           in if nodeName \<notin> set domain
              then Ret (NewStatus Unschedulable
                     [''ReserveRevalidationFailed: node='' @ nodeName @ '' left the spread domain''], s)
              else bindOutcome
                     (TryReserveChecked (pod_UID p)
                       \<lparr>QuotaKeyOf = pf_quotaKey state, SchedKeyOf = pf_schedKey state, NodeNameOf = nodeName\<rparr>
                       (reserveAdmit state domain nodeName) now s)
                     (\<lambda>(ok, s'). if \<not> ok
                        then Ret (NewStatus Unschedulable
                               [''ReserveRevalidationFailed: node='' @ nodeName @ '' quota/skew recheck failed''], s')
                        else Ret (NewStatus Success [], s'))))"

definition PluginUnreserve :: "pod \<Rightarrow> spreadState \<Rightarrow> spreadState" where
  "PluginUnreserve p s = Unreserve (pod_UID p) s"

definition PostBind :: "pod \<Rightarrow> spreadState \<Rightarrow> spreadState" where
  "PostBind p s = MarkBound (pod_UID p) s"

subsection \<open>Minimum with a sentinel\<close>

text \<open>The three loops of the plugin that look for a minimum start from -1, which stands for ``none yet''.\<close>

definition sentinelMin :: "('a \<Rightarrow> int32) \<Rightarrow> 'a list \<Rightarrow> int32 \<Rightarrow> int32" where
  "sentinelMin f xs m = fold (\<lambda>x m. if sint m < 0 \<or> sint (f x) < sint m then f x else m) xs m"

lemma sentinelMin_nonneg:
  assumes "0 \<le> sint m" and "\<forall>x \<in> set xs. 0 \<le> sint (f x)"
  shows "sint (sentinelMin f xs m) = Min (insert (sint m) ((\<lambda>x. sint (f x)) ` set xs))"
  using assms
proof (induction xs arbitrary: m)
  case (Cons x xs)
  let ?m = "if sint m < 0 \<or> sint (f x) < sint m then f x else m"
  have m: "sint ?m = min (sint (f x)) (sint m)" using Cons.prems by auto
  have "sint (sentinelMin f xs ?m) = Min (insert (sint ?m) ((\<lambda>x. sint (f x)) ` set xs))"
    using Cons.prems m by (intro Cons.IH) auto
  also have "\<dots> = Min (insert (sint m) ((\<lambda>x. sint (f x)) ` set (x # xs)))"
    by (cases "xs = []") (simp_all add: m min.commute min.left_commute)
  finally show ?case by (simp add: sentinelMin_def)
qed (simp add: sentinelMin_def)

lemma sentinelMin_Min:
  assumes "xs \<noteq> []" and "\<forall>x \<in> set xs. 0 \<le> sint (f x)"
  shows "sint (sentinelMin f xs (- 1)) = Min ((\<lambda>x. sint (f x)) ` set xs)"
proof -
  obtain y ys where xs: "xs = y # ys" using assms(1) by (cases xs) auto
  have "sentinelMin f xs (- 1) = sentinelMin f ys (f y)" by (simp add: xs sentinelMin_def)
  then show ?thesis using sentinelMin_nonneg [of "f y" ys f] assms(2) by (simp add: xs)
qed

lemma preFilterLoop_eq:
  "preFilterLoop s k q ns (eD, eQ, m) =
     (fold (\<lambda>n c. mput c n (fst (effCount s n k q))) ns eD,
      fold (\<lambda>n c. mput c n (snd (effCount s n k q))) ns eQ,
      sentinelMin (\<lambda>n. fst (effCount s n k q)) ns m)"
  by (induction ns arbitrary: eD eQ m) (auto simp: sentinelMin_def case_prod_unfold Let_def)

lemma mget_fold_mput: "mget (fold (\<lambda>n c. mput c n (f n)) ns c) x = (if x \<in> set ns then Some (f x) else mget c x)"
  by (induction ns arbitrary: c) auto

lemma reserveMinLoop_eq:
  assumes "domainN = fst (guard_EffCount g nodeName k q)"
  shows "reserveMinLoop g nodeName k q domainN ns m = sentinelMin (\<lambda>n. fst (guard_EffCount g n k q)) ns m"
  by (induction ns arbitrary: m) (auto simp: sentinelMin_def assms Let_def)

text \<open>The smallest effective count of a scheduling key over a domain.\<close>

definition minOver :: "spreadState \<Rightarrow> string \<Rightarrow> string list \<Rightarrow> nat" where
  "minOver s k ns = Min ((\<lambda>n. domainCount s n k) ` set ns)"

lemma minOver_le: "n \<in> set ns \<Longrightarrow> minOver s k ns \<le> domainCount s n k"
  by (simp add: minOver_def)

lemma int_minOver:
  assumes "ns \<noteq> []"
  shows "int (minOver s k ns) = Min ((\<lambda>n. int (domainCount s n k)) ` set ns)"
proof -
  have "int (Min ((\<lambda>n. domainCount s n k) ` set ns)) = Min (int ` (\<lambda>n. domainCount s n k) ` set ns)"
    using assms by (intro mono_Min_commute) (auto simp: mono_def)
  then show ?thesis by (simp add: minOver_def image_image)
qed

lemma sentinelMin_eff:
  assumes "state_ok s" and "state_small s" and "ns \<noteq> []"
  shows "sint (sentinelMin (\<lambda>n. fst (effCount s n k q)) ns (- 1)) = int (minOver s k ns)"
  by (simp add: sentinelMin_Min assms(3) sint_effCount(1) [OF assms(1,2)] int_minOver)

lemma minOver_attained:
  assumes "ns \<noteq> []"
  shows "\<exists>n \<in> set ns. minOver s k ns = domainCount s n k"
proof -
  have "minOver s k ns \<in> (\<lambda>n. domainCount s n k) ` set ns"
    unfolding minOver_def using assms by (intro Min_in) simp_all
  then show ?thesis by blast
qed

lemma sint_quota_plus:
  assumes "state_ok s" and "state_small s"
  shows "sint (snd (effCount s n k q) + 1) = int (quotaCount s n q) + 1"
  using sint_effCount(2) [OF assms, of n k q] counts_small(1) [OF assms(2), of n q]
  by (subst sint32_add) simp_all

lemma sint_skew:
  assumes "state_ok s" and "state_small s" and "n \<in> set ns"
  shows "sint (fst (effCount s n k q) + 1 - sentinelMin (\<lambda>n. fst (effCount s n k q)) ns (- 1)) =
     int (domainCount s n k) + 1 - int (minOver s k ns)"
proof -
  let ?m = "sentinelMin (\<lambda>n. fst (effCount s n k q)) ns (- 1)"
  have m: "sint ?m = int (minOver s k ns)" using assms(3) by (intro sentinelMin_eff assms) auto
  have d: "sint (fst (effCount s n k q)) = int (domainCount s n k)" by (rule sint_effCount(1) [OF assms(1,2)])
  have lt: "domainCount s n k < 2 ^ 31 - 1" by (rule counts_small(2) [OF assms(2)])
  have le: "minOver s k ns \<le> domainCount s n k" by (rule minOver_le [OF assms(3)])
  have one: "sint (fst (effCount s n k q) + 1) = int (domainCount s n k) + 1"
    using d lt by (subst sint32_add) simp_all
  show ?thesis using lt le by (subst sint32_diff) (simp_all add: one m)
qed

subsection \<open>What Reserve decides\<close>

definition fits :: "ServiceSpreadPolicySpec \<Rightarrow> spreadState \<Rightarrow> string list \<Rightarrow> string \<Rightarrow> string \<Rightarrow> string \<Rightarrow> bool" where
  "fits spec s domain n k q \<longleftrightarrow>
     n \<in> set domain \<and>
     int (quotaCount s n q) + 1 \<le> sint (pol_MaxPodsPerNode spec) \<and>
     int (domainCount s n k) + 1 - int (minOver s k domain) \<le> sint (pol_MaxSkew spec)"

lemma reserveAdmit_fits:
  assumes "state_ok s" and "state_small s" and "pf_policy pf = Some pol" and "n \<in> set domain"
  shows "reserveAdmit pf domain n (guardOf s) = Ret (fits (pol_Spec pol) s domain n (pf_schedKey pf) (pf_quotaKey pf))"
proof -
  let ?k = "pf_schedKey pf" and ?q = "pf_quotaKey pf"
  have "reserveMinLoop (guardOf s) n ?k ?q (fst (effCount s n ?k ?q)) domain (- 1) =
      sentinelMin (\<lambda>n. fst (effCount s n ?k ?q)) domain (- 1)"
    by (subst reserveMinLoop_eq) simp_all
  then show ?thesis
    using assms(3,4) sint_quota_plus [OF assms(1,2), of n ?k ?q] sint_skew [OF assms(1,2,4), of ?k ?q]
    by (simp add: reserveAdmit_def fits_def policySpecOf_def case_prod_unfold Let_def)
qed

definition reserveRef :: "preFilterState \<Rightarrow> string \<Rightarrow> podRef" where
  "reserveRef pf n = \<lparr>QuotaKeyOf = pf_quotaKey pf, SchedKeyOf = pf_schedKey pf, NodeNameOf = n\<rparr>"

lemma Reserve_cases:
  assumes "state_ok s" and "state_small s" and "getPreFilterState cs = Inr pf" and "pf_policy pf = Some pol"
  shows "Reserve lib pl cs p n now s =
    (let domain = computeStableDomain lib p (dep_nodes (sp_deps pl)) in
     if n \<notin> set domain
       then Ret (NewStatus Unschedulable [''ReserveRevalidationFailed: node='' @ n @ '' left the spread domain''], s)
     else if mget (st_resv s) (pod_UID p) = None \<and> fits (pol_Spec pol) s domain n (pf_schedKey pf) (pf_quotaKey pf)
       then Ret (NewStatus Success [],
              s\<lparr>st_resv := mput (st_resv s) (pod_UID p) (newReservation (pod_UID p) (reserveRef pf n) now)\<rparr>)
     else Ret (NewStatus Unschedulable [''ReserveRevalidationFailed: node='' @ n @ '' quota/skew recheck failed''], s))"
  using reserveAdmit_fits [OF assms(1,2,4), of n "computeStableDomain lib p (dep_nodes (sp_deps pl))"] assms(3)
  by (auto simp: Reserve_def Let_def TryReserveChecked_def newReservation_def reserveRef_def)

lemma Reserve_nil_policy:
  assumes "getPreFilterState cs = Inr pf" and "pf_policy pf = None"
  shows "Reserve lib pl cs p n now s = Ret (st, s') \<Longrightarrow> st_Code st \<noteq> Success"
  using assms
  by (auto simp: Reserve_def Let_def TryReserveChecked_def reserveAdmit_def policySpecOf_def NewStatus_def
      case_prod_unfold split: if_splits)

lemma Reserve_Success:
  assumes "state_ok s" and "state_small s" and "Reserve lib pl cs p n now s = Ret (st, s')" and "st_Code st = Success"
  shows "\<exists>pf pol. getPreFilterState cs = Inr pf \<and> pf_policy pf = Some pol \<and>
    mget (st_resv s) (pod_UID p) = None \<and>
    fits (pol_Spec pol) s (computeStableDomain lib p (dep_nodes (sp_deps pl))) n (pf_schedKey pf) (pf_quotaKey pf) \<and>
    s' = s\<lparr>st_resv := mput (st_resv s) (pod_UID p) (newReservation (pod_UID p) (reserveRef pf n) now)\<rparr>"
proof (cases "getPreFilterState cs")
  case (Inl e)
  have "st_Code e = Error"
    using Inl by (auto simp: getPreFilterState_def NewStatus_def split: option.splits stateData.splits)
  then show ?thesis using assms(3,4) Inl by (simp add: Reserve_def)
next
  case (Inr pf)
  show ?thesis
  proof (cases "pf_policy pf")
    case None
    then show ?thesis using Reserve_nil_policy [OF Inr None assms(3)] assms(4) by simp
  next
    case (Some pol)
    then show ?thesis
      using assms(3,4) Inr unfolding Reserve_cases [OF assms(1,2) Inr Some] Let_def
      by (auto simp: NewStatus_def split: if_splits)
  qed
qed

lemma domainCount_after:
  assumes "mget (st_resv s) u = None"
  shows "domainCount (s\<lparr>st_resv := mput (st_resv s) u (newReservation u (reserveRef pf n) now)\<rparr>) n' (pf_schedKey pf) =
     domainCount s n' (pf_schedKey pf) + (if n' = n then 1 else 0)"
  using domainCount_reserve [OF assms, of "reserveRef pf n" now n' "pf_schedKey pf"] by (auto simp: reserveRef_def)

lemma Reserve_limits:
  assumes "state_ok s" and "state_small s" and "Reserve lib pl cs p n now s = Ret (st, s')" and "st_Code st = Success"
    and "getPreFilterState cs = Inr pf" and "pf_policy pf = Some pol"
  shows "int (quotaCount s' n (pf_quotaKey pf)) \<le> sint (pol_MaxPodsPerNode (pol_Spec pol))"
    and "int (card (occupants s' n (pf_quotaKey pf))) \<le> sint (pol_MaxPodsPerNode (pol_Spec pol))"
proof -
  obtain fresh: "mget (st_resv s) (pod_UID p) = None"
    and fits: "fits (pol_Spec pol) s (computeStableDomain lib p (dep_nodes (sp_deps pl))) n (pf_schedKey pf) (pf_quotaKey pf)"
    and s': "s' = s\<lparr>st_resv := mput (st_resv s) (pod_UID p) (newReservation (pod_UID p) (reserveRef pf n) now)\<rparr>"
    using Reserve_Success [OF assms(1-4)] assms(5,6) by auto
  show quota: "int (quotaCount s' n (pf_quotaKey pf)) \<le> sint (pol_MaxPodsPerNode (pol_Spec pol))"
    using quotaCount_reserve [OF fresh, of "reserveRef pf n" now n "pf_quotaKey pf"] fits
    by (simp add: s' reserveRef_def fits_def)
  have "state_ok s'" using assms(1) s' by (simp add: state_ok_def)
  from card_occupants_le [OF this, of n "pf_quotaKey pf"] quota
  show "int (card (occupants s' n (pf_quotaKey pf))) \<le> sint (pol_MaxPodsPerNode (pol_Spec pol))" by simp
qed

lemma minOver_mono:
  assumes "ns \<noteq> []" and "\<And>n. domainCount s n k \<le> domainCount s' n k"
  shows "minOver s k ns \<le> minOver s' k ns"
proof -
  obtain n where "n \<in> set ns" "minOver s' k ns = domainCount s' n k"
    using minOver_attained [OF assms(1)] by blast
  then show ?thesis using minOver_le [of n ns s k] assms(2) [of n] by simp
qed

text \<open>C3: Reserve enforces the policy. When Reserve succeeds, from a well-formed state without counter
  overflow, the chosen node is in the pod's current stable domain; afterwards the service's effective
  count on it is within \<open>maxPodsPerNode\<close>, and so is the number of distinct pods that hold a seat; the
  count of the scheduling domain on it exceeds the minimum over the domain by at most \<open>maxSkew\<close>;
  and a domain that was within \<open>maxSkew\<close> everywhere still is. The state stays well-formed
  and a Reserve that does not succeed changes nothing.\<close>

theorem Reserve_enforces_policy:
  assumes "state_ok s" and "state_small s" and "Reserve lib pl cs p n now s = Ret (st, s')"
    and "domain = computeStableDomain lib p (dep_nodes (sp_deps pl))"
  shows "state_ok s' \<and> st_snap s' = st_snap s \<and>
    (st_Code st \<noteq> Success \<longrightarrow> s' = s) \<and>
    (st_Code st = Success \<longrightarrow>
      (\<exists>pf pol. getPreFilterState cs = Inr pf \<and> pf_policy pf = Some pol \<and> n \<in> set domain \<and>
        int (quotaCount s' n (pf_quotaKey pf)) \<le> sint (pol_MaxPodsPerNode (pol_Spec pol)) \<and>
        int (card (occupants s' n (pf_quotaKey pf))) \<le> sint (pol_MaxPodsPerNode (pol_Spec pol)) \<and>
        int (domainCount s' n (pf_schedKey pf)) - int (minOver s' (pf_schedKey pf) domain) \<le> sint (pol_MaxSkew (pol_Spec pol)) \<and>
        ((\<forall>m \<in> set domain. int (domainCount s m (pf_schedKey pf)) - int (minOver s (pf_schedKey pf) domain)
             \<le> sint (pol_MaxSkew (pol_Spec pol))) \<longrightarrow>
         (\<forall>m \<in> set domain. int (domainCount s' m (pf_schedKey pf)) - int (minOver s' (pf_schedKey pf) domain)
             \<le> sint (pol_MaxSkew (pol_Spec pol))))))"
proof (cases "st_Code st = Success")
  case True
  then obtain pf pol where pf: "getPreFilterState cs = Inr pf" "pf_policy pf = Some pol"
    and fresh: "mget (st_resv s) (pod_UID p) = None"
    and fits: "fits (pol_Spec pol) s domain n (pf_schedKey pf) (pf_quotaKey pf)"
    and s': "s' = s\<lparr>st_resv := mput (st_resv s) (pod_UID p) (newReservation (pod_UID p) (reserveRef pf n) now)\<rparr>"
    using Reserve_Success [OF assms(1-3)] assms(4) by blast
  let ?k = "pf_schedKey pf" and ?q = "pf_quotaKey pf"
  have ok: "state_ok s'" using assms(1) s' by (simp add: state_ok_def)
  have n: "n \<in> set domain" using fits by (simp add: fits_def)
  then have ne: "domain \<noteq> []" by auto
  have d: "domainCount s' m ?k = domainCount s m ?k + (if m = n then 1 else 0)" for m
    by (simp only: s' domainCount_after [OF fresh])
  have min: "minOver s ?k domain \<le> minOver s' ?k domain" by (rule minOver_mono [OF ne]) (simp add: d)
  note limits = Reserve_limits [OF assms(1-3) True pf]
  have skew: "int (domainCount s' n ?k) - int (minOver s' ?k domain) \<le> sint (pol_MaxSkew (pol_Spec pol))"
    using fits min by (simp add: fits_def d)
  have "int (domainCount s' m ?k) - int (minOver s' ?k domain) \<le> sint (pol_MaxSkew (pol_Spec pol))"
    if "int (domainCount s m ?k) - int (minOver s ?k domain) \<le> sint (pol_MaxSkew (pol_Spec pol))" for m
  proof (cases "m = n")
    case True
    then show ?thesis using skew by simp
  next
    case False
    then show ?thesis using that min by (simp add: d)
  qed
  then show ?thesis
    using True ok pf n limits skew s' by auto
next
  case False
  have "s' = s"
    using assms(3) False by (auto simp: Reserve_def Let_def bindOutcome_Ret_iff TryReserveChecked_False
        NewStatus_def split: sum.splits if_splits prod.splits)
  with False assms(1) show ?thesis by simp
qed

definition examplePolicy :: ServiceSpreadPolicy where
  "examplePolicy = \<lparr>pol_Name = ''ssp-web'', pol_Namespace = ''ns1'', pol_Spec =
     \<lparr>pol_SchedulerName = DefaultManagedSchedulerName, pol_ServiceSelector = \<lparr>MatchLabels = [(''app'', ''web'')], LabelExpressions = []\<rparr>,
      pol_MaxSkew = 1, pol_MaxPodsPerNode = 2\<rparr>\<rparr>"

definition examplePlugin :: ServiceSpread where
  "examplePlugin = \<lparr>sp_args = example_args\<lparr>ManagedSchedulerName := DefaultManagedSchedulerName\<rparr>,
     sp_deps = \<lparr>dep_policies = (\<lambda>ns. Inr [examplePolicy]), dep_owners = (\<lambda>u ns refs. True),
       dep_nodes = Inr [Some (example_node ''n1''), Some (example_node ''n2'')], dep_synced = Some True\<rparr>\<rparr>"

definition examplePreFilter :: preFilterState where
  "examplePreFilter = \<lparr>pf_quotaKey = ''q'', pf_schedKey = ''q/d'', pf_policy = Some examplePolicy,
     pf_domainSet = [''n2'', ''n1''], pf_minCount = 0, pf_effDomain = [(''n1'', 0), (''n2'', 0)],
     pf_effQuota = [(''n1'', 0), (''n2'', 0)]\<rparr>"

lemma example_getPreFilterState:
  "getPreFilterState [(preFilterStateKey, PreFilterData (Some pf))] = Inr pf"
  by (simp add: getPreFilterState_def)

lemma example_domain:
  "computeStableDomain example_lib example_pod (dep_nodes (sp_deps examplePlugin)) = [''n2'', ''n1'']"
  by (simp add: computeStableDomain_def examplePlugin_def nodeInStableDomain_def matchesNodeSelector_def
      example_node_def example_lib_def example_pod_def example_spec_def mgets_def requiredTerms_def)

lemma new_counts: "quotaCount newSpreadState n q = 0" "domainCount newSpreadState n k = 0"
  by (simp_all add: quotaCount_def domainCount_def newSpreadState_def emptySnapshot_def)

lemma example_fits: "fits (pol_Spec examplePolicy) newSpreadState [''n2'', ''n1''] ''n1'' k q"
  by (simp add: fits_def new_counts minOver_def examplePolicy_def)

theorem Reserve_enforces_policy_witness:
  "\<exists>s'. Reserve example_lib examplePlugin [(preFilterStateKey, PreFilterData (Some examplePreFilter))] example_pod
       ''n1'' 0 newSpreadState = Ret (NewStatus Success [], s') \<and>
     int (quotaCount s' ''n1'' ''q'') \<le> 2 \<and> int (domainCount s' ''n1'' ''q/d'') - int (minOver s' ''q/d'' [''n2'', ''n1'']) \<le> 1"
proof -
  let ?cs = "[(preFilterStateKey, PreFilterData (Some examplePreFilter))]"
  have pol: "pf_policy examplePreFilter = Some examplePolicy" by (simp add: examplePreFilter_def)
  obtain s' where run: "Reserve example_lib examplePlugin ?cs example_pod ''n1'' 0 newSpreadState = Ret (NewStatus Success [], s')"
    using Reserve_cases [OF new_state_ok example_getPreFilterState pol, of example_lib examplePlugin example_pod "''n1''" 0]
      example_fits [of "pf_schedKey examplePreFilter" "pf_quotaKey examplePreFilter"]
    by (simp add: example_domain Let_def newSpreadState_def)
  from Reserve_enforces_policy [OF new_state_ok this refl] show ?thesis
    unfolding run example_domain
    by (simp add: example_getPreFilterState NewStatus_def examplePreFilter_def examplePolicy_def)
qed

subsection \<open>What PreFilter and Filter decide\<close>

lemma matchLoop_filter:
  "matchLoop sched key v ps ms = ms @ filter (\<lambda>p. pol_SchedulerName (pol_Spec p) = sched \<and>
     selectorMatchesService (pol_ServiceSelector (pol_Spec p)) key v) ps"
  by (induction ps arbitrary: ms) auto

text \<open>The data that a successful PreFilter stores.\<close>

definition preFilterOf :: "k8s_lib \<Rightarrow> ServiceSpread \<Rightarrow> spreadState \<Rightarrow> pod \<Rightarrow> string \<Rightarrow> ServiceSpreadPolicy option \<Rightarrow> preFilterState" where
  "preFilterOf lib pl s p v policy =
     (let q = QuotaKey (pod_Namespace p) (ManagedSchedulerName (sp_args pl)) (ServiceLabelKey (sp_args pl)) v;
          k = SchedKey q (projr (DomainHash p)); D = computeStableDomain lib p (dep_nodes (sp_deps pl))
      in \<lparr>pf_quotaKey = q, pf_schedKey = k, pf_policy = policy, pf_domainSet = D,
          pf_minCount = sentinelMin (\<lambda>n. fst (effCount s n k q)) D (- 1),
          pf_effDomain = fold (\<lambda>n c. mput c n (fst (effCount s n k q))) D [],
          pf_effQuota = fold (\<lambda>n c. mput c n (snd (effCount s n k q))) D []\<rparr>)"

lemma PreFilter_Success:
  assumes "PreFilter lib pl s cs p = Ret (st, cs', inc)" and "st_Code st = Success"
    and "ps_SchedulerName (pod_Spec p) = ManagedSchedulerName (sp_args pl)"
  shows "\<exists>v policy. mget (pod_Labels p) (ServiceLabelKey (sp_args pl)) = Some v \<and>
    dep_owners (sp_deps pl) (pod_UID p) (pod_Namespace p) (pod_OwnerReferences p) \<and>
    fst (resolvePolicy pl (pod_Namespace p) v) = (policy, None) \<and>
    computeStableDomain lib p (dep_nodes (sp_deps pl)) \<noteq> [] \<and>
    getPreFilterState cs' = Inr (preFilterOf lib pl s p v policy)"
proof -
  have fail: "st_Code e \<noteq> Success" if "resolvePolicy pl ns v = ((x, Some e), inc)" for ns v x e inc
    using that by (auto simp: resolvePolicy_def Let_def NewStatus_def split: sum.splits if_splits)
  show ?thesis
    using assms
    by (auto simp: PreFilter_def DomainHash_Inr preFilterLoop_eq preFilterOf_def Let_def getPreFilterState_def NewStatus_def
        split: option.splits if_splits prod.splits dest: fail)
qed

lemma preFilterOf_sel:
  "pf_policy (preFilterOf lib pl s p v policy) = policy"
  "pf_domainSet (preFilterOf lib pl s p v policy) = computeStableDomain lib p (dep_nodes (sp_deps pl))"
  by (simp_all add: preFilterOf_def Let_def)

lemma preFilterOf_counts:
  assumes "pf = preFilterOf lib pl s p v policy" and "n \<in> set (pf_domainSet pf)"
  shows "mget0 (pf_effQuota pf) n = snd (effCount s n (pf_schedKey pf) (pf_quotaKey pf))"
    and "mget0 (pf_effDomain pf) n = fst (effCount s n (pf_schedKey pf) (pf_quotaKey pf))"
    and "pf_minCount pf = sentinelMin (\<lambda>n. fst (effCount s n (pf_schedKey pf) (pf_quotaKey pf))) (pf_domainSet pf) (- 1)"
  using assms by (simp_all add: preFilterOf_def Let_def mget0_def mget_fold_mput)

lemma Filter_decision:
  assumes "state_ok s" and "state_small s" and cs: "getPreFilterState cs = Inr pf"
    and pf: "pf = preFilterOf lib pl s p v (Some pol)"
  shows "Filter cs p' (Some nd) =
    (let n = node_Name nd; D = pf_domainSet pf; k = pf_schedKey pf; q = pf_quotaKey pf; spec = pol_Spec pol;
         rejected = (\<lambda>reason. Ret (NewStatus Unschedulable [reason], [filterRejections ''ServiceSpreadConstraint'']))
     in if n \<notin> set D then rejected (''NodeOutsideSpreadDomain: node='' @ n)
        else if int (quotaCount s n q) + 1 > sint (pol_MaxPodsPerNode spec)
          then rejected (''MaxPodsPerNodeExceeded: node='' @ n @ '' quota='' @ showInt (int (quotaCount s n q)) @ ''/'' @
                 showInt (int (quotaCount s n q) + 1) @ '' limit='' @ showInt (sint (pol_MaxPodsPerNode spec)))
        else if int (domainCount s n k) + 1 - int (minOver s k D) > sint (pol_MaxSkew spec)
          then rejected (''MaxSkewExceeded: node='' @ n @ '' count='' @ showInt (int (domainCount s n k)) @ '' min='' @
                 showInt (int (minOver s k D)) @ '' skew='' @ showInt (int (domainCount s n k) + 1 - int (minOver s k D)) @
                 '' maxSkew='' @ showInt (sint (pol_MaxSkew spec)))
        else Ret (NewStatus Success [], []))"
proof (cases "node_Name nd \<in> set (pf_domainSet pf)")
  case True
  let ?n = "node_Name nd" and ?k = "pf_schedKey pf" and ?q = "pf_quotaKey pf"
  have policy: "pf_policy pf = Some pol" by (simp add: pf preFilterOf_sel)
  have ne: "pf_domainSet pf \<noteq> []" using True by auto
  note [simp] = preFilterOf_counts [OF pf True] sint_quota_plus [OF assms(1,2), of ?n ?k ?q]
    sint_effCount [OF assms(1,2)] sint_skew [OF assms(1,2) True, of ?k ?q] sentinelMin_eff [OF assms(1,2) ne]
  show ?thesis using True by (simp add: Filter_def cs policy policySpecOf_def Let_def)
next
  case False
  then show ?thesis by (simp add: Filter_def cs Let_def)
qed

lemma Filter_Success_iff:
  assumes "state_ok s" and "state_small s" and "getPreFilterState cs = Inr pf"
    and "pf = preFilterOf lib pl s p v (Some pol)"
  shows "(\<exists>st inc. Filter cs p' (Some nd) = Ret (st, inc) \<and> st_Code st = Success) \<longleftrightarrow>
    fits (pol_Spec pol) s (pf_domainSet pf) (node_Name nd) (pf_schedKey pf) (pf_quotaKey pf)"
  unfolding Filter_decision [OF assms] Let_def fits_def by (auto simp: NewStatus_def)


text \<open>C5: Filter and Reserve agree. On the state that PreFilter saw and with the same view of the
  nodes, Reserve of a pod without reservation succeeds on a node exactly when Filter admits the node: the
  recheck inside the critical section rejects only what has changed in between.\<close>

theorem Filter_agrees_with_Reserve:
  assumes "state_ok s" and "state_small s" and "PreFilter lib pl s cs p = Ret (st, cs', inc)" and "st_Code st = Success"
    and "ps_SchedulerName (pod_Spec p) = ManagedSchedulerName (sp_args pl)"
    and "getPreFilterState cs' = Inr pf" and "pf_policy pf = Some pol" and "mget (st_resv s) (pod_UID p) = None"
  shows "(\<exists>stF incF. Filter cs' p (Some nd) = Ret (stF, incF) \<and> st_Code stF = Success) \<longleftrightarrow>
    (\<exists>stR s'. Reserve lib pl cs' p (node_Name nd) now s = Ret (stR, s') \<and> st_Code stR = Success \<and>
       mget (st_resv s') (pod_UID p) =
         Some (newReservation (pod_UID p) \<lparr>QuotaKeyOf = pf_quotaKey pf, SchedKeyOf = pf_schedKey pf, NodeNameOf = node_Name nd\<rparr> now))"
proof -
  obtain v where pf: "pf = preFilterOf lib pl s p v (Some pol)"
    using PreFilter_Success [OF assms(3-5)] assms(6,7) by (auto simp: preFilterOf_sel)
  have D: "pf_domainSet pf = computeStableDomain lib p (dep_nodes (sp_deps pl))" by (simp add: pf preFilterOf_sel)
  show ?thesis
    unfolding Filter_Success_iff [OF assms(1,2,6) pf] Reserve_cases [OF assms(1,2,6,7)] D Let_def
    using assms(8) by (auto simp: NewStatus_def reserveRef_def fits_def)
qed

lemma example_resolve:
  "resolvePolicy examplePlugin ''ns1'' ''web'' = ((Some examplePolicy, None), [])"
  by (simp add: resolvePolicy_def examplePlugin_def example_args_def examplePolicy_def selectorMatchesService_def
      DefaultManagedSchedulerName_def)

lemma example_managed: "ps_SchedulerName (pod_Spec example_pod) = ManagedSchedulerName (sp_args examplePlugin)"
  by (simp add: examplePlugin_def example_pod_def example_spec_def)

lemma example_PreFilter:
  "\<exists>cs'. PreFilter example_lib examplePlugin newSpreadState [] example_pod = Ret (NewStatus Success [], cs', []) \<and>
     getPreFilterState cs' = Inr (preFilterOf example_lib examplePlugin newSpreadState example_pod ''web'' (Some examplePolicy))"
proof -
  have pod: "pod_Labels example_pod = [(''app'', ''web'')]" "pod_Namespace example_pod = ''ns1''"
    by (simp_all add: example_pod_def)
  have pl: "ServiceLabelKey (sp_args examplePlugin) = ''app''" "dep_synced (sp_deps examplePlugin) = Some True"
    "dep_owners (sp_deps examplePlugin) = (\<lambda>u ns refs. True)"
    by (simp_all add: examplePlugin_def example_args_def)
  show ?thesis
    by (simp add: PreFilter_def pl pod example_managed example_resolve example_domain DomainHash_Inr preFilterLoop_eq
        preFilterOf_def getPreFilterState_def Let_def del: fold.simps)
qed

lemma example_Filter_Reserve_facts:
  obtains cs' where "PreFilter example_lib examplePlugin newSpreadState [] example_pod = Ret (NewStatus Success [], cs', [])"
    and "getPreFilterState cs' = Inr (preFilterOf example_lib examplePlugin newSpreadState example_pod ''web'' (Some examplePolicy))"
    and "st_Code (NewStatus Success []) = Success"
    and "pf_policy (preFilterOf example_lib examplePlugin newSpreadState example_pod ''web'' (Some examplePolicy)) = Some examplePolicy"
    and "mget (st_resv newSpreadState) (pod_UID example_pod) = None"
  using example_PreFilter by (auto simp: NewStatus_def preFilterOf_sel newSpreadState_def)


theorem Filter_agrees_with_Reserve_witness:
  "\<exists>cs' stR s'. PreFilter example_lib examplePlugin newSpreadState [] example_pod = Ret (NewStatus Success [], cs', []) \<and>
     ((\<exists>stF incF. Filter cs' example_pod (Some (example_node ''n1'')) = Ret (stF, incF) \<and> st_Code stF = Success) \<longrightarrow>
       Reserve example_lib examplePlugin cs' example_pod ''n1'' 0 newSpreadState = Ret (stR, s') \<and> st_Code stR = Success)"
proof (rule example_Filter_Reserve_facts)
  fix cs'
  assume run: "PreFilter example_lib examplePlugin newSpreadState [] example_pod = Ret (NewStatus Success [], cs', [])"
    and pf: "getPreFilterState cs' = Inr (preFilterOf example_lib examplePlugin newSpreadState example_pod ''web'' (Some examplePolicy))"
    and code: "st_Code (NewStatus Success []) = Success"
    and pol: "pf_policy (preFilterOf example_lib examplePlugin newSpreadState example_pod ''web'' (Some examplePolicy)) = Some examplePolicy"
    and fresh: "mget (st_resv newSpreadState) (pod_UID example_pod) = None"
  have n: "node_Name (example_node ''n1'') = ''n1''" by (simp add: example_node_def)
  show ?thesis
    using Filter_agrees_with_Reserve [OF new_state_ok run code example_managed pf pol fresh, of "example_node ''n1''" 0] run
    unfolding n by blast
qed

subsection \<open>Policy resolution and the missing policy\<close>

text \<open>The policy of a service. \<open>resolvePolicy\<close> returns a policy exactly when one and only one policy of the
  namespace names the managed scheduler and selects the service by its single label; with several it is
  ambiguous and with none it is not found, both unresolvable, unless policies are not required; a
  selector with expressions or with more than one label never matches.\<close>

theorem resolvePolicy_spec:
  assumes "dep_policies (sp_deps pl) ns = Inr policies"
    and "matching = filter (\<lambda>p. pol_SchedulerName (pol_Spec p) = ManagedSchedulerName (sp_args pl) \<and>
        LabelExpressions (pol_ServiceSelector (pol_Spec p)) = [] \<and>
        MatchLabels (pol_ServiceSelector (pol_Spec p)) = [(ServiceLabelKey (sp_args pl), v)]) policies"
  shows "(\<forall>p. fst (resolvePolicy pl ns v) = (Some p, None) \<longleftrightarrow> matching = [p]) \<and>
    (fst (resolvePolicy pl ns v) = (None, None) \<longleftrightarrow> matching = [] \<and> RequirePolicy (sp_args pl) = Some False) \<and>
    (\<forall>st. fst (resolvePolicy pl ns v) = (None, Some st) \<longrightarrow> st_Code st = UnschedulableAndUnresolvable) \<and>
    (snd (resolvePolicy pl ns v) = [policyResolutionFailures ''AmbiguousServiceSpreadPolicy''] \<longleftrightarrow> length matching > 1)"
proof -
  have sel: "selectorMatchesService sel key v \<longleftrightarrow> LabelExpressions sel = [] \<and> MatchLabels sel = [(key, v)]" for sel key
    by (cases "MatchLabels sel") (auto simp: selectorMatchesService_def)
  have loop: "matchLoop (ManagedSchedulerName (sp_args pl)) (ServiceLabelKey (sp_args pl)) v policies [] = matching"
    by (simp add: matchLoop_filter sel assms(2))
  consider "matching = []" | p where "matching = [p]" | "length matching > 1"
    by (cases matching; cases "tl matching") auto
  then show ?thesis
    by cases (auto simp: resolvePolicy_def assms(1) loop Let_def NewStatus_def policyResolutionFailures_def
        split: option.splits if_splits)
qed

theorem resolvePolicy_spec_witness: "fst (resolvePolicy examplePlugin ''ns1'' ''web'') = (Some examplePolicy, None)"
proof -
  have "dep_policies (sp_deps examplePlugin) ''ns1'' = Inr [examplePolicy]" by (simp add: examplePlugin_def)
  from resolvePolicy_spec [OF this refl, of "''web''"] show ?thesis
    by (simp add: examplePlugin_def examplePolicy_def example_args_def)
qed

text \<open>Without a policy the plugin crashes. With \<open>requirePolicy: false\<close>, a managed pod that no policy selects
  passes PreFilter; then Filter panics on every node of its domain, and Reserve would as well: the nil policy
  is dereferenced.\<close>

theorem optional_policy_panics:
  assumes "dep_synced (sp_deps pl) = Some True" and "RequirePolicy (sp_args pl) = Some False"
    and "dep_policies (sp_deps pl) (pod_Namespace p) = Inr []"
    and "ps_SchedulerName (pod_Spec p) = ManagedSchedulerName (sp_args pl)"
    and "mget (pod_Labels p) (ServiceLabelKey (sp_args pl)) = Some v"
    and "dep_owners (sp_deps pl) (pod_UID p) (pod_Namespace p) (pod_OwnerReferences p)"
    and "node_Name nd \<in> set (computeStableDomain lib p (dep_nodes (sp_deps pl)))"
    and "mget (st_resv s) (pod_UID p) = None"
  shows "\<exists>cs'. PreFilter lib pl s cs p = Ret (NewStatus Success [], cs', []) \<and>
    Filter cs' p (Some nd) = Panic ''nil pointer dereference'' \<and>
    Reserve lib pl cs' p (node_Name nd) now s = Panic ''nil pointer dereference''"
proof -
  let ?D = "computeStableDomain lib p (dep_nodes (sp_deps pl))"
  let ?pf = "preFilterOf lib pl s p v None"
  have res: "resolvePolicy pl (pod_Namespace p) v = ((None, None), [])"
    by (simp add: resolvePolicy_def assms(2,3))
  have ne: "?D \<noteq> []" using assms(7) by auto
  let ?cs = "mput cs preFilterStateKey (PreFilterData (Some ?pf))"
  have run: "PreFilter lib pl s cs p = Ret (NewStatus Success [], ?cs, [])"
    using ne assms by (simp add: PreFilter_def res DomainHash_Inr preFilterLoop_eq preFilterOf_def Let_def)
  have get: "getPreFilterState ?cs = Inr ?pf" by (simp add: getPreFilterState_def)
  have "Filter ?cs p (Some nd) = Panic ''nil pointer dereference''"
    using assms(7) by (simp add: Filter_def get preFilterOf_sel policySpecOf_def)
  moreover have "Reserve lib pl ?cs p (node_Name nd) now s = Panic ''nil pointer dereference''"
    using assms(7,8) by (simp add: Reserve_def get TryReserveChecked_def reserveAdmit_def preFilterOf_sel policySpecOf_def
        case_prod_unfold)
  ultimately show ?thesis using run by blast
qed

definition optionalPlugin :: ServiceSpread where
  "optionalPlugin = examplePlugin\<lparr>sp_args := (sp_args examplePlugin)\<lparr>RequirePolicy := Some False\<rparr>,
     sp_deps := (sp_deps examplePlugin)\<lparr>dep_policies := (\<lambda>ns. Inr [])\<rparr>\<rparr>"

theorem optional_policy_panics_witness:
  "\<exists>cs'. PreFilter example_lib optionalPlugin newSpreadState [] example_pod = Ret (NewStatus Success [], cs', []) \<and>
     Filter cs' example_pod (Some (example_node ''n1'')) = Panic ''nil pointer dereference''"
proof -
  have nodes: "dep_nodes (sp_deps optionalPlugin) = dep_nodes (sp_deps examplePlugin)" by (simp add: optionalPlugin_def)
  have "node_Name (example_node ''n1'') \<in> set (computeStableDomain example_lib example_pod (dep_nodes (sp_deps optionalPlugin)))"
    unfolding nodes example_domain by (simp add: example_node_def)
  then have "\<exists>cs'. PreFilter example_lib optionalPlugin newSpreadState [] example_pod = Ret (NewStatus Success [], cs', []) \<and>
     Filter cs' example_pod (Some (example_node ''n1'')) = Panic ''nil pointer dereference'' \<and>
     Reserve example_lib optionalPlugin cs' example_pod (node_Name (example_node ''n1'')) 0 newSpreadState = Panic ''nil pointer dereference''"
    by (intro optional_policy_panics [where v = "''web''"])
      (simp_all add: optionalPlugin_def examplePlugin_def example_args_def example_pod_def example_spec_def newSpreadState_def)
  then show ?thesis by blast
qed

subsection \<open>Scoring\<close>

lemma extremaLoop_eq:
  "extremaLoop eff ns (a, b) =
     (sentinelMin (\<lambda>n. mget0 eff (node_Name n)) ns a,
      fold (\<lambda>n m. if sint (mget0 eff (node_Name n)) > sint m then mget0 eff (node_Name n) else m) ns b)"
  by (induction ns arbitrary: a b) (auto simp: sentinelMin_def Let_def)

lemma fold_max:
  "sint (fold (\<lambda>n m. if sint (f n) > sint m then f n else m) ns (b :: int32)) =
     Max (insert (sint b) ((\<lambda>n. sint (f n :: int32)) ` set ns))"
proof (induction ns arbitrary: b)
  case (Cons n ns)
  then show ?case by (cases "ns = []") (auto simp: max_def)
qed simp

lemma sint64_small: "0 \<le> i \<Longrightarrow> i < 2 ^ 63 \<Longrightarrow> sint (word_of_int i :: int64) = i"
  by (rule sint64_of_int) simp_all

lemma score_value:
  assumes "0 \<le> sint (cmin :: int32)" "sint cmin \<le> sint c" "sint c \<le> sint (cmax :: int32)" "sint cmax < 2 ^ 31 - 1"
    and "0 \<le> sint (M :: int64)" "sint M \<le> 2 ^ 31"
  shows "\<exists>w. div64 (int64_of_int32 (cmax - c) * M) (int64_of_int32 (cmax - cmin + 1)) = Ret w \<and>
     sint w = (sint cmax - sint c) * sint M div (sint cmax - sint cmin + 1)"
proof -
  have diff: "sint (cmax - c) = sint cmax - sint c" "sint (cmax - cmin) = sint cmax - sint cmin"
    using assms by (subst sint32_diff; simp)+
  have span: "sint (cmax - cmin + 1) = sint cmax - sint cmin + 1"
    using assms diff(2) by (subst sint32_add) simp_all
  have le: "(sint cmax - sint c) * sint M \<le> 2 ^ 31 * 2 ^ 31"
    using assms by (intro mult_mono) simp_all
  have "int64_of_int32 (cmax - c) * M = word_of_int ((sint cmax - sint c) * sint M)"
    by (simp add: int64_of_int32_def diff)
  then have prod: "sint (int64_of_int32 (cmax - c) * M) = (sint cmax - sint c) * sint M"
    using sint64_small [of "(sint cmax - sint c) * sint M"] le assms by simp
  have den: "sint (int64_of_int32 (cmax - cmin + 1)) = sint cmax - sint cmin + 1"
    using assms unfolding int64_of_int32_def span by (intro sint64_small) simp_all
  then have nz: "int64_of_int32 (cmax - cmin + 1) \<noteq> 0" using assms by auto
  let ?i = "(sint cmax - sint c) * sint M div (sint cmax - sint cmin + 1)"
  have "?i \<le> (sint cmax - sint c) * sint M"
    using zdiv_mono2 [of "(sint cmax - sint c) * sint M" 1 "sint cmax - sint cmin + 1"] assms by simp
  then have "?i < 2 ^ 63" using le by simp
  moreover have "0 \<le> ?i" using assms by (intro pos_imp_zdiv_nonneg_iff [THEN iffD2]) simp_all
  ultimately have "sint (word_of_int ?i :: int64) = ?i" by (intro sint64_small)
  then show ?thesis
    using nz assms by (simp add: div64_def prod den go_div_nonneg)
qed

lemma score_order:
  fixes d e M n :: int
  assumes "0 \<le> d" "d \<le> e" "e < n" "0 \<le> M"
  shows "0 \<le> d * M div n" "e * M div n \<le> M" "d * M div n \<le> e * M div n"
    and "d < e \<Longrightarrow> n \<le> M \<Longrightarrow> d * M div n < e * M div n"
proof -
  have n: "0 < n" using assms by simp
  show "0 \<le> d * M div n" using assms n by (simp add: pos_imp_zdiv_nonneg_iff)
  have "e * M \<le> n * M" using assms by (intro mult_right_mono) simp_all
  then have "e * M div n \<le> n * M div n" using n by (intro zdiv_mono1)
  then show "e * M div n \<le> M" using n by simp
  have "d * M \<le> e * M" using assms by (intro mult_right_mono) simp_all
  then show "d * M div n \<le> e * M div n" using n by (intro zdiv_mono1)
  assume "d < e" "n \<le> M"
  then have "(d + 1) * M \<le> e * M" using assms by (intro mult_right_mono) simp_all
  then have "d * M + n \<le> e * M" using \<open>n \<le> M\<close> by (simp add: distrib_right)
  then have "(d * M + n) div n \<le> e * M div n" using n by (intro zdiv_mono1)
  moreover have "(d * M + n) div n = d * M div n + 1" using n by (intro div_add_self2) simp
  ultimately show "d * M div n < e * M div n" by simp
qed

lemma keys_differ [simp]: "preFilterStateKey \<noteq> preScoreStateKey" "preScoreStateKey \<noteq> preFilterStateKey"
  by (simp_all add: preFilterStateKey_def preScoreStateKey_def PluginName_def)

lemma PreScore_Success:
  assumes "getPreFilterState cs = Inr pf" and "nodes \<noteq> []"
    and "\<forall>n \<in> set nodes. 0 \<le> sint (mget0 (pf_effDomain pf) (node_Name n))"
  shows "\<exists>ss. PreScore cs p nodes = (NewStatus Success [], mput cs preScoreStateKey (PreScoreData ss)) \<and>
    sc_skip ss = (sc_cmin ss = sc_cmax ss) \<and>
    sint (sc_cmin ss) = Min ((\<lambda>n. sint (mget0 (pf_effDomain pf) (node_Name n))) ` set nodes) \<and>
    sint (sc_cmax ss) = Max ((\<lambda>n. sint (mget0 (pf_effDomain pf) (node_Name n))) ` set nodes)"
proof -
  let ?c = "\<lambda>n. sint (mget0 (pf_effDomain pf) (node_Name n))"
  have max: "Max (insert (sint (- 1 :: int32)) (?c ` set nodes)) = Max (?c ` set nodes)"
  proof -
    obtain n where "n \<in> set nodes" using assms(2) by (cases nodes) auto
    then have "?c n \<le> Max (?c ` set nodes)" "0 \<le> ?c n" using assms(3) by simp_all
    moreover have "Max (insert (sint (- 1 :: int32)) (?c ` set nodes)) = max (- 1) (Max (?c ` set nodes))"
      using assms(2) by (subst Max_insert) simp_all
    ultimately show ?thesis by simp
  qed
  let ?min = "sentinelMin (\<lambda>n. mget0 (pf_effDomain pf) (node_Name n)) nodes (- 1)"
  let ?max = "fold (\<lambda>n m. if sint (mget0 (pf_effDomain pf) (node_Name n)) > sint m then mget0 (pf_effDomain pf) (node_Name n) else m)
    nodes (- 1)"
  have "sint ?max = Max (?c ` set nodes)" by (simp only: fold_max max)
  moreover have "sint ?min = Min (?c ` set nodes)" by (rule sentinelMin_Min [OF assms(2,3)])
  moreover have "PreScore cs p nodes = (NewStatus Success [], mput cs preScoreStateKey
      (PreScoreData \<lparr>sc_skip = (?min = ?max), sc_cmin = ?min, sc_cmax = ?max\<rparr>))"
    using assms(2) by (simp add: PreScore_def assms(1) extremaLoop_eq)
  ultimately show ?thesis
    by (intro exI [of _ "\<lparr>sc_skip = (?min = ?max), sc_cmin = ?min, sc_cmax = ?max\<rparr>"]) simp
qed

lemma Score_formula:
  assumes "getPreFilterState cs = Inr pf" and "nodes \<noteq> []"
    and "\<forall>n \<in> set nodes. 0 \<le> sint (mget0 (pf_effDomain pf) (node_Name n)) \<and> sint (mget0 (pf_effDomain pf) (node_Name n)) < 2 ^ 31 - 1"
    and "0 \<le> sint (lib_MaxNodeScore lib)" "sint (lib_MaxNodeScore lib) \<le> 2 ^ 31"
    and "PreScore cs p nodes = (st, cs')"
  shows "st = NewStatus Success [] \<and> (\<exists>lo \<in> set nodes. \<exists>hi \<in> set nodes. \<exists>score. \<forall>a \<in> set nodes.
    sint (mget0 (pf_effDomain pf) (node_Name lo)) \<le> sint (mget0 (pf_effDomain pf) (node_Name a)) \<and>
    sint (mget0 (pf_effDomain pf) (node_Name a)) \<le> sint (mget0 (pf_effDomain pf) (node_Name hi)) \<and>
    Score lib cs' p (node_Name a) = Ret (score a, NewStatus Success []) \<and>
    sint (score a) = (sint (mget0 (pf_effDomain pf) (node_Name hi)) - sint (mget0 (pf_effDomain pf) (node_Name a))) *
      sint (lib_MaxNodeScore lib) div
      (sint (mget0 (pf_effDomain pf) (node_Name hi)) - sint (mget0 (pf_effDomain pf) (node_Name lo)) + 1))"
proof -
  let ?c = "\<lambda>n. mget0 (pf_effDomain pf) (node_Name n)" and ?M = "lib_MaxNodeScore lib"
  let ?C = "(\<lambda>n. sint (?c n)) ` set nodes"
  obtain ss where ss: "PreScore cs p nodes = (NewStatus Success [], mput cs preScoreStateKey (PreScoreData ss))"
      "sc_skip ss = (sc_cmin ss = sc_cmax ss)" and cmin: "sint (sc_cmin ss) = Min ?C" and cmax: "sint (sc_cmax ss) = Max ?C"
    using PreScore_Success [OF assms(1,2)] assms(3) by meson
  have st: "st = NewStatus Success []" and cs': "cs' = mput cs preScoreStateKey (PreScoreData ss)" using ss(1) assms(6) by simp_all
  have get: "getPreFilterState cs' = Inr pf" "mget cs' preScoreStateKey = Some (PreScoreData ss)"
    using assms(1) by (simp_all add: getPreFilterState_def cs')
  have ne: "?C \<noteq> {}" "finite ?C" using assms(2) by simp_all
  obtain lo hi where lo: "lo \<in> set nodes" "sint (sc_cmin ss) = sint (?c lo)" and hi: "hi \<in> set nodes" "sint (sc_cmax ss) = sint (?c hi)"
    using Min_in [OF ne(2,1)] Max_in [OF ne(2,1)] cmin cmax by auto
  have between: "sint (sc_cmin ss) \<le> sint (?c a)" "sint (?c a) \<le> sint (sc_cmax ss)" if "a \<in> set nodes" for a
    using that by (simp_all add: cmin cmax)
  have bounds: "0 \<le> sint (sc_cmin ss)" "sint (sc_cmax ss) < 2 ^ 31 - 1" using lo hi assms(3) by simp_all
  define score where "score a = (case Score lib cs' p (node_Name a) of Ret (w, x) \<Rightarrow> w | Panic m \<Rightarrow> 0)" for a :: node
  have "Score lib cs' p (node_Name a) = Ret (score a, NewStatus Success []) \<and>
      sint (score a) = (sint (sc_cmax ss) - sint (?c a)) * sint ?M div (sint (sc_cmax ss) - sint (sc_cmin ss) + 1)"
    if "a \<in> set nodes" for a
    using score_value [OF bounds(1) between [OF that] bounds(2) assms(4,5)] between [OF that] ss(2)
    by (cases "sc_cmin ss = sc_cmax ss") (auto simp: score_def Score_def get Let_def)
  then show ?thesis using st lo hi between by metis
qed

text \<open>C14: Scores favour the emptier nodes. For counts that PreFilter recorded and a \<open>MaxNodeScore\<close> of moderate size,
  PreScore succeeds on a non-empty set of feasible nodes and Score then returns for each of them, without
  overflow or division by zero, a value between 0 and \<open>MaxNodeScore\<close>; a node with fewer pods of the
  scheduling domain never scores lower, and scores strictly higher when the spread of the counts is less
  than \<open>MaxNodeScore\<close>.\<close>

theorem Score_favours_emptier_nodes:
  assumes "getPreFilterState cs = Inr pf" and "nodes \<noteq> []"
    and "\<forall>n \<in> set nodes. 0 \<le> sint (mget0 (pf_effDomain pf) (node_Name n)) \<and> sint (mget0 (pf_effDomain pf) (node_Name n)) < 2 ^ 31 - 1"
    and "0 \<le> sint (lib_MaxNodeScore lib)" "sint (lib_MaxNodeScore lib) \<le> 2 ^ 31"
    and "PreScore cs p nodes = (st, cs')"
  shows "st_Code st = Success \<and>
    (\<exists>score. \<forall>a \<in> set nodes. Score lib cs' p (node_Name a) = Ret (score a, NewStatus Success []) \<and>
      0 \<le> sint (score a) \<and> sint (score a) \<le> sint (lib_MaxNodeScore lib) \<and>
      (\<forall>b \<in> set nodes.
        (sint (mget0 (pf_effDomain pf) (node_Name a)) \<le> sint (mget0 (pf_effDomain pf) (node_Name b)) \<longrightarrow>
           sint (score b) \<le> sint (score a)) \<and>
        (sint (mget0 (pf_effDomain pf) (node_Name a)) < sint (mget0 (pf_effDomain pf) (node_Name b)) \<and>
         (\<forall>m \<in> set nodes. \<forall>m' \<in> set nodes. sint (mget0 (pf_effDomain pf) (node_Name m)) - sint (mget0 (pf_effDomain pf) (node_Name m'))
            < sint (lib_MaxNodeScore lib)) \<longrightarrow>
           sint (score b) < sint (score a))))"
proof -
  let ?c = "\<lambda>n. sint (mget0 (pf_effDomain pf) (node_Name n))" and ?M = "sint (lib_MaxNodeScore lib)"
  obtain lo hi score where st: "st = NewStatus Success []" and lohi: "lo \<in> set nodes" "hi \<in> set nodes"
    and all: "\<forall>a \<in> set nodes. ?c lo \<le> ?c a \<and> ?c a \<le> ?c hi \<and>
      Score lib cs' p (node_Name a) = Ret (score a, NewStatus Success []) \<and>
      sint (score a) = (?c hi - ?c a) * ?M div (?c hi - ?c lo + 1)"
    using Score_formula [OF assms] by auto
  have order: "0 \<le> sint (score a)" "sint (score a) \<le> ?M" "?c a \<le> ?c b \<longrightarrow> sint (score b) \<le> sint (score a)"
    "?c a < ?c b \<and> ?c hi - ?c lo + 1 \<le> ?M \<longrightarrow> sint (score b) < sint (score a)"
    if "a \<in> set nodes" "b \<in> set nodes" for a b
    using all [rule_format, OF that(1)] all [rule_format, OF that(2)] assms(4)
      score_order [of "?c hi - ?c a" "?c hi - ?c a" "?c hi - ?c lo + 1" ?M]
      score_order [of "?c hi - ?c b" "?c hi - ?c a" "?c hi - ?c lo + 1" ?M]
    by simp_all
  have "?c hi - ?c lo < ?M" if "\<forall>m \<in> set nodes. \<forall>m' \<in> set nodes. ?c m - ?c m' < ?M"
    using that lohi by blast
  then show ?thesis
    using st all order by (intro conjI exI [of _ score] ballI impI) (auto simp: NewStatus_def)
qed

theorem Score_favours_emptier_nodes_witness:
  "\<exists>score cs'. PreScore [(preFilterStateKey, PreFilterData (Some (examplePreFilter\<lparr>pf_effDomain := [(''n1'', 0), (''n2'', 3)]\<rparr>)))]
       example_pod [example_node ''n1'', example_node ''n2''] = (NewStatus Success [], cs') \<and>
     Score example_lib cs' example_pod ''n1'' = Ret (score (example_node ''n1''), NewStatus Success []) \<and>
     sint (score (example_node ''n2'')) < sint (score (example_node ''n1''))"
proof -
  let ?pf = "examplePreFilter\<lparr>pf_effDomain := [(''n1'', 0), (''n2'', 3)]\<rparr>"
  let ?cs = "[(preFilterStateKey, PreFilterData (Some ?pf))]" and ?nodes = "[example_node ''n1'', example_node ''n2'']"
  have count: "mget0 (pf_effDomain ?pf) (node_Name (example_node ''n1'')) = 0"
    "mget0 (pf_effDomain ?pf) (node_Name (example_node ''n2'')) = 3"
    by (simp_all add: example_node_def mget0_def)
  have M: "sint (lib_MaxNodeScore example_lib) = 100" by (simp add: example_lib_def)
  obtain st cs' where run: "PreScore ?cs example_pod ?nodes = (st, cs')" by (cases "PreScore ?cs example_pod ?nodes")
  have st: "st = NewStatus Success []"
    using run by (simp add: PreScore_def example_getPreFilterState case_prod_unfold Let_def)
  have hyp: "\<forall>n \<in> set ?nodes. 0 \<le> sint (mget0 (pf_effDomain ?pf) (node_Name n)) \<and> sint (mget0 (pf_effDomain ?pf) (node_Name n)) < 2 ^ 31 - 1"
    using count by simp
  have "?nodes \<noteq> []" "0 \<le> sint (lib_MaxNodeScore example_lib)" "sint (lib_MaxNodeScore example_lib) \<le> 2 ^ 31" by (simp_all add: M)
  then obtain score where all: "\<forall>a \<in> set ?nodes. Score example_lib cs' example_pod (node_Name a) = Ret (score a, NewStatus Success []) \<and>
      (\<forall>b \<in> set ?nodes. sint (mget0 (pf_effDomain ?pf) (node_Name a)) < sint (mget0 (pf_effDomain ?pf) (node_Name b)) \<and>
         (\<forall>m \<in> set ?nodes. \<forall>m' \<in> set ?nodes. sint (mget0 (pf_effDomain ?pf) (node_Name m)) - sint (mget0 (pf_effDomain ?pf) (node_Name m'))
            < sint (lib_MaxNodeScore example_lib)) \<longrightarrow>
           sint (score b) < sint (score a))"
    using Score_favours_emptier_nodes [OF example_getPreFilterState _ hyp _ _ run] by blast
  have small: "\<forall>m \<in> set ?nodes. \<forall>m' \<in> set ?nodes. sint (mget0 (pf_effDomain ?pf) (node_Name m)) - sint (mget0 (pf_effDomain ?pf) (node_Name m'))
      < sint (lib_MaxNodeScore example_lib)"
    using count M by simp
  have "sint (score (example_node ''n2'')) < sint (score (example_node ''n1''))"
    using all small count by simp
  moreover have "Score example_lib cs' example_pod (node_Name (example_node ''n1'')) = Ret (score (example_node ''n1''), NewStatus Success [])"
    using all by simp
  ultimately show ?thesis using run st by (auto simp: example_node_def)
qed

end
