(* ===== verification/Enqueue.thy ===== *)
theory Enqueue
  imports Plugin
begin

section \<open>Queueing hints\<close>

text \<open>
  \<open>internal/spread/enqueue.go\<close>: the events for which pending pods are retried, and the hints that decide whether
  an event can make a given pod schedulable. Access to unstructured objects belongs to apimachinery: the record
  \<open>unstructured_lib\<close> holds \<open>NestedString\<close> and \<open>NestedStringMap\<close>, applied to the object's \<open>spec\<close> map.
\<close>

datatype queueingHint = QueueSkip | QueueAfterBackoff

record 'm unstructured =
  un_Namespace :: string
  un_Spec :: "'m option"

record 'm unstructured_lib =
  NestedString :: "'m \<Rightarrow> string list \<Rightarrow> string"
  NestedStringMap :: "'m \<Rightarrow> string list \<Rightarrow> (string, string) gomap option"

text \<open>The dynamic types of a hint object: \<open>NilObj\<close> is the nil interface, \<open>MetaObj\<close> any other object with metadata
  (its namespace), \<open>RuntimeObj\<close> a \<open>runtime.Object\<close> without metadata.\<close>

datatype 'm hintObj = NilObj | HintPod pod | UnstructuredObj "'m unstructured" | MetaObj string | RuntimeObj | UnknownObj

definition objPod :: "'m hintObj \<Rightarrow> pod option" where
  "objPod ob = (case ob of HintPod p \<Rightarrow> Some p | _ \<Rightarrow> None)"

definition podHint :: "ServiceSpread \<Rightarrow> pod option \<Rightarrow> 'm hintObj \<Rightarrow> 'm hintObj \<Rightarrow> queueingHint" where
  "podHint pl p oldObj newObj =
     (let evtPod = (case objPod newObj of None \<Rightarrow> objPod oldObj | Some e \<Rightarrow> Some e)
      in case (evtPod, p) of
           (Some e, Some pend) \<Rightarrow>
             if ps_SchedulerName (pod_Spec e) \<noteq> ManagedSchedulerName (sp_args pl) then QueueSkip
             else (case PodRefFor e (ManagedSchedulerName (sp_args pl)) (ServiceLabelKey (sp_args pl)) of
                     Inl err \<Rightarrow> QueueSkip
                   | Inr ref \<Rightarrow>
                       (case PodRefFor pend (ManagedSchedulerName (sp_args pl)) (ServiceLabelKey (sp_args pl)) of
                          Inl err \<Rightarrow> QueueSkip
                        | Inr podRef \<Rightarrow>
                            if SchedKeyOf ref = SchedKeyOf podRef \<or> QuotaKeyOf ref = QuotaKeyOf podRef
                            then QueueAfterBackoff else QueueSkip))
         | _ \<Rightarrow> QueueAfterBackoff)"

definition policySpec :: "'m unstructured_lib \<Rightarrow> 'm unstructured \<Rightarrow> string \<times> (string, string) gomap option" where
  "policySpec ul u =
     (case un_Spec u of
        None \<Rightarrow> ('''', None)
      | Some spec \<Rightarrow> (NestedString ul spec [''schedulerName''],
                      NestedStringMap ul spec [''serviceSelector'', ''matchLabels'']))"

definition policyHint ::
    "'m unstructured_lib \<Rightarrow> ServiceSpread \<Rightarrow> pod option \<Rightarrow> 'm hintObj \<Rightarrow> 'm hintObj \<Rightarrow> queueingHint" where
  "policyHint ul pl p oldObj newObj =
     (let ob = (case newObj of NilObj \<Rightarrow> oldObj | _ \<Rightarrow> newObj)
      in case (ob, p) of
           (UnstructuredObj u, Some pend) \<Rightarrow>
             if un_Namespace u \<noteq> pod_Namespace pend then QueueSkip
             else (let (schedName, sel) = policySpec ul u
                   in if schedName = '''' then QueueAfterBackoff
                      else (case sel of
                              None \<Rightarrow> QueueAfterBackoff
                            | Some labels \<Rightarrow>
                                if schedName \<noteq> ManagedSchedulerName (sp_args pl) then QueueSkip
                                else (case mget (pod_Labels pend) (ServiceLabelKey (sp_args pl)) of
                                        None \<Rightarrow> QueueSkip
                                      | Some labelValue \<Rightarrow>
                                          if length labels = 1 \<and> mgets labels (ServiceLabelKey (sp_args pl)) = labelValue
                                          then QueueAfterBackoff else QueueSkip)))
         | _ \<Rightarrow> QueueAfterBackoff)"

definition sameNamespaceHint :: "pod option \<Rightarrow> 'm hintObj \<Rightarrow> 'm hintObj \<Rightarrow> queueingHint" where
  "sameNamespaceHint p oldObj newObj =
     (let ob = (case newObj of NilObj \<Rightarrow> oldObj | _ \<Rightarrow> newObj);
          ns = (case ob of
                  UnstructuredObj u \<Rightarrow> Some (un_Namespace u)
                | HintPod q \<Rightarrow> Some (pod_Namespace q)
                | MetaObj n \<Rightarrow> Some n
                | RuntimeObj \<Rightarrow> Some ''''
                | _ \<Rightarrow> None)
      in case ns of
           None \<Rightarrow> QueueAfterBackoff
         | Some n \<Rightarrow>
             (case p of
                None \<Rightarrow> QueueAfterBackoff
              | Some pend \<Rightarrow>
                  if n = '''' then QueueAfterBackoff
                  else if n = pod_Namespace pend then QueueAfterBackoff else QueueSkip))"

datatype hintFn = PodHint | PolicyHint | SameNamespaceHint | NoHint

datatype actionType = Add | Update | Delete

text \<open>The resources, written as plural, version and group.\<close>

definition policyEventGVK :: string where
  "policyEventGVK = gvr_Resource policyGVR @ ''.'' @ gvr_Version policyGVR @ ''.'' @ gvr_Group policyGVR"

definition replicaSetEventGVK :: string where
  "replicaSetEventGVK = ''replicasets.v1.apps''"

definition deploymentEventGVK :: string where
  "deploymentEventGVK = ''deployments.v1.apps''"

definition EventsToRegister :: "(string \<times> actionType set \<times> hintFn) list" where
  "EventsToRegister =
     [(''Pod'', {Add, Update, Delete}, PodHint),
      (''Node'', {Add, Update, Delete}, NoHint),
      (policyEventGVK, {Add, Update, Delete}, PolicyHint),
      (replicaSetEventGVK, {Add, Update, Delete}, SameNamespaceHint),
      (deploymentEventGVK, {Add, Update, Delete}, SameNamespaceHint)]"

subsection \<open>Which pods are woken\<close>

lemma podHint_cases:
  assumes "PodRefFor pend (ManagedSchedulerName (sp_args pl)) (ServiceLabelKey (sp_args pl)) = Inr pr"
  shows "podHint pl (Some pend) old (HintPod e) = QueueAfterBackoff \<longleftrightarrow>
    ps_SchedulerName (pod_Spec e) = ManagedSchedulerName (sp_args pl) \<and>
    (\<exists>ref. PodRefFor e (ManagedSchedulerName (sp_args pl)) (ServiceLabelKey (sp_args pl)) = Inr ref \<and>
       QuotaKeyOf ref = QuotaKeyOf pr)"
proof (cases "PodRefFor e (ManagedSchedulerName (sp_args pl)) (ServiceLabelKey (sp_args pl))")
  case (Inl err)
  then show ?thesis by (simp add: podHint_def objPod_def)
next
  case (Inr ref)
  have "SchedKeyOf ref = SchedKeyOf pr \<Longrightarrow> QuotaKeyOf ref = QuotaKeyOf pr"
    by (rule PodRefFor_schedKey_quotaKey [OF Inr assms])
  then show ?thesis using Inr assms by (auto simp: podHint_def objPod_def)
qed

text \<open>The quota key under which an event's pod is seen.\<close>

definition serviceOf :: "ServiceSpreadArgs \<Rightarrow> pod \<Rightarrow> string" where
  "serviceOf args e =
     (if ps_SchedulerName (pod_Spec e) = ManagedSchedulerName args then
        (case PodRefFor e (ManagedSchedulerName args) (ServiceLabelKey args) of Inl err \<Rightarrow> '''' | Inr ref \<Rightarrow> QuotaKeyOf ref)
      else '''')"

lemma QuotaKey_nonempty: "QuotaKey ns s k v \<noteq> ''''"
  by (simp add: QuotaKey_def)

lemma podHint_serviceOf:
  assumes "PodRefFor pend (ManagedSchedulerName (sp_args pl)) (ServiceLabelKey (sp_args pl)) = Inr pr"
  shows "podHint pl (Some pend) old (HintPod e) = QueueAfterBackoff \<longleftrightarrow> serviceOf (sp_args pl) e = QuotaKeyOf pr"
proof -
  have "QuotaKeyOf pr \<noteq> ''''" using assms by (auto simp: PodRefFor_Inr QuotaKey_nonempty)
  then show ?thesis
    by (cases "PodRefFor e (ManagedSchedulerName (sp_args pl)) (ServiceLabelKey (sp_args pl))")
      (auto simp: podHint_cases [OF assms] serviceOf_def)
qed

lemma onPodEvent_ref:
  "\<exists>ref. onPodEvent args e s = OnPodAddOrUpdate e ref s \<and> QuotaKeyOf ref = serviceOf args e"
  by (auto simp: onPodEvent_def serviceOf_def emptyRef_def split: sum.splits)

lemma quotaCount_other_service:
  assumes "state_ok s" and "state_ok s'"
    and pods: "\<And>v. v \<noteq> u \<Longrightarrow> mget (snap_pods (st_snap s')) v = mget (snap_pods (st_snap s)) v"
      "\<And>ref. mget (snap_pods (st_snap s)) u = Some ref \<or> mget (snap_pods (st_snap s')) u = Some ref \<Longrightarrow> QuotaKeyOf ref \<noteq> q"
    and resv: "\<And>v. v \<noteq> u \<Longrightarrow> mget (st_resv s') v = mget (st_resv s) v"
      "\<And>r. mget (st_resv s) u = Some r \<or> mget (st_resv s') u = Some r \<Longrightarrow> rsv_QuotaKey r \<noteq> q"
  shows "quotaCount s' n q = quotaCount s n q"
proof -
  have "{v. \<exists>ref. mget (snap_pods (st_snap s')) v = Some ref \<and> quotaAt n q ref} =
      {v. \<exists>ref. mget (snap_pods (st_snap s)) v = Some ref \<and> quotaAt n q ref}"
    using pods by (intro Collect_cong) metis
  moreover have "{v. \<exists>r. mget (st_resv s') v = Some r \<and> resvQuotaAt n q r} =
      {v. \<exists>r. mget (st_resv s) v = Some r \<and> resvQuotaAt n q r}"
    using resv by (intro Collect_cong) metis
  ultimately show ?thesis by (simp only: quotaCount_card [OF assms(1)] quotaCount_card [OF assms(2)])
qed

text \<open>C33: No wake-up is lost while pods keep their service. When an Add, Update or Delete of a pod changes the
  effective count of the pending pod's service on some node, the hint queues the pending pod, provided that
  the counts and the reservation held for the event's pod are under the service it has now.\<close>

theorem podHint_wakes:
  fixes oldObj :: "'m hintObj"
  assumes "state_ok s" and "state_small s"
    and "PodRefFor pend (ManagedSchedulerName (sp_args pl)) (ServiceLabelKey (sp_args pl)) = Inr pr"
    and "\<forall>ref. mget (snap_pods (st_snap s)) (pod_UID e) = Some ref \<longrightarrow> QuotaKeyOf ref = serviceOf (sp_args pl) e"
    and "\<forall>r. mget (st_resv s) (pod_UID e) = Some r \<longrightarrow> rsv_QuotaKey r = serviceOf (sp_args pl) e"
    and "ev \<in> {AddFunc (PodObj e), UpdateFunc old (PodObj e), DeleteFunc (PodObj e)}"
    and "quotaCount (podHandler (sp_args pl) ev s) n (QuotaKeyOf pr) \<noteq> quotaCount s n (QuotaKeyOf pr)"
  shows "podHint pl (Some pend) oldObj (HintPod e) = QueueAfterBackoff \<and>
    podHint pl (Some pend) (HintPod e) (NilObj :: 'm hintObj) = QueueAfterBackoff"
proof -
  have "serviceOf (sp_args pl) e = QuotaKeyOf pr"
  proof (rule ccontr)
    assume other: "serviceOf (sp_args pl) e \<noteq> QuotaKeyOf pr"
    obtain ref where ref: "onPodEvent (sp_args pl) e s = OnPodAddOrUpdate e ref s" "QuotaKeyOf ref = serviceOf (sp_args pl) e"
      using onPodEvent_ref by blast
    have "quotaCount (OnPodAddOrUpdate e ref s) n (QuotaKeyOf pr) = quotaCount s n (QuotaKeyOf pr)"
    proof (rule quotaCount_other_service [where u = "pod_UID e"])
      show "state_ok s" "state_ok (OnPodAddOrUpdate e ref s)" by (rule assms(1), rule state_ok_events [OF assms(1,2)])
      fix r
      show "QuotaKeyOf r \<noteq> QuotaKeyOf pr"
        if "mget (snap_pods (st_snap s)) (pod_UID e) = Some r \<or> mget (snap_pods (st_snap (OnPodAddOrUpdate e ref s))) (pod_UID e) = Some r"
        using that other ref(2) assms(4) by (simp add: pods_OnPodAddOrUpdate [OF assms(1)] split: if_splits) metis+
    next
      fix r
      have sub: "mget (st_resv s) (pod_UID e) = Some r" if "mget (st_resv (OnPodAddOrUpdate e ref s)) (pod_UID e) = Some r"
        using that by (simp add: resv_OnPodAddOrUpdate [OF assms(1)] split: option.splits if_splits)
      show "rsv_QuotaKey r \<noteq> QuotaKeyOf pr"
        if "mget (st_resv s) (pod_UID e) = Some r \<or> mget (st_resv (OnPodAddOrUpdate e ref s)) (pod_UID e) = Some r"
        using that sub other assms(5) by metis
    qed (simp_all add: pods_OnPodAddOrUpdate [OF assms(1)] resv_OnPodAddOrUpdate [OF assms(1)] split: option.split)
    moreover have "quotaCount (OnPodDelete (pod_UID e) s) n (QuotaKeyOf pr) = quotaCount s n (QuotaKeyOf pr)"
    proof (rule quotaCount_other_service [where u = "pod_UID e"])
      show "state_ok s" "state_ok (OnPodDelete (pod_UID e) s)" by (rule assms(1), rule state_ok_events [OF assms(1,2)])
    qed (use other assms(4,5) in \<open>auto simp: pods_OnPodDelete [OF assms(1)] resv_OnPodDelete\<close>)

    ultimately show False using assms(6,7) ref(1) by (auto simp: podHandler_def)
  qed
  moreover have "podHint pl (Some pend) (HintPod e) (NilObj :: 'm hintObj) = podHint pl (Some pend) oldObj (HintPod e)"
    by (simp add: podHint_def objPod_def)
  ultimately show ?thesis using podHint_serviceOf [OF assms(3)] by metis
qed

definition servicePod :: "string \<Rightarrow> pod" where
  "servicePod service = example_pod\<lparr>pod_UID := ''u5'', pod_Labels := [(''app'', service)], pod_Phase := ''Running'',
     pod_Spec := example_spec\<lparr>ps_NodeName := ''n1''\<rparr>\<rparr>"

definition serviceRef :: "string \<Rightarrow> podRef" where
  "serviceRef service = projr (PodRefFor (servicePod service) DefaultManagedSchedulerName ''app'')"

lemma plugin_args [simp]:
  "ManagedSchedulerName (sp_args examplePlugin) = DefaultManagedSchedulerName" "ServiceLabelKey (sp_args examplePlugin) = ''app''"
  by (simp_all add: examplePlugin_def example_args_def)

lemma servicePod_ref: "PodRefFor (servicePod v) DefaultManagedSchedulerName ''app'' = Inr (serviceRef v)"
  by (simp add: serviceRef_def PodRefFor_def DomainHash_Inr servicePod_def Let_def)

lemma serviceRef_sel [simp]:
  "QuotaKeyOf (serviceRef v) = QuotaKey ''ns1'' DefaultManagedSchedulerName ''app'' v" "NodeNameOf (serviceRef v) = ''n1''"
  using servicePod_ref [of v] by (auto simp: PodRefFor_Inr servicePod_def example_pod_def)

lemma servicePod_event: "onPodEvent (sp_args examplePlugin) (servicePod v) s = OnPodAddOrUpdate (servicePod v) (serviceRef v) s"
  by (simp add: onPodEvent_def servicePod_ref) (simp add: servicePod_def example_spec_def)

lemma servicePod_countable [simp]: "countablePod (servicePod v)" "pod_UID (servicePod v) = ''u5''"
  by (simp_all add: countablePod_def servicePod_def)

lemma quotaKeys_differ: "QuotaKey ''ns1'' DefaultManagedSchedulerName ''app'' ''web'' \<noteq> QuotaKey ''ns1'' DefaultManagedSchedulerName ''app'' ''api''"
  by (simp add: QuotaKey_def)

lemma quotaCount_single:
  assumes "state_ok s" and "mget (snap_pods (st_snap s)) = [u \<mapsto> ref]" and "st_resv s = []"
  shows "quotaCount s n q = (if quotaAt n q ref then 1 else 0)"
proof -
  have "{v. \<exists>r. (if v = u then Some ref else None) = Some r \<and> quotaAt n q r} = (if quotaAt n q ref then {u} else {})"
    by auto
  then show ?thesis by (simp add: quotaCount_card [OF assms(1)] assms(2,3))
qed

lemma servicePod_state:
  "state_ok (podHandler (sp_args examplePlugin) (AddFunc (PodObj (servicePod v))) newSpreadState)"
  "mget (snap_pods (st_snap (podHandler (sp_args examplePlugin) (AddFunc (PodObj (servicePod v))) newSpreadState))) = [''u5'' \<mapsto> serviceRef v]"
  "st_resv (podHandler (sp_args examplePlugin) (AddFunc (PodObj (servicePod v))) newSpreadState) = []"
  by (simp_all add: podHandler_def servicePod_event state_ok_events new_state_ok pods_OnPodAddOrUpdate [OF new_state_ok(1)])
    (simp_all add: newSpreadState_def emptySnapshot_def OnPodAddOrUpdate_def releaseIfObserved_def fun_eq_iff)

lemma pending_ref:
  "\<exists>pr. PodRefFor example_pod DefaultManagedSchedulerName ''app'' = Inr pr \<and>
     QuotaKeyOf pr = QuotaKey ''ns1'' DefaultManagedSchedulerName ''app'' ''web''"
  by (auto simp: PodRefFor_Inr DomainHash_Inr) (simp_all add: example_pod_def)

theorem podHint_wakes_witness:
  "podHint examplePlugin (Some example_pod) (NilObj :: unit hintObj) (HintPod (servicePod ''web'')) = QueueAfterBackoff"
proof -
  obtain pr where pr: "PodRefFor example_pod DefaultManagedSchedulerName ''app'' = Inr pr"
    "QuotaKeyOf pr = QuotaKey ''ns1'' DefaultManagedSchedulerName ''app'' ''web''"
    using pending_ref by blast
  let ?ev = "AddFunc (PodObj (servicePod ''web''))"
  have "quotaCount (podHandler (sp_args examplePlugin) ?ev newSpreadState) ''n1'' (QuotaKeyOf pr) \<noteq>
      quotaCount newSpreadState ''n1'' (QuotaKeyOf pr)"
    using quotaCount_single [OF servicePod_state] by (simp add: new_counts pr(2))
  moreover have "mget (snap_pods (st_snap newSpreadState)) u = None" "mget (st_resv newSpreadState) u = None" for u
    by (simp_all add: newSpreadState_def emptySnapshot_def)
  ultimately show ?thesis
    using podHint_wakes [OF new_state_ok, of example_pod examplePlugin pr "servicePod ''web''" ?ev OtherObj "''n1''" "NilObj :: unit hintObj"] pr(1)
    by simp
qed

text \<open>A changed label loses a wake-up. When a counted pod of one service is relabelled to another, the Update
  frees its seat of the first service on the node, but the hint looks only at the new version and
  skips the pending pods of the first service.\<close>

theorem relabelled_pod_frees_seat_silently:
  "\<exists>pr s s'. PodRefFor example_pod DefaultManagedSchedulerName ''app'' = Inr pr \<and>
     s = podHandler (sp_args examplePlugin) (AddFunc (PodObj (servicePod ''web''))) newSpreadState \<and>
     s' = podHandler (sp_args examplePlugin) (UpdateFunc (PodObj (servicePod ''web'')) (PodObj (servicePod ''api''))) s \<and>
     quotaCount s ''n1'' (QuotaKeyOf pr) = 1 \<and> quotaCount s' ''n1'' (QuotaKeyOf pr) = 0 \<and>
     podHint examplePlugin (Some example_pod) (HintPod (servicePod ''web'') :: unit hintObj) (HintPod (servicePod ''api'')) = QueueSkip"
proof -
  obtain pr where pr: "PodRefFor example_pod DefaultManagedSchedulerName ''app'' = Inr pr"
    "QuotaKeyOf pr = QuotaKey ''ns1'' DefaultManagedSchedulerName ''app'' ''web''"
    using pending_ref by blast
  let ?s = "podHandler (sp_args examplePlugin) (AddFunc (PodObj (servicePod ''web''))) newSpreadState"
  let ?s' = "podHandler (sp_args examplePlugin) (UpdateFunc (PodObj (servicePod ''web'')) (PodObj (servicePod ''api''))) ?s"
  have s': "?s' = OnPodAddOrUpdate (servicePod ''api'') (serviceRef ''api'') ?s"
    by (simp add: podHandler_def [of _ "UpdateFunc _ _"] servicePod_event)
  have len: "length (snap_pods (st_snap ?s)) \<le> 1"
    using length_pods_event(1) [OF new_state_ok(1), of "servicePod ''web''" "serviceRef ''web''"]
    by (simp add: podHandler_def servicePod_event newSpreadState_def emptySnapshot_def)
  have small: "state_small ?s" using len servicePod_state(3) by (simp add: state_small_def)
  have ok': "state_ok ?s'" unfolding s' by (rule state_ok_events(1) [OF servicePod_state(1) small])
  have pods': "mget (snap_pods (st_snap ?s')) = [''u5'' \<mapsto> serviceRef ''api'']"
    unfolding s' by (simp add: pods_OnPodAddOrUpdate [OF servicePod_state(1)] servicePod_state(2) fun_eq_iff)
  have resv': "st_resv ?s' = []"
    unfolding s' using servicePod_state(3) [of "''web''"] by (simp add: OnPodAddOrUpdate_def releaseIfObserved_def)
  have "serviceOf (sp_args examplePlugin) (servicePod ''api'') \<noteq> QuotaKeyOf pr"
    using quotaKeys_differ by (simp add: serviceOf_def servicePod_ref pr(2)) (simp add: QuotaKey_def)
  then have "podHint examplePlugin (Some example_pod) (HintPod (servicePod ''web'') :: unit hintObj) (HintPod (servicePod ''api''))
      \<noteq> QueueAfterBackoff"
    using podHint_serviceOf [of example_pod examplePlugin pr "HintPod (servicePod ''web'') :: unit hintObj" "servicePod ''api''"] pr(1)
    by simp
  then have hint: "podHint examplePlugin (Some example_pod) (HintPod (servicePod ''web'') :: unit hintObj) (HintPod (servicePod ''api''))
      = QueueSkip"
    using queueingHint.exhaust by blast
  show ?thesis
    using pr hint quotaCount_single [OF servicePod_state, of "''web''" "''n1''" "QuotaKeyOf pr"]
      quotaCount_single [OF ok' pods' resv', of "''n1''" "QuotaKeyOf pr"] quotaKeys_differ
    by (intro exI [of _ pr] exI [of _ ?s] exI [of _ ?s']) auto
qed

subsection \<open>Policies and hints\<close>

text \<open>A policy is what the converter makes of an unstructured object: the same namespace, scheduler name and
  match labels.\<close>

definition converts :: "'m unstructured_lib \<Rightarrow> 'm unstructured \<Rightarrow> ServiceSpreadPolicy \<Rightarrow> bool" where
  "converts ul u pol \<longleftrightarrow> un_Namespace u = pol_Namespace pol \<and>
     (\<exists>spec. un_Spec u = Some spec \<and> NestedString ul spec [''schedulerName''] = pol_SchedulerName (pol_Spec pol) \<and>
        NestedStringMap ul spec [''serviceSelector'', ''matchLabels''] = Some (MatchLabels (pol_ServiceSelector (pol_Spec pol))))"

text \<open>A policy that appears wakes every pod it can serve: whenever \<open>resolvePolicy\<close> would match the new version of
  a policy for a pending pod of its namespace, its Add or Update queues the pod, and so does its
  deletion.\<close>

theorem policyHint_wakes:
  assumes "converts ul u pol" and "pol_Namespace pol = pod_Namespace p"
    and "mget (pod_Labels p) (ServiceLabelKey (sp_args pl)) = Some v"
    and "pol \<in> set (matchLoop (ManagedSchedulerName (sp_args pl)) (ServiceLabelKey (sp_args pl)) v policies [])"
  shows "policyHint ul pl (Some p) old (UnstructuredObj u) = QueueAfterBackoff \<and>
    policyHint ul pl (Some p) (UnstructuredObj u) NilObj = QueueAfterBackoff"
proof -
  have sched: "pol_SchedulerName (pol_Spec pol) = ManagedSchedulerName (sp_args pl)"
    and sel: "selectorMatchesService (pol_ServiceSelector (pol_Spec pol)) (ServiceLabelKey (sp_args pl)) v"
    using assms(4) by (auto simp: matchLoop_filter)
  have labels: "length (MatchLabels (pol_ServiceSelector (pol_Spec pol))) = 1"
    "mgets (MatchLabels (pol_ServiceSelector (pol_Spec pol))) (ServiceLabelKey (sp_args pl)) = v"
    using sel by (auto simp: selectorMatchesService_def mgets_def split: if_splits option.splits)
  show ?thesis
    using assms(1-3) sched labels by (auto simp: converts_def policyHint_def policySpec_def Let_def)
qed

definition example_ul :: "(string \<times> (string, string) gomap) unstructured_lib" where
  "example_ul = \<lparr>NestedString = (\<lambda>m path. fst m), NestedStringMap = (\<lambda>m path. Some (snd m))\<rparr>"

definition unstructuredPolicy :: "string \<Rightarrow> (string \<times> (string, string) gomap) unstructured" where
  "unstructuredPolicy v = \<lparr>un_Namespace = ''ns1'', un_Spec = Some (DefaultManagedSchedulerName, [(''app'', v)])\<rparr>"

theorem policyHint_wakes_witness:
  "policyHint example_ul examplePlugin (Some example_pod) NilObj (UnstructuredObj (unstructuredPolicy ''web'')) = QueueAfterBackoff"
  using policyHint_wakes [of example_ul "unstructuredPolicy ''web''" examplePolicy example_pod examplePlugin "''web''" "[examplePolicy]" NilObj]
  by (simp add: converts_def example_ul_def unstructuredPolicy_def examplePolicy_def example_pod_def selectorMatchesService_def)

definition selecting :: "string \<Rightarrow> ServiceSpreadPolicy" where
  "selecting v = examplePolicy\<lparr>pol_Name := ''ssp-other'', pol_Spec := (pol_Spec examplePolicy)
     \<lparr>pol_ServiceSelector := \<lparr>MatchLabels = [(''app'', v)], LabelExpressions = []\<rparr>\<rparr>\<rparr>"

text \<open>Retargeting a policy can lose a wake-up: when one of two ambiguous policies is changed to another service the
  ambiguity of the first service is resolved, but the hint, which looks only at the new version, skips its
  pending pods.\<close>

theorem retargeted_policy_resolves_silently:
  "st_Code (the (snd (fst (resolvePolicy (examplePlugin\<lparr>sp_deps := (sp_deps examplePlugin)
       \<lparr>dep_policies := (\<lambda>ns. Inr [examplePolicy, selecting ''web''])\<rparr>\<rparr>) ''ns1'' ''web'')))) = UnschedulableAndUnresolvable \<and>
   fst (resolvePolicy (examplePlugin\<lparr>sp_deps := (sp_deps examplePlugin)
       \<lparr>dep_policies := (\<lambda>ns. Inr [examplePolicy, selecting ''api''])\<rparr>\<rparr>) ''ns1'' ''web'') = (Some examplePolicy, None) \<and>
   converts example_ul (unstructuredPolicy ''api'') (selecting ''api'') \<and>
   policyHint example_ul examplePlugin (Some example_pod) (UnstructuredObj (unstructuredPolicy ''web''))
     (UnstructuredObj (unstructuredPolicy ''api'')) = QueueSkip"
  by (simp add: resolvePolicy_def examplePolicy_def selecting_def selectorMatchesService_def examplePlugin_def example_args_def
      NewStatus_def Let_def policyHint_def policySpec_def example_ul_def unstructuredPolicy_def example_pod_def mgets_def
      converts_def DefaultManagedSchedulerName_def)

end
