(* ===== verification/Replica_Target.thy ===== *)
theory Replica_Target
  imports Plugin
begin

section \<open>The replica-target observer\<close>

text \<open>
  \<open>internal/spread/replicatarget.go\<close>: the resolution of a deployment's replica target, the per-service aggregation
  (\<open>Compute\<close>), the capacity deficit, the export into gauges and the observation loop. What listers and the KEDA
  informer answer is an argument; gauges are a map from metric name and label values to the last value set. A nil
  \<open>lastGood\<close> map is \<open>None\<close>.
\<close>

subsection \<open>Data\<close>

datatype targetSource = targetSourceHPA | targetSourceKEDAFallback | targetSourceDeployment
  | targetSourceLastGood | targetSourceFallback

definition sourceName :: "targetSource \<Rightarrow> string" where
  "sourceName s = (case s of
     targetSourceHPA \<Rightarrow> ''hpa'' | targetSourceKEDAFallback \<Rightarrow> ''kedaFallback''
   | targetSourceDeployment \<Rightarrow> ''deployment'' | targetSourceLastGood \<Rightarrow> ''lastGood''
   | targetSourceFallback \<Rightarrow> ''ReplicaTargetFallback'')"

record deploymentTarget =
  dt_value :: int32
  dt_source :: targetSource

record hpa =
  hpa_TargetKind :: string
  hpa_TargetName :: string
  hpa_MaxReplicas :: int32
  hpa_DesiredReplicas :: int32

record deployment =
  dp_Namespace :: string
  dp_Name :: string
  dp_Replicas :: "int32 option"
  dp_TemplateLabels :: "(string, string) gomap"
  dp_TemplateSpec :: podSpec

text \<open>\<open>TargetSource\<close>: HPAs of a deployment; the minimum of the ScaledObject that manages it, if any.\<close>

record TargetSource =
  HPAsFor :: "string \<Rightarrow> string \<Rightarrow> string + hpa list"
  ScaledObjectMinReplicas :: "string \<Rightarrow> string \<Rightarrow> string + int32 option"

record DeploymentDetail =
  dd_Deployment :: string
  dd_Source :: string
  dd_Value :: int32

record DomainSeries =
  se_Namespace :: string
  se_Service :: string
  se_Domain :: string
  se_ReplicaTarget :: int32
  se_ObservedPods :: int32
  se_BoundPods :: int32
  se_FallbackActive :: bool
  se_CapacityDeficit :: int32
  se_NodePods :: "(string, int32) gomap"
  se_TargetDetail :: "DeploymentDetail list"

record ObserverDeps =
  ob_ServiceLabelKey :: string
  ob_Targets :: TargetSource
  ob_Nodes :: "(string + node option list) option"
  ob_Policies :: "(string \<Rightarrow> string + ServiceSpreadPolicy list) option"
  ob_ManagedSchedulerName :: string
  ob_ExportNodePods :: bool
  ob_ExportDetail :: bool

type_synonym lastGoodMap = "(string, deploymentTarget) gomap"

record svcAgg =
  ag_desired :: int32
  ag_observed :: int32
  ag_bound :: int32
  ag_fallback :: bool
  ag_hpaMax :: int32
  ag_deps :: "deployment list"
  ag_detail :: "DeploymentDetail list"
  ag_nodePods :: "(string, int32) gomap"

definition emptyAgg :: svcAgg where
  "emptyAgg = \<lparr>ag_desired = 0, ag_observed = 0, ag_bound = 0, ag_fallback = False, ag_hpaMax = 0,
     ag_deps = [], ag_detail = [], ag_nodePods = []\<rparr>"

subsection \<open>Resolution of one deployment\<close>

definition remember :: "lastGoodMap option \<Rightarrow> string \<Rightarrow> int32 \<Rightarrow> targetSource \<Rightarrow> lastGoodMap option" where
  "remember lastGood key v src = map_option (\<lambda>m. mput m key \<lparr>dt_value = v, dt_source = src\<rparr>) lastGood"

definition maxDesiredOf :: "hpa list \<Rightarrow> int32" where
  "maxDesiredOf hpas = fold (\<lambda>h m. if sint (hpa_DesiredReplicas h) > sint m then hpa_DesiredReplicas h else m) hpas (- 1)"

text \<open>The part after the HPA branch: KEDA, then the last good value, then the deployment's replicas.\<close>

definition resolveWithoutHPA ::
    "deployment \<Rightarrow> TargetSource \<Rightarrow> bool \<Rightarrow> int32 \<Rightarrow> lastGoodMap option \<Rightarrow> (int32 \<times> targetSource) \<times> lastGoodMap option" where
  "resolveWithoutHPA dep src hpaFailed replicas lastGood =
     (let key = dp_Namespace dep @ ''/'' @ dp_Name dep;
          fallback = (if hpaFailed \<and> (case lastGood of None \<Rightarrow> False | Some m \<Rightarrow> mget m key \<noteq> None)
                      then ((dt_value (the (mget (the lastGood) key)), targetSourceLastGood), lastGood)
                      else ((replicas, targetSourceDeployment), remember lastGood key replicas targetSourceDeployment))
      in case ScaledObjectMinReplicas src (dp_Namespace dep) (dp_Name dep) of
           Inr (Some m) \<Rightarrow>
             (let v = (if sint m > sint replicas then m else replicas)
              in ((v, targetSourceKEDAFallback), remember lastGood key v targetSourceKEDAFallback))
         | Inr None \<Rightarrow> fallback
         | Inl soErr \<Rightarrow> fallback)"

definition resolveDeploymentTarget ::
    "deployment \<Rightarrow> TargetSource \<Rightarrow> lastGoodMap option \<Rightarrow> (int32 \<times> targetSource) \<times> lastGoodMap option" where
  "resolveDeploymentTarget dep src lastGood =
     (let key = dp_Namespace dep @ ''/'' @ dp_Name dep;
          replicas = (case dp_Replicas dep of None \<Rightarrow> 0 | Some r \<Rightarrow> r)
      in case HPAsFor src (dp_Namespace dep) (dp_Name dep) of
           Inl hpaErr \<Rightarrow> resolveWithoutHPA dep src True replicas lastGood
         | Inr hpas \<Rightarrow>
             (if length hpas > 0 \<and> sint (maxDesiredOf hpas) \<ge> 0 then
                (let s = (if length hpas > 1 then targetSourceFallback else targetSourceHPA)
                 in ((maxDesiredOf hpas, s), remember lastGood key (maxDesiredOf hpas) s))
              else resolveWithoutHPA dep src False replicas lastGood))"

definition aggregateDomain :: "int32 \<Rightarrow> int32 \<Rightarrow> int32" where
  "aggregateDomain domainDesired observedPods =
     (if sint domainDesired > sint observedPods then domainDesired else observedPods)"

definition capacityDeficit :: "int32 \<Rightarrow> int32 \<Rightarrow> int32 \<Rightarrow> int32" where
  "capacityDeficit hpaMax eligibleNodes maxPodsPerNode =
     (let d = hpaMax - eligibleNodes * maxPodsPerNode in if sint d < 0 then 0 else d)"

subsection \<open>Aggregation\<close>

text \<open>One deployment of the first loop; the accumulator is \<open>(aggs, nsOf, lastGood)\<close>.\<close>

type_synonym computeAcc = "(string, svcAgg) gomap \<times> (string, string) gomap \<times> lastGoodMap option"

definition aggOf :: "(string, svcAgg) gomap \<Rightarrow> string \<Rightarrow> svcAgg" where
  "aggOf aggs key = (case mget aggs key of None \<Rightarrow> emptyAgg | Some a \<Rightarrow> a)"

definition hpaCeiling :: "string + hpa list \<Rightarrow> int32 \<Rightarrow> int32" where
  "hpaCeiling res m0 =
     (case res of
        Inl err \<Rightarrow> m0
      | Inr hpas \<Rightarrow> fold (\<lambda>h m. if sint (hpa_MaxReplicas h) > sint m then hpa_MaxReplicas h else m) hpas m0)"

definition deploymentStep :: "ObserverDeps \<Rightarrow> (string, string) gomap \<Rightarrow> deployment \<Rightarrow> computeAcc \<Rightarrow> computeAcc" where
  "deploymentStep deps svcOf dep acc =
     (let (aggs, nsOf, lastGood) = acc
      in case mget svcOf (dp_Namespace dep @ ''/'' @ dp_Name dep) of
           None \<Rightarrow> acc
         | Some svc \<Rightarrow>
             (let key = dp_Namespace dep @ ''/'' @ svc;
                  nsOf1 = (if mget aggs key = None then mput nsOf key (dp_Namespace dep) else nsOf);
                  a = aggOf aggs key;
                  ((v, src), lastGood1) = resolveDeploymentTarget dep (ob_Targets deps) lastGood
              in (mput aggs key (a\<lparr>
                    ag_desired := ag_desired a + v,
                    ag_fallback := (ag_fallback a \<or> src = targetSourceFallback \<or> src = targetSourceLastGood),
                    ag_hpaMax := hpaCeiling (HPAsFor (ob_Targets deps) (dp_Namespace dep) (dp_Name dep)) (ag_hpaMax a),
                    ag_deps := ag_deps a @ [dep],
                    ag_detail := (if ob_ExportDetail deps
                      then ag_detail a @ [\<lparr>dd_Deployment = dp_Name dep, dd_Source = sourceName src, dd_Value = v\<rparr>]
                      else ag_detail a)\<rparr>),
                  nsOf1, lastGood1)))"

definition podStep :: "ObserverDeps \<Rightarrow> pod \<Rightarrow> (string, svcAgg) gomap \<Rightarrow> (string, svcAgg) gomap" where
  "podStep deps p aggs =
     (if pod_Phase p \<noteq> ''Pending'' \<and> pod_Phase p \<noteq> ''Running'' then aggs
      else case mget (pod_Labels p) (ob_ServiceLabelKey deps) of
             None \<Rightarrow> aggs
           | Some svc \<Rightarrow>
               (let key = pod_Namespace p @ ''/'' @ svc
                in case mget aggs key of
                     None \<Rightarrow> aggs
                   | Some a \<Rightarrow>
                       (let a1 = a\<lparr>ag_observed := ag_observed a + 1\<rparr>;
                            node = ps_NodeName (pod_Spec p);
                            a2 = (if node = '''' then a1
                                  else a1\<lparr>ag_bound := ag_bound a1 + 1,
                                          ag_nodePods := (if ob_ExportNodePods deps
                                            then mput (ag_nodePods a1) node (mget0 (ag_nodePods a1) node + 1)
                                            else ag_nodePods a1)\<rparr>)
                        in mput aggs key a2)))"

text \<open>The unique matching policy; a second match gives up.\<close>

primrec uniquePolicy ::
    "string \<Rightarrow> string \<Rightarrow> string \<Rightarrow> ServiceSpreadPolicy list \<Rightarrow> ServiceSpreadPolicy option \<Rightarrow> ServiceSpreadPolicy option" where
  "uniquePolicy sched key service [] policy = policy"
| "uniquePolicy sched key service (p # ps) policy =
     (if pol_SchedulerName (pol_Spec p) \<noteq> sched then uniquePolicy sched key service ps policy
      else if selectorMatchesService (pol_ServiceSelector (pol_Spec p)) key service
           then (if policy \<noteq> None then None else uniquePolicy sched key service ps (Some p))
           else uniquePolicy sched key service ps policy)"

definition synthPod :: "podSpec \<Rightarrow> pod" where
  "synthPod spec = \<lparr>pod_UID = '''', pod_Name = '''', pod_Namespace = '''', pod_Labels = [], pod_OwnerReferences = [],
     pod_Spec = spec, pod_Phase = ''''\<rparr>"

definition nodeUnion :: "k8s_lib \<Rightarrow> deployment list \<Rightarrow> node option list \<Rightarrow> string list" where
  "nodeUnion lib deps nodes =
     fold (\<lambda>dep union. fold (\<lambda>n u. case n of
         None \<Rightarrow> u
       | Some nd \<Rightarrow> if nodeInStableDomain lib (synthPod (dp_TemplateSpec dep)) n
                    then (if node_Name nd \<in> set u then u else node_Name nd # u) else u) nodes union) deps []"

definition capacityDeficitFor :: "k8s_lib \<Rightarrow> ObserverDeps \<Rightarrow> (string + node option list) \<Rightarrow>
    (string \<Rightarrow> string + ServiceSpreadPolicy list) \<Rightarrow> string \<Rightarrow> string \<Rightarrow> svcAgg \<Rightarrow> int32" where
  "capacityDeficitFor lib deps nodes policies namespace service a =
     (if sint (ag_hpaMax a) \<le> 0 then 0
      else case policies namespace of
             Inl err \<Rightarrow> 0
           | Inr ps \<Rightarrow>
               (case uniquePolicy (ob_ManagedSchedulerName deps) (ob_ServiceLabelKey deps) service ps None of
                  None \<Rightarrow> 0
                | Some policy \<Rightarrow>
                    (case nodes of
                       Inl err \<Rightarrow> 0
                     | Inr ns \<Rightarrow> capacityDeficit (ag_hpaMax a) (of_nat (length (nodeUnion lib (ag_deps a) ns)))
                                   (pol_MaxPodsPerNode (pol_Spec policy)))))"

definition seriesOf :: "k8s_lib \<Rightarrow> ObserverDeps \<Rightarrow> (string, string) gomap \<Rightarrow> string \<times> svcAgg \<Rightarrow> DomainSeries" where
  "seriesOf lib deps nsOf entry =
     (let (key, a) = entry;
          ns = mgets nsOf key;
          svc = drop (length ns + 1) key;
          deficit = (case (ob_Nodes deps, ob_Policies deps) of
             (Some nodes, Some policies) \<Rightarrow> capacityDeficitFor lib deps nodes policies ns svc a | _ \<Rightarrow> 0)
      in \<lparr>se_Namespace = ns, se_Service = svc, se_Domain = ''default'',
          se_ReplicaTarget = aggregateDomain (ag_desired a) (ag_observed a),
          se_ObservedPods = ag_observed a, se_BoundPods = ag_bound a, se_FallbackActive = ag_fallback a,
          se_CapacityDeficit = deficit, se_NodePods = ag_nodePods a, se_TargetDetail = ag_detail a\<rparr>)"

definition Compute :: "k8s_lib \<Rightarrow> ObserverDeps \<Rightarrow> deployment list \<Rightarrow> (string, string) gomap \<Rightarrow> pod list \<Rightarrow>
    lastGoodMap option \<Rightarrow> DomainSeries list \<times> lastGoodMap option" where
  "Compute lib deps deployments svcOf pods lastGood =
     (let (aggs, nsOf, lastGood1) = fold (deploymentStep deps svcOf) deployments ([], [], lastGood);
          aggs1 = fold (podStep deps) pods aggs
      in (map (seriesOf lib deps nsOf) aggs1, lastGood1))"

subsection \<open>Export\<close>

type_synonym gauges = "(string \<times> string list, int) gomap"

definition setGauge :: "string \<Rightarrow> string list \<Rightarrow> int \<Rightarrow> gauges \<Rightarrow> gauges" where
  "setGauge name labels v g = mput g (name, labels) v"

definition exportOne :: "DomainSeries \<Rightarrow> gauges \<Rightarrow> gauges" where
  "exportOne s g =
     (let l = [se_Namespace s, se_Service s, se_Domain s];
          g1 = setGauge ''service_spread_replica_target'' l (sint (se_ReplicaTarget s)) g;
          g2 = setGauge ''service_spread_observed_pods'' l (sint (se_ObservedPods s)) g1;
          g3 = setGauge ''service_spread_bound_pods'' l (sint (se_BoundPods s)) g2;
          g4 = setGauge ''service_spread_fallback_active'' l (if se_FallbackActive s then 1 else 0) g3;
          g5 = (if sint (se_CapacityDeficit s) > 0
                then setGauge ''service_spread_capacity_deficit'' [se_Namespace s, se_Service s] (sint (se_CapacityDeficit s)) g4
                else g4);
          g6 = fold (\<lambda>e. setGauge ''service_spread_node_pods'' (l @ [fst e]) (sint (snd e))) (se_NodePods s) g5
      in fold (\<lambda>d. setGauge ''service_spread_replica_target_detail'' (l @ [dd_Deployment d, dd_Source d]) (sint (dd_Value d)))
           (se_TargetDetail s) g6)"

definition ExportSeries :: "DomainSeries list \<Rightarrow> gauges \<Rightarrow> gauges" where
  "ExportSeries series g = fold exportOne series g"

text \<open>The namespace and the label value of a quota key; \<open>None\<close> when it is malformed.\<close>

definition parseQuotaKey :: "string \<Rightarrow> (string \<times> string) option" where
  "parseQuotaKey qk =
     (case (lastIndexByte qk (CHR ''=''), indexByte qk (CHR ''/'')) of
        (Some eq, Some slash) \<Rightarrow> if slash > eq then None else Some (take slash qk, drop (eq + 1) qk)
      | _ \<Rightarrow> None)"

definition ExportReservations :: "(string, int32) gomap option \<Rightarrow> DomainSeries list \<Rightarrow> gauges \<Rightarrow> gauges" where
  "ExportReservations rc series g =
     (case rc of
        None \<Rightarrow> g
      | Some counts \<Rightarrow>
          (let bySvc = fold (\<lambda>e m. case parseQuotaKey (fst e) of None \<Rightarrow> m | Some k \<Rightarrow> mput m k (snd e)) counts []
           in fold (\<lambda>s. setGauge ''service_spread_reservations'' [se_Namespace s, se_Service s, se_Domain s]
                          (sint (mget0 bySvc (se_Namespace s, se_Service s)))) series g))"

subsection \<open>The production target source\<close>

definition informer_HPAsFor :: "(string \<Rightarrow> string + hpa list) \<Rightarrow> string \<Rightarrow> string \<Rightarrow> string + hpa list" where
  "informer_HPAsFor lister namespace deploymentName =
     (case lister namespace of
        Inl err \<Rightarrow> Inl err
      | Inr all \<Rightarrow> Inr (filter (\<lambda>h. hpa_TargetKind h = ''Deployment'' \<and> hpa_TargetName h = deploymentName) all))"

text \<open>An indexed object: an unstructured ScaledObject, seen through the nested accessors (kind, name and
  \<open>minReplicaCount\<close>, absent or unreadable as \<open>None\<close>), or anything else.\<close>

datatype scaledObj = ScaledObj string string "int64 option" | OtherScaled

primrec scaledLoop :: "string \<Rightarrow> scaledObj list \<Rightarrow> int32 option" where
  "scaledLoop deploymentName [] = None"
| "scaledLoop deploymentName (ob # objs) =
     (case ob of
        OtherScaled \<Rightarrow> scaledLoop deploymentName objs
      | ScaledObj kind name mn \<Rightarrow>
          if kind \<noteq> ''Deployment'' \<or> name \<noteq> deploymentName then scaledLoop deploymentName objs
          else (case mn of
                  None \<Rightarrow> Some 0
                | Some m \<Rightarrow> Some (word_of_int (sint (if sint m < 0 then 0 else m)))))"

definition informer_ScaledObjectMinReplicas ::
    "bool \<Rightarrow> bool option \<Rightarrow> (string \<Rightarrow> string + scaledObj list) \<Rightarrow> string \<Rightarrow> string \<Rightarrow> string + int32 option" where
  "informer_ScaledObjectMinReplicas kedaKnown soSynced byIndex namespace deploymentName =
     (if \<not> kedaKnown then Inr None
      else if soSynced = Some False then Inl ''scaledobject informer not synced (degraded)''
      else case byIndex namespace of
             Inl err \<Rightarrow> Inl (''scaledobject list '' @ namespace @ '': '' @ err)
           | Inr objs \<Rightarrow> Inr (scaledLoop deploymentName objs))"

subsection \<open>The observation loop\<close>

record observerTick =
  ot_deployments :: "string + deployment list"
  ot_pods :: "string + pod list"
  ot_reservations :: "(string, int32) gomap option"

definition serviceMap :: "string \<Rightarrow> deployment list \<Rightarrow> (string, string) gomap" where
  "serviceMap serviceLabelKey deps =
     fold (\<lambda>dep m. case mget (dp_TemplateLabels dep) serviceLabelKey of
         None \<Rightarrow> m | Some v \<Rightarrow> mput m (dp_Namespace dep @ ''/'' @ dp_Name dep) v) deps []"

definition exportCycle :: "k8s_lib \<Rightarrow> ObserverDeps \<Rightarrow> observerTick \<Rightarrow> lastGoodMap option \<times> gauges \<Rightarrow> lastGoodMap option \<times> gauges" where
  "exportCycle lib deps t st =
     (case ot_deployments t of
        Inl err \<Rightarrow> st
      | Inr ds \<Rightarrow>
          (case ot_pods t of
             Inl err \<Rightarrow> st
           | Inr ps \<Rightarrow>
               (let (series, lastGood1) = Compute lib deps ds (serviceMap (ob_ServiceLabelKey deps) ds) ps (fst st)
                in (lastGood1, ExportReservations (ot_reservations t) series (ExportSeries series (snd st))))))"

definition observerInterval :: "duration \<Rightarrow> duration" where
  "observerInterval d = (if d \<le> 0 then 30 * Second else d)"

text \<open>The first cycle runs at once, the others on ticks.\<close>

definition RunObserverLoop :: "k8s_lib \<Rightarrow> ObserverDeps \<Rightarrow> observerTick \<Rightarrow> observerTick list \<Rightarrow> gauges \<Rightarrow> lastGoodMap option \<times> gauges" where
  "RunObserverLoop lib deps first ticks g0 = fold (exportCycle lib deps) ticks (exportCycle lib deps first (Some [], g0))"

subsection \<open>What the series report\<close>

text \<open>The pods that \<open>Compute\<close> attributes to a service key.\<close>

definition podOf :: "ObserverDeps \<Rightarrow> string \<Rightarrow> pod \<Rightarrow> bool" where
  "podOf deps key p \<longleftrightarrow> (pod_Phase p = ''Pending'' \<or> pod_Phase p = ''Running'') \<and>
     (\<exists>svc. mget (pod_Labels p) (ob_ServiceLabelKey deps) = Some svc \<and> pod_Namespace p @ ''/'' @ svc = key)"

abbreviation boundPod :: "pod \<Rightarrow> bool" where
  "boundPod p \<equiv> ps_NodeName (pod_Spec p) \<noteq> ''''"

definition addPods :: "ObserverDeps \<Rightarrow> string \<Rightarrow> pod list \<Rightarrow> svcAgg \<Rightarrow> svcAgg \<Rightarrow> bool" where
  "addPods deps key pods a b \<longleftrightarrow>
     ag_observed b = ag_observed a + of_nat (length (filter (podOf deps key) pods)) \<and>
     ag_bound b = ag_bound a + of_nat (length (filter (\<lambda>p. podOf deps key p \<and> boundPod p) pods)) \<and>
     ag_desired b = ag_desired a"

lemma keys_podStep: "map fst (podStep deps p aggs) = map fst aggs"
proof -
  have "map fst (mput m k v) = map fst m" if "mget m k = Some w" for m :: "(string, svcAgg) gomap" and k v w
    using that by (induction m k v rule: mput.induct) auto
  then show ?thesis by (auto simp: podStep_def Let_def split: option.splits)
qed

lemma podStep_get:
  "mget (podStep deps p aggs) key = (case mget aggs key of None \<Rightarrow> None | Some a \<Rightarrow>
     if podOf deps key p then Some (let a1 = a\<lparr>ag_observed := ag_observed a + 1\<rparr>; node = ps_NodeName (pod_Spec p)
        in if node = '''' then a1 else a1\<lparr>ag_bound := ag_bound a1 + 1,
             ag_nodePods := (if ob_ExportNodePods deps then mput (ag_nodePods a1) node (mget0 (ag_nodePods a1) node + 1)
                             else ag_nodePods a1)\<rparr>)
     else Some a)"
  by (auto simp: podStep_def podOf_def Let_def split: option.splits)

lemma podSteps_get:
  "mget aggs key = Some a \<Longrightarrow> \<exists>b. mget (fold (podStep deps) pods aggs) key = Some b \<and> addPods deps key pods a b"
proof (induction pods arbitrary: aggs a)
  case (Cons p pods)
  have "\<exists>a1. mget (podStep deps p aggs) key = Some a1 \<and> addPods deps key [p] a a1"
    using Cons.prems by (cases "podOf deps key p"; cases "boundPod p") (simp_all add: podStep_get addPods_def Let_def)
  then obtain a1 where a1: "mget (podStep deps p aggs) key = Some a1" and step: "addPods deps key [p] a a1" by blast
  from Cons.IH [OF a1] obtain b where "mget (fold (podStep deps) (p # pods) aggs) key = Some b" "addPods deps key pods a1 b"
    by auto
  then show ?case using step by (auto simp: addPods_def split: if_splits)
qed (simp add: addPods_def)

lemma keys_podSteps: "map fst (fold (podStep deps) pods aggs) = map fst aggs"
  by (induction pods arbitrary: aggs) (simp_all add: keys_podStep)

text \<open>After the deployments: fresh counters, distinct keys, and the namespace of every key is known.\<close>

definition acc_ok :: "computeAcc \<Rightarrow> bool" where
  "acc_ok acc \<longleftrightarrow> wf_gomap (fst acc) \<and>
     (\<forall>key a. mget (fst acc) key = Some a \<longrightarrow> ag_observed a = 0 \<and> ag_bound a = 0 \<and>
        (\<exists>ns svc. mget (fst (snd acc)) key = Some ns \<and> key = ns @ ''/'' @ svc))"

lemma deploymentStep_ok: "acc_ok acc \<Longrightarrow> acc_ok (deploymentStep deps svcOf dep acc)"
proof -
  assume ok: "acc_ok acc"
  obtain aggs nsOf lg where acc: "acc = (aggs, nsOf, lg)" by (cases acc)
  show "acc_ok (deploymentStep deps svcOf dep acc)"
  proof (cases "mget svcOf (dp_Namespace dep @ ''/'' @ dp_Name dep)")
    case None
    then show ?thesis using ok by (simp add: deploymentStep_def acc)
  next
    case (Some svc)
    let ?key = "dp_Namespace dep @ ''/'' @ svc"
    have fresh: "ag_observed (aggOf aggs ?key) = 0" "ag_bound (aggOf aggs ?key) = 0"
      using ok by (auto simp: acc_ok_def acc aggOf_def emptyAgg_def split: option.splits)
    show ?thesis
      using ok Some fresh by (auto simp: deploymentStep_def acc acc_ok_def Let_def case_prod_unfold)
  qed
qed

lemma deploymentSteps_ok: "acc_ok acc \<Longrightarrow> acc_ok (fold (deploymentStep deps svcOf) ds acc)"
  by (induction ds arbitrary: acc) (simp_all add: deploymentStep_ok)

lemma sint_aggregate: "sint (aggregateDomain d ob) = max (sint d) (sint ob)"
  by (simp add: aggregateDomain_def max_def)

lemma Compute_series:
  "distinct (map (\<lambda>s. se_Namespace s @ ''/'' @ se_Service s) (fst (Compute lib deps ds svcOf pods lastGood))) \<and>
     (\<forall>s \<in> set (fst (Compute lib deps ds svcOf pods lastGood)). \<exists>b :: svcAgg.
        ag_observed b = of_nat (length (filter (podOf deps (se_Namespace s @ ''/'' @ se_Service s)) pods)) \<and>
        ag_bound b = of_nat (length (filter (\<lambda>p. podOf deps (se_Namespace s @ ''/'' @ se_Service s) p \<and> boundPod p) pods)) \<and>
        se_ObservedPods s = ag_observed b \<and> se_BoundPods s = ag_bound b \<and>
        se_ReplicaTarget s = aggregateDomain (ag_desired b) (ag_observed b))"
proof -
  obtain aggs nsOf lg where acc: "fold (deploymentStep deps svcOf) ds ([], [], lastGood) = (aggs, nsOf, lg)"
    by (cases "fold (deploymentStep deps svcOf) ds ([], [], lastGood)")
  have ok: "acc_ok (aggs, nsOf, lg)"
    using deploymentSteps_ok [of "([], [], lastGood)" deps svcOf ds] by (simp add: acc acc_ok_def wf_gomap_def)
  let ?aggs = "fold (podStep deps) pods aggs" and ?S = "seriesOf lib deps nsOf"
  have run: "fst (Compute lib deps ds svcOf pods lastGood) = map ?S ?aggs" by (simp add: Compute_def acc Let_def)
  have wf: "distinct (map fst ?aggs)" using ok by (simp add: keys_podSteps acc_ok_def wf_gomap_def)
  have entry: "se_Namespace (?S e) @ ''/'' @ se_Service (?S e) = fst e \<and>
      (\<exists>a. ag_observed a = 0 \<and> ag_bound a = 0 \<and> addPods deps (fst e) pods a (snd e))" if e: "e \<in> set ?aggs" for e
  proof -
    have "fst e \<in> fst ` set aggs" using e keys_podSteps [of deps pods aggs] by (metis image_eqI list.set_map)
    then obtain a where a: "mget aggs (fst e) = Some a" by (metis map_of_eq_None_iff not_None_eq)
    then obtain ns svc where "ag_observed a = 0" "ag_bound a = 0" "mget nsOf (fst e) = Some ns" "fst e = ns @ ''/'' @ svc"
      using ok unfolding acc_ok_def fst_conv snd_conv by blast
    moreover have "mget ?aggs (fst e) = Some (snd e)" using e wf by simp
    ultimately show ?thesis
      using podSteps_get [OF a, of deps pods] by (cases e) (auto simp: seriesOf_def Let_def mgets_def)
  qed
  have "map (\<lambda>s. se_Namespace s @ ''/'' @ se_Service s) (map ?S ?aggs) = map fst ?aggs"
    using entry by (auto simp: comp_def)
  then have "distinct (map (\<lambda>s. se_Namespace s @ ''/'' @ se_Service s) (map ?S ?aggs))" using wf by (simp only:)
  moreover have "\<exists>b :: svcAgg. ag_observed b = of_nat (length (filter (podOf deps (se_Namespace (?S e) @ ''/'' @ se_Service (?S e))) pods)) \<and>
        ag_bound b = of_nat (length (filter (\<lambda>p. podOf deps (se_Namespace (?S e) @ ''/'' @ se_Service (?S e)) p \<and> boundPod p) pods)) \<and>
        se_ObservedPods (?S e) = ag_observed b \<and> se_BoundPods (?S e) = ag_bound b \<and>
        se_ReplicaTarget (?S e) = aggregateDomain (ag_desired b) (ag_observed b)" if "e \<in> set ?aggs" for e
  proof -
    have fields: "se_ObservedPods (?S e) = ag_observed (snd e)" "se_BoundPods (?S e) = ag_bound (snd e)"
      "se_ReplicaTarget (?S e) = aggregateDomain (ag_desired (snd e)) (ag_observed (snd e))"
      by (simp_all add: seriesOf_def Let_def case_prod_unfold)
    note key = conjunct1 [OF entry [OF that]]
    have "ag_observed (snd e) = of_nat (length (filter (podOf deps (fst e)) pods))"
      "ag_bound (snd e) = of_nat (length (filter (\<lambda>p. podOf deps (fst e) p \<and> boundPod p) pods))"
      using conjunct2 [OF entry [OF that]] by (auto simp: addPods_def)
    with fields show ?thesis unfolding key by blast
  qed
  ultimately show ?thesis unfolding run set_map by (simp only: ball_simps simp_thms) blast
qed

text \<open>C36: The exported series count what they claim. Compute reports at most one series per service; its observed and
  bound pods are exactly the pending or running pods of the namespace that carry the service label, and those of
  them with a node; and the reported replica target is never below the observed pods, nor those below the
  bound ones.\<close>

theorem series_counts:
  assumes "length pods < 2 ^ 31"
  shows "distinct (map (\<lambda>s. se_Namespace s @ ''/'' @ se_Service s) (fst (Compute lib deps ds svcOf pods lastGood))) \<and>
    (\<forall>s \<in> set (fst (Compute lib deps ds svcOf pods lastGood)).
       sint (se_ObservedPods s) = int (length (filter (podOf deps (se_Namespace s @ ''/'' @ se_Service s)) pods)) \<and>
       sint (se_BoundPods s) = int (length (filter (\<lambda>p. podOf deps (se_Namespace s @ ''/'' @ se_Service s) p \<and> boundPod p) pods)) \<and>
       0 \<le> sint (se_BoundPods s) \<and> sint (se_BoundPods s) \<le> sint (se_ObservedPods s) \<and>
       sint (se_ObservedPods s) \<le> sint (se_ReplicaTarget s))"
proof (intro conjI ballI)
  let ?series = "fst (Compute lib deps ds svcOf pods lastGood)"
  have all: "\<forall>s \<in> set ?series. \<exists>b :: svcAgg.
        ag_observed b = of_nat (length (filter (podOf deps (se_Namespace s @ ''/'' @ se_Service s)) pods)) \<and>
        ag_bound b = of_nat (length (filter (\<lambda>p. podOf deps (se_Namespace s @ ''/'' @ se_Service s) p \<and> boundPod p) pods)) \<and>
        se_ObservedPods s = ag_observed b \<and> se_BoundPods s = ag_bound b \<and>
        se_ReplicaTarget s = aggregateDomain (ag_desired b) (ag_observed b)"
    by (rule conjunct2 [OF Compute_series])
  show "distinct (map (\<lambda>s. se_Namespace s @ ''/'' @ se_Service s) ?series)" by (rule conjunct1 [OF Compute_series])
  fix s
  assume "s \<in> set ?series"
  let ?P = "podOf deps (se_Namespace s @ ''/'' @ se_Service s)"
  obtain b :: svcAgg where b: "ag_observed b = of_nat (length (filter ?P pods))"
      "ag_bound b = of_nat (length (filter (\<lambda>p. ?P p \<and> boundPod p) pods))"
      "se_ObservedPods s = ag_observed b" "se_BoundPods s = ag_bound b"
      "se_ReplicaTarget s = aggregateDomain (ag_desired b) (ag_observed b)"
    using bspec [OF all \<open>s \<in> set ?series\<close>] by blast
  then have f: "se_ObservedPods s = of_nat (length (filter ?P pods))"
      "se_BoundPods s = of_nat (length (filter (\<lambda>p. ?P p \<and> boundPod p) pods))"
      "se_ReplicaTarget s = aggregateDomain (ag_desired b) (se_ObservedPods s)"
    by simp_all
  have le: "length (filter (\<lambda>p. ?P p \<and> boundPod p) pods) \<le> length (filter ?P pods)"
    using length_filter_le [of boundPod "filter ?P pods"] by (simp add: conj_commute)
  have lt: "length (filter ?P pods) < 2 ^ 31" by (rule le_less_trans [OF length_filter_le assms])
  note sint = sint32_of_nat [OF lt] sint32_of_nat [OF le_less_trans [OF le lt]]
  show "sint (se_ObservedPods s) = int (length (filter ?P pods))"
    "sint (se_BoundPods s) = int (length (filter (\<lambda>p. ?P p \<and> boundPod p) pods))"
    "0 \<le> sint (se_BoundPods s)" "sint (se_BoundPods s) \<le> sint (se_ObservedPods s)"
    using le by (simp_all only: f sint of_nat_0_le_iff of_nat_le_iff)
  show "sint (se_ObservedPods s) \<le> sint (se_ReplicaTarget s)" by (simp only: f(3) sint_aggregate max.cobounded2)
qed

definition noTargets :: TargetSource where
  "noTargets = \<lparr>HPAsFor = (\<lambda>ns d. Inr []), ScaledObjectMinReplicas = (\<lambda>ns d. Inr None)\<rparr>"

definition exampleObserver :: ObserverDeps where
  "exampleObserver = \<lparr>ob_ServiceLabelKey = ''app'', ob_Targets = noTargets, ob_Nodes = None, ob_Policies = None,
     ob_ManagedSchedulerName = DefaultManagedSchedulerName, ob_ExportNodePods = False, ob_ExportDetail = False\<rparr>"

definition exampleDeployment :: deployment where
  "exampleDeployment = \<lparr>dp_Namespace = ''ns1'', dp_Name = ''web'', dp_Replicas = Some 3,
     dp_TemplateLabels = [(''app'', ''web'')], dp_TemplateSpec = example_spec\<rparr>"

theorem series_counts_witness:
  "distinct (map (\<lambda>s. se_Namespace s @ ''/'' @ se_Service s)
     (fst (Compute example_lib exampleObserver [exampleDeployment] [(''ns1/web'', ''web'')] [example_pod] None)))"
proof -
  have "length [example_pod] < 2 ^ 31" by simp
  from series_counts [OF this] show ?thesis by blast
qed

subsection \<open>The priority of the sources\<close>

lemma maxDesiredOf_Max:
  "hpas \<noteq> [] \<Longrightarrow> \<forall>h \<in> set hpas. 0 \<le> sint (hpa_DesiredReplicas h) \<Longrightarrow>
     sint (maxDesiredOf hpas) = Max ((\<lambda>h. sint (hpa_DesiredReplicas h)) ` set hpas)"
proof -
  assume ne: "hpas \<noteq> []" and nonneg: "\<forall>h \<in> set hpas. 0 \<le> sint (hpa_DesiredReplicas h)"
  let ?D = "(\<lambda>h. sint (hpa_DesiredReplicas h)) ` set hpas"
  have "sint (maxDesiredOf hpas) = Max (insert (sint (- 1 :: int32)) ?D)"
    unfolding maxDesiredOf_def by (rule fold_max)
  also have "\<dots> = max (- 1) (Max ?D)" using ne by (subst Max_insert) simp_all
  also have "0 \<le> Max ?D" using ne nonneg by (subst Max_ge_iff) (auto simp: neq_Nil_conv)
  then have "max (- 1) (Max ?D) = Max ?D" by simp
  finally show ?thesis .
qed

text \<open>Where a replica target comes from. With HPAs it is the largest desired count, marked as a fallback when there are
  several; without, a managing ScaledObject gives the larger of its minimum and the deployment's replicas;
  when the HPAs cannot be read and no ScaledObject answers, the last good value is served and kept. Every
  freshly computed value is remembered.\<close>

theorem target_priority:
  assumes "key = dp_Namespace dep @ ''/'' @ dp_Name dep"
    and "replicas = (case dp_Replicas dep of None \<Rightarrow> 0 | Some r \<Rightarrow> r)"
  shows "(HPAsFor src (dp_Namespace dep) (dp_Name dep) = Inr hpas \<and> hpas \<noteq> [] \<and>
      (\<forall>h \<in> set hpas. 0 \<le> sint (hpa_DesiredReplicas h)) \<longrightarrow>
        (\<exists>v s. resolveDeploymentTarget dep src (Some lg) = ((v, s), Some (mput lg key \<lparr>dt_value = v, dt_source = s\<rparr>)) \<and>
          sint v = Max ((\<lambda>h. sint (hpa_DesiredReplicas h)) ` set hpas) \<and>
          s = (if length hpas > 1 then targetSourceFallback else targetSourceHPA))) \<and>
    (HPAsFor src (dp_Namespace dep) (dp_Name dep) \<in> {Inr [], Inl err} \<and>
     ScaledObjectMinReplicas src (dp_Namespace dep) (dp_Name dep) = Inr (Some m) \<longrightarrow>
        (\<exists>v. resolveDeploymentTarget dep src (Some lg) =
            ((v, targetSourceKEDAFallback), Some (mput lg key \<lparr>dt_value = v, dt_source = targetSourceKEDAFallback\<rparr>)) \<and>
          sint v = max (sint m) (sint replicas))) \<and>
    (HPAsFor src (dp_Namespace dep) (dp_Name dep) = Inl err \<and>
     ScaledObjectMinReplicas src (dp_Namespace dep) (dp_Name dep) \<in> {Inr None, Inl soErr} \<and> mget lg key = Some good \<longrightarrow>
        resolveDeploymentTarget dep src (Some lg) = ((dt_value good, targetSourceLastGood), Some lg)) \<and>
    (HPAsFor src (dp_Namespace dep) (dp_Name dep) = Inr [] \<and>
     ScaledObjectMinReplicas src (dp_Namespace dep) (dp_Name dep) = Inr None \<longrightarrow>
        resolveDeploymentTarget dep src (Some lg) =
          ((replicas, targetSourceDeployment), Some (mput lg key \<lparr>dt_value = replicas, dt_source = targetSourceDeployment\<rparr>)))"
proof (intro conjI impI)
  assume h: "HPAsFor src (dp_Namespace dep) (dp_Name dep) = Inr hpas \<and> hpas \<noteq> [] \<and> (\<forall>h \<in> set hpas. 0 \<le> sint (hpa_DesiredReplicas h))"
  then have max: "sint (maxDesiredOf hpas) = Max ((\<lambda>h. sint (hpa_DesiredReplicas h)) ` set hpas)" by (intro maxDesiredOf_Max) auto
  have "0 \<le> sint (maxDesiredOf hpas)" unfolding max using h by (subst Max_ge_iff) (auto simp: neq_Nil_conv)
  then show "\<exists>v s. resolveDeploymentTarget dep src (Some lg) = ((v, s), Some (mput lg key \<lparr>dt_value = v, dt_source = s\<rparr>)) \<and>
          sint v = Max ((\<lambda>h. sint (hpa_DesiredReplicas h)) ` set hpas) \<and>
          s = (if length hpas > 1 then targetSourceFallback else targetSourceHPA)"
    using h max assms by (simp add: resolveDeploymentTarget_def remember_def Let_def)
qed (use assms in \<open>auto simp: resolveDeploymentTarget_def resolveWithoutHPA_def remember_def Let_def max_def\<close>)

theorem target_priority_witness:
  "resolveDeploymentTarget exampleDeployment noTargets (Some []) =
     ((3, targetSourceDeployment), Some (mput [] ''ns1/web'' \<lparr>dt_value = 3, dt_source = targetSourceDeployment\<rparr>))"
proof -
  have "''ns1/web'' = dp_Namespace exampleDeployment @ ''/'' @ dp_Name exampleDeployment"
    "3 = (case dp_Replicas exampleDeployment of None \<Rightarrow> 0 | Some r \<Rightarrow> r)"
    by (simp_all add: exampleDeployment_def)
  from target_priority [OF this, of noTargets] show ?thesis by (simp add: noTargets_def)
qed

text \<open>A KEDA failure is not bridged by the last good value, against the comment: when the HPAs are readable but
  there are none, and the ScaledObject cannot be read, the target drops from the remembered KEDA minimum to the
  deployment's replicas, and the remembered value is overwritten.\<close>

theorem keda_error_overwrites_last_good:
  assumes "HPAsFor src ''ns1'' ''web'' = Inr []" and "ScaledObjectMinReplicas src ''ns1'' ''web'' = Inl err"
  shows "resolveDeploymentTarget exampleDeployment src
      (Some [(''ns1/web'', \<lparr>dt_value = 10, dt_source = targetSourceKEDAFallback\<rparr>)]) =
    ((3, targetSourceDeployment), Some [(''ns1/web'', \<lparr>dt_value = 3, dt_source = targetSourceDeployment\<rparr>)])"
  using assms by (simp add: resolveDeploymentTarget_def resolveWithoutHPA_def remember_def exampleDeployment_def)

theorem keda_error_overwrites_last_good_witness:
  "resolveDeploymentTarget exampleDeployment (noTargets\<lparr>ScaledObjectMinReplicas := (\<lambda>ns d. Inl ''degraded'')\<rparr>)
     (Some [(''ns1/web'', \<lparr>dt_value = 10, dt_source = targetSourceKEDAFallback\<rparr>)]) =
   ((3, targetSourceDeployment), Some [(''ns1/web'', \<lparr>dt_value = 3, dt_source = targetSourceDeployment\<rparr>)])"
  by (rule keda_error_overwrites_last_good [where err = "''degraded''"]) (simp_all add: noTargets_def)

subsection \<open>Capacity deficit and exported reservations\<close>

text \<open>The capacity deficit is the shortfall of the nodes' total room, floored at zero, while that room fits in 32 bits;
  beyond, the product wraps around: with 65536 nodes of 65536 seats each, ten replicas are reported as ten
  seats short.\<close>

theorem capacityDeficit_exact:
  assumes "0 \<le> sint hpaMax" and "0 \<le> sint nodes" "0 \<le> sint perNode" and "sint nodes * sint perNode < 2 ^ 31"
  shows "sint (capacityDeficit hpaMax nodes perNode) = max 0 (sint hpaMax - sint nodes * sint perNode) \<and>
    capacityDeficit 10 65536 65536 = 10"
proof -
  have "nodes * perNode = (word_of_int (sint nodes * sint perNode) :: int32)" by simp
  then have room: "sint (nodes * perNode) = sint nodes * sint perNode"
    using sint32_of_int [of "sint nodes * sint perNode"] assms mult_nonneg_nonneg [OF assms(2,3)] by simp
  have nonneg: "0 \<le> sint nodes * sint perNode" by (rule mult_nonneg_nonneg [OF assms(2,3)])
  have "sint (hpaMax - nodes * perNode) = sint hpaMax - sint (nodes * perNode)"
    using assms(1,4) nonneg sint32_range(2) [of hpaMax] unfolding room [symmetric] by (intro sint32_diff) linarith+
  then have "sint (hpaMax - nodes * perNode) = sint hpaMax - sint nodes * sint perNode" by (simp only: room)
  then show ?thesis by (simp add: capacityDeficit_def Let_def max_def)
qed

theorem capacityDeficit_exact_witness: "sint (capacityDeficit 50 10 2) = 30"
  using capacityDeficit_exact [of 50 10 2] by simp

lemma setGauge_other: "k \<noteq> (name, l) \<Longrightarrow> mget (setGauge name l v g) k = mget g k"
  by (simp add: setGauge_def)

lemma fold_setGauge_other:
  assumes "fst k \<noteq> name"
  shows "mget (fold (\<lambda>e. setGauge name (l e) (v e)) es g) k = mget g k"
proof (induction es arbitrary: g)
  case (Cons e es)
  have "k \<noteq> (name, l e)" using assms by auto
  with Cons show ?case by (simp add: setGauge_other)
qed simp

text \<open>A resolved capacity deficit stays on display: exporting a series without deficit leaves the gauge at the value of
  the last deficit, unlike the other gauges, which are set on every export.\<close>

theorem deficit_gauge_never_drains:
  assumes "sint (se_CapacityDeficit s) \<le> 0"
  shows "mget (exportOne s g) (''service_spread_capacity_deficit'', l) = mget g (''service_spread_capacity_deficit'', l) \<and>
    mget (exportOne s g) (''service_spread_observed_pods'', [se_Namespace s, se_Service s, se_Domain s]) = Some (sint (se_ObservedPods s))"
  using assms by (simp add: exportOne_def Let_def fold_setGauge_other setGauge_other) (simp add: setGauge_def)

theorem deficit_gauge_never_drains_witness:
  "mget (exportOne \<lparr>se_Namespace = ''ns1'', se_Service = ''web'', se_Domain = ''default'', se_ReplicaTarget = 3,
       se_ObservedPods = 3, se_BoundPods = 3, se_FallbackActive = False, se_CapacityDeficit = 0, se_NodePods = [], se_TargetDetail = []\<rparr>
     [((''service_spread_capacity_deficit'', [''ns1'', ''web'']), 7)]) (''service_spread_capacity_deficit'', [''ns1'', ''web'']) = Some 7"
  by (subst deficit_gauge_never_drains [THEN conjunct1]) simp_all


lemma lastIndexByte_append: "c \<notin> set ys \<Longrightarrow> lastIndexByte (xs @ c # ys) c = Some (length xs)"
  using indexByte_append [of c "rev ys" "rev xs"] by (simp add: lastIndexByte_def)

text \<open>Reservations are exported under their service. For a namespace without a slash and a label value without an equals
  sign, as Kubernetes guarantees, the namespace and the label value are recovered from the quota key,
  whatever the label key.\<close>

theorem quota_key_roundtrip:
  assumes "CHR ''/'' \<notin> set ns" and "CHR ''='' \<notin> set v"
  shows "parseQuotaKey (QuotaKey ns sched key v) = Some (ns, v)"
proof -
  let ?pre = "ns @ ''/'' @ sched @ ''/'' @ key"
  have "indexByte (QuotaKey ns sched key v) (CHR ''/'') = Some (length ns)"
    using indexByte_append [OF assms(1), of "sched @ ''/'' @ key @ ''='' @ v"] by (simp add: QuotaKey_def)
  moreover have "lastIndexByte (QuotaKey ns sched key v) (CHR ''='') = Some (length ?pre)"
    using lastIndexByte_append [OF assms(2), of ?pre] by (simp add: QuotaKey_def)
  moreover have "drop (length xs + 1) (xs @ CHR ''='' # v) = v" for xs :: string by simp
  from this [of ?pre] have "drop (length ?pre + 1) (QuotaKey ns sched key v) = v" by (simp only: QuotaKey_def append.simps append_assoc)
  moreover have "take (length ns) (QuotaKey ns sched key v) = ns" "\<not> length ns > length ?pre" by (simp_all add: QuotaKey_def)
  ultimately show ?thesis by (simp only: parseQuotaKey_def option.case prod.case if_False)
qed

theorem quota_key_roundtrip_witness:
  "parseQuotaKey (QuotaKey ''shop'' ''s'' ''app.kubernetes.io/name'' ''web'') = Some (''shop'', ''web'')"
  by (rule quota_key_roundtrip) simp_all

end
