(* ===== verification/Wiring.thy ===== *)
theory Wiring
  imports Replica_Target
begin

section \<open>Wiring of the scheduler plugin\<close>

text \<open>
  The rest of \<open>internal/spread/plugins_api.go\<close>, the constructors of \<open>replicatarget.go\<close> and \<open>cmd/scheduler/main.go\<close>: how the plugin, its
  observer and its background loops are put together from a framework handle. The handle's clients and
  caches belong to Kubernetes: what they answer at one instant are the fields of \<open>frameworkHandle\<close>, with an unstructured object of type \<open>'u\<close>.
\<close>

subsection \<open>The handle\<close>

record 'u frameworkHandle =
  fh_dynamicErr :: "string option"
  fh_policyIndex :: "string \<Rightarrow> string + 'u indexObj list"
  fh_policySynced :: bool
  fh_convert :: "'u \<Rightarrow> string + ServiceSpreadPolicy"
  fh_nodes :: "string + node option list"
  fh_nodesSynced :: bool
  fh_pods :: "string + pod list"
  fh_podsSynced :: bool
  fh_replicaSet :: "string \<Rightarrow> string \<Rightarrow> ownerReference list option"
  fh_deployment :: "string \<Rightarrow> string \<Rightarrow> bool"
  fh_deployments :: "string + deployment list"
  fh_hpas :: "string \<Rightarrow> string + hpa list"
  fh_kedaListErr :: "string option"
  fh_kedaIndex :: "string \<Rightarrow> string + scaledObj list"
  fh_kedaSynced :: bool

subsection \<open>Informers\<close>

definition newPolicyInformer :: "'u frameworkHandle \<Rightarrow> 'u policyInformer" where
  "newPolicyInformer h =
     (case fh_dynamicErr h of
        Some err \<Rightarrow> \<lparr>pi_inf = None, pi_synced = None\<rparr>
      | None \<Rightarrow> \<lparr>pi_inf = Some (fh_policyIndex h), pi_synced = Some (fh_policySynced h)\<rparr>)"

text \<open>Go's triple of indexer, synced function and whether the group is known; nil is \<open>None\<close>.\<close>

type_synonym kedaInformer = "(string \<Rightarrow> string + scaledObj list) option \<times> bool option \<times> bool"

definition newKEDAIndexer :: "'u frameworkHandle \<Rightarrow> kedaInformer" where
  "newKEDAIndexer h =
     (case fh_dynamicErr h of
        Some err \<Rightarrow> (None, None, False)
      | None \<Rightarrow>
          (case fh_kedaListErr h of
             Some err \<Rightarrow> (None, None, False)
           | None \<Rightarrow> (Some (fh_kedaIndex h), Some (fh_kedaSynced h), True)))"

record informerTargetSource =
  its_hpas :: "string \<Rightarrow> string + hpa list"
  its_soIndexer :: "(string \<Rightarrow> string + scaledObj list) option"
  its_soSynced :: "bool option"
  its_kedaKnown :: bool

definition newInformerTargetSource :: "(string \<Rightarrow> string + hpa list) \<Rightarrow> kedaInformer \<Rightarrow> informerTargetSource" where
  "newInformerTargetSource hpas kedaLister =
     (let src = \<lparr>its_hpas = hpas, its_soIndexer = None, its_soSynced = None, its_kedaKnown = False\<rparr>
      in case kedaLister of (idx, synced, ok) \<Rightarrow>
        if ok \<and> idx \<noteq> None then src\<lparr>its_soIndexer := idx, its_soSynced := synced, its_kedaKnown := True\<rparr> else src)"

text \<open>The source as the interface that the observer calls. An unset indexer is only reached when the group is not known, where
  its value does not matter.\<close>

definition targetSourceOf :: "informerTargetSource \<Rightarrow> TargetSource" where
  "targetSourceOf src =
     \<lparr>HPAsFor = informer_HPAsFor (its_hpas src),
      ScaledObjectMinReplicas = informer_ScaledObjectMinReplicas (its_kedaKnown src) (its_soSynced src)
        (case its_soIndexer src of None \<Rightarrow> (\<lambda>ns. Inl ''nil indexer'') | Some idx \<Rightarrow> idx)\<rparr>"

subsection \<open>The observer\<close>

record ObserverLoopDeps =
  ol_Deployments :: "string + deployment list"
  ol_Pods :: "string + pod list"
  ol_TargetSource :: TargetSource
  ol_ServiceLabelKey :: string
  ol_ExportInterval :: duration
  ol_Nodes :: "(string + node option list) option"
  ol_Policies :: "(string \<Rightarrow> string + ServiceSpreadPolicy list) option"
  ol_ManagedSchedulerName :: string
  ol_Reservations :: "spreadState option"
  ol_ExportNodePods :: bool
  ol_ExportTargetDetail :: bool

record ReplicaTargetObserver =
  rto_deps :: ObserverDeps
  rto_lastGood :: "lastGoodMap option"

definition NewReplicaTargetObserver :: "ObserverDeps \<Rightarrow> ReplicaTargetObserver" where
  "NewReplicaTargetObserver deps = \<lparr>rto_deps = deps, rto_lastGood = Some []\<rparr>"

definition observerDepsOf :: "ObserverLoopDeps \<Rightarrow> ObserverDeps" where
  "observerDepsOf d =
     \<lparr>ob_ServiceLabelKey = ol_ServiceLabelKey d, ob_Targets = ol_TargetSource d, ob_Nodes = ol_Nodes d,
      ob_Policies = ol_Policies d, ob_ManagedSchedulerName = ol_ManagedSchedulerName d,
      ob_ExportNodePods = ol_ExportNodePods d, ob_ExportDetail = ol_ExportTargetDetail d\<rparr>"

definition observerTickOf :: "ObserverLoopDeps \<Rightarrow> observerTick" where
  "observerTickOf d =
     \<lparr>ot_deployments = ol_Deployments d, ot_pods = ol_Pods d,
      ot_reservations = map_option ReservationCounts (ol_Reservations d)\<rparr>"

subsection \<open>The dependencies of the plugin\<close>

definition synced :: "'u frameworkHandle \<Rightarrow> bool" where
  "synced h \<longleftrightarrow> policyInformer_HasSynced (newPolicyInformer h) \<and> fh_podsSynced h \<and> fh_nodesSynced h"

definition observerLoopOf :: "ServiceSpreadArgs \<Rightarrow> 'u frameworkHandle \<Rightarrow> spreadState \<Rightarrow> ObserverLoopDeps" where
  "observerLoopOf args h st =
     \<lparr>ol_Deployments = fh_deployments h, ol_Pods = fh_pods h,
      ol_TargetSource = targetSourceOf (newInformerTargetSource (fh_hpas h) (newKEDAIndexer h)),
      ol_ServiceLabelKey = ServiceLabelKey args, ol_ExportInterval = 30 * Second, ol_Nodes = Some (fh_nodes h),
      ol_Policies = Some (policyInformer_List (fh_convert h) (newPolicyInformer h)),
      ol_ManagedSchedulerName = ManagedSchedulerName args, ol_Reservations = Some st,
      ol_ExportNodePods = (ExportNodePods args = Some True), ol_ExportTargetDetail = (ExportTargetDetail args = Some True)\<rparr>"

text \<open>What \<open>depsFromHandle\<close> sets up: the dependencies of the plugin, the state they share, the handler of pod events on it, the
  observer loop, and the verification source and periods of the janitor and the reconciler.\<close>

record wiring =
  wi_deps :: pluginDeps
  wi_state :: spreadState
  wi_podHandler :: "podInformerEvent \<Rightarrow> spreadState \<Rightarrow> spreadState"
  wi_observer :: ObserverLoopDeps
  wi_podSource :: countListing
  wi_periods :: "duration \<times> duration"

definition depsFromHandle :: "ServiceSpreadArgs \<Rightarrow> 'u frameworkHandle \<Rightarrow> wiring" where
  "depsFromHandle args h =
     (let policies = newPolicyInformer h; st = newSpreadState
      in \<lparr>wi_deps = \<lparr>dep_policies = policyInformer_List (fh_convert h) policies,
                     dep_owners = OwnedByDeployment (fh_replicaSet h) (fh_deployment h),
                     dep_nodes = fh_nodes h, dep_synced = Some (synced h)\<rparr>,
          wi_state = st, wi_podHandler = podHandler args, wi_observer = observerLoopOf args h st,
          wi_podSource = ListCountable (ManagedSchedulerName args) (ServiceLabelKey args) (fh_pods h),
          wi_periods = StartLifecycleLoops (ReservationTTL args) (ReconcilePeriod args)\<rparr>)"

text \<open>The plugin that the factory of \<open>cmd/scheduler/main.go\<close> builds; the process registers it under its name and exits with the
  code of the command.\<close>

definition pluginFactory ::
    "k8s_lib \<Rightarrow> (string \<Rightarrow> string + ServiceSpreadArgs) \<Rightarrow> 'u frameworkHandle \<Rightarrow> argsObject \<Rightarrow> (newError + ServiceSpread) outcome" where
  "pluginFactory lib decodeStrict h configuration = New lib decodeStrict (\<lambda>args. wi_deps (depsFromHandle args h)) configuration"

definition scheduler_main ::
    "k8s_lib \<Rightarrow> (string \<Rightarrow> string + ServiceSpreadArgs) \<Rightarrow>
     ((string \<times> ('u frameworkHandle \<Rightarrow> argsObject \<Rightarrow> (newError + ServiceSpread) outcome)) list \<Rightarrow> int) \<Rightarrow> int" where
  "scheduler_main lib decodeStrict cliRun = cliRun [(PluginName, pluginFactory lib decodeStrict)]"

subsection \<open>The wired plugin\<close>

lemma New_Inr:
  assumes "New lib dec mk conf = Ret (Inr pl)"
  obtains args where "DecodeServiceSpreadArgs lib dec conf = Ret (Inr args)" "NewWithDeps args (mk args) = Inr pl"
proof -
  from assms obtain res where "DecodeServiceSpreadArgs lib dec conf = Ret res"
    by (cases "DecodeServiceSpreadArgs lib dec conf") (auto simp: New_def)
  with assms that show thesis by (cases res) (auto simp: New_def split: sum.splits)
qed

lemma factory_deps:
  assumes "pluginFactory lib dec h conf = Ret (Inr pl)"
  obtains args where "DecodeServiceSpreadArgs lib dec conf = Ret (Inr args)" "ServiceLabelKey args \<noteq> ''''"
    "ServiceLabelKey (sp_args pl) = ServiceLabelKey args"
    "dep_synced (sp_deps pl) = Some (synced h)"
    "dep_policies (sp_deps pl) = policyInformer_List (fh_convert h) (newPolicyInformer h)"
proof -
  from assms obtain args where args: "DecodeServiceSpreadArgs lib dec conf = Ret (Inr args)"
    "NewWithDeps args (wi_deps (depsFromHandle args h)) = Inr pl"
    unfolding pluginFactory_def by (rule New_Inr)
  show thesis
    by (rule that [OF args(1)])
      (use args(2) in \<open>auto simp: NewWithDeps_def depsFromHandle_def Let_def split: if_splits\<close>)
qed


definition downHandle :: "unit frameworkHandle" where
  "downHandle = \<lparr>fh_dynamicErr = Some ''no kubeconfig'', fh_policyIndex = (\<lambda>ns. Inr []), fh_policySynced = True,
     fh_convert = (\<lambda>u. Inl ''''), fh_nodes = Inr [], fh_nodesSynced = True, fh_pods = Inr [], fh_podsSynced = True,
     fh_replicaSet = (\<lambda>ns n. None), fh_deployment = (\<lambda>ns n. False), fh_deployments = Inr [], fh_hpas = (\<lambda>ns. Inr []),
     fh_kedaListErr = None, fh_kedaIndex = (\<lambda>ns. Inr []), fh_kedaSynced = True\<rparr>"


end
