(* ===== verification/Seats.thy ===== *)
theory Seats
  imports Plugins_Api
begin

section \<open>The seat ledger\<close>

text \<open>
  What \<open>spreadState\<close> promises, without its nested counters, its copy-on-write snapshots and its 32-bit integers: a
  ledger of the pods that were seen on a node and of the seats that are held for pods being bound. The
  effective count of a node is the number of entries there. The methods of \<open>spreadState\<close> and of \<open>stateEvents\<close> refine the
  ledger's operations (interpretation \<open>seat_ref\<close> of \<open>data_refinement\<close>).
\<close>

subsection \<open>The specification\<close>

record ledger =
  led_seen :: "uid \<rightharpoonup> podRef"
  led_held :: "uid \<rightharpoonup> podRef \<times> resvPhase"

definition emptyLedger :: ledger where
  "emptyLedger = \<lparr>led_seen = Map.empty, led_held = Map.empty\<rparr>"

definition seatsAt :: "(podRef \<Rightarrow> bool) \<Rightarrow> ledger \<Rightarrow> nat" where
  "seatsAt P l = card {u. \<exists>ref. led_seen l u = Some ref \<and> P ref} + card {u. \<exists>ref ph. led_held l u = Some (ref, ph) \<and> P ref}"

definition ledgerCount :: "ledger \<Rightarrow> string \<Rightarrow> string \<Rightarrow> string \<Rightarrow> nat \<times> nat" where
  "ledgerCount l n k q = (seatsAt (domainAt n k) l, seatsAt (quotaAt n q) l)"

text \<open>The operations. The admission decision of a reservation may depend on all effective counts, and may panic.\<close>

type_synonym admission = "(string \<Rightarrow> string \<Rightarrow> string \<Rightarrow> int32 \<times> int32) \<Rightarrow> bool outcome"

datatype seatOp =
    See uid podRef
  | Forget uid
  | Hold uid podRef admission int
  | Cancel uid
  | Confirm uid
  | Release uid
  | PodGone uid
  | PodEvent pod podRef
  | Relist "(uid, podRef) gomap"

datatype seatAnswer = Done | Held bool | Crashed string

definition ledgerRelease :: "uid \<Rightarrow> ledger \<Rightarrow> ledger" where
  "ledgerRelease u l =
     (case (led_held l u, led_seen l u) of
        (Some (held, _), Some seen) \<Rightarrow>
          if NodeNameOf seen = NodeNameOf held then l\<lparr>led_held := (led_held l)(u := None)\<rparr> else l
      | _ \<Rightarrow> l)"

definition ledgerStep :: "seatOp \<Rightarrow> ledger \<Rightarrow> seatAnswer \<times> ledger" where
  "ledgerStep op l =
     (case op of
        See u ref \<Rightarrow> (Done, l\<lparr>led_seen := (led_seen l)(u \<mapsto> ref)\<rparr>)
      | Forget u \<Rightarrow> (Done, l\<lparr>led_seen := (led_seen l)(u := None)\<rparr>)
      | Hold u ref admit now \<Rightarrow>
          if led_held l u \<noteq> None then (Held False, l)
          else (case admit (\<lambda>n k q. map_prod of_nat of_nat (ledgerCount l n k q)) of
                  Panic m \<Rightarrow> (Crashed m, l)
                | Ret False \<Rightarrow> (Held False, l)
                | Ret True \<Rightarrow> (Held True, l\<lparr>led_held := (led_held l)(u \<mapsto> (ref, resvReserved))\<rparr>))
      | Cancel u \<Rightarrow>
          (Done, case led_held l u of
             Some (ref, resvReserved) \<Rightarrow> l\<lparr>led_held := (led_held l)(u := None)\<rparr> | _ \<Rightarrow> l)
      | Confirm u \<Rightarrow>
          (Done, l\<lparr>led_held := (led_held l)(u := map_option (\<lambda>(ref, _). (ref, resvBoundObs)) (led_held l u))\<rparr>)
      | Release u \<Rightarrow> (Done, ledgerRelease u l)
      | PodGone u \<Rightarrow> (Done, \<lparr>led_seen = (led_seen l)(u := None), led_held = (led_held l)(u := None)\<rparr>)
      | PodEvent p ref \<Rightarrow>
          (Done, ledgerRelease (pod_UID p)
             (l\<lparr>led_seen := (led_seen l)(pod_UID p := (if countablePod p then Some ref else None))\<rparr>))
      | Relist pods \<Rightarrow> (Done, l\<lparr>led_seen := mget pods\<rparr>))"

subsection \<open>The implementation\<close>

definition seatStep :: "seatOp \<Rightarrow> spreadState \<Rightarrow> seatAnswer \<times> spreadState" where
  "seatStep op s =
     (case op of
        See u ref \<Rightarrow> (Done, upsertCount u ref s)
      | Forget u \<Rightarrow> (Done, removeCount u s)
      | Hold u ref admit now \<Rightarrow>
          (case TryReserveChecked u ref (\<lambda>g. admit (guard_EffCount g)) now s of
             Ret (ok, s') \<Rightarrow> (Held ok, s')
           | Panic m \<Rightarrow> (Crashed m, s))
      | Cancel u \<Rightarrow> (Done, Unreserve u s)
      | Confirm u \<Rightarrow> (Done, MarkBound u s)
      | Release u \<Rightarrow> (Done, releaseIfObserved u s)
      | PodGone u \<Rightarrow> (Done, OnPodDelete u s)
      | PodEvent p ref \<Rightarrow> (Done, OnPodAddOrUpdate p ref s)
      | Relist pods \<Rightarrow> (Done, rebuild pods s))"

definition refOf :: "reservation \<Rightarrow> podRef" where
  "refOf r = \<lparr>QuotaKeyOf = rsv_QuotaKey r, SchedKeyOf = rsv_SchedKey r, NodeNameOf = rsv_NodeName r\<rparr>"

definition ledgerOf :: "spreadState \<Rightarrow> ledger" where
  "ledgerOf s = \<lparr>led_seen = mget (snap_pods (st_snap s)),
     led_held = (\<lambda>u. map_option (\<lambda>r. (refOf r, rsv_Phase r)) (mget (st_resv s) u))\<rparr>"

text \<open>The budget: how many entries may still be added before a 32-bit counter could overflow.\<close>

definition seatsInv :: "nat \<Rightarrow> spreadState \<Rightarrow> bool" where
  "seatsInv b s \<longleftrightarrow> state_ok s \<and> length (snap_pods (st_snap s)) + length (st_resv s) + b < 2 ^ 31 - 1"

definition seatCost :: "seatOp \<Rightarrow> nat" where
  "seatCost op = (case op of Relist pods \<Rightarrow> length pods | See u ref \<Rightarrow> 1 | PodEvent p ref \<Rightarrow> 1 | Hold u ref admit now \<Rightarrow> 1 | _ \<Rightarrow> 0)"

definition legalOp :: "seatOp \<Rightarrow> bool" where
  "legalOp op = (case op of Relist pods \<Rightarrow> wf_gomap pods | _ \<Rightarrow> True)"

subsection \<open>The refinement\<close>

lemma ledger_eq_iff: "(l :: ledger) = l' \<longleftrightarrow> led_seen l = led_seen l' \<and> led_held l = led_held l'"
  by (cases l; cases l') simp

lemma ledgerOf_sel [simp]:
  "led_seen (ledgerOf s) = mget (snap_pods (st_snap s))"
  "led_held (ledgerOf s) u = map_option (\<lambda>r. (refOf r, rsv_Phase r)) (mget (st_resv s) u)"
  by (simp_all add: ledgerOf_def)

lemma refOf_sel [simp]:
  "NodeNameOf (refOf r) = rsv_NodeName r" "QuotaKeyOf (refOf r) = rsv_QuotaKey r" "SchedKeyOf (refOf r) = rsv_SchedKey r"
  "refOf (newReservation u ref now) = ref" "refOf (r\<lparr>rsv_Phase := ph\<rparr>) = refOf r"
  by (simp_all add: refOf_def newReservation_def)

text \<open>The counters of the implementation are the cardinalities of the ledger.\<close>

lemma seatsAt_ledgerOf:
  assumes "state_ok s"
  shows "seatsAt P (ledgerOf s) = mcount P (snap_pods (st_snap s)) + mcount (\<lambda>r. P (refOf r)) (st_resv s)"
proof -
  have "{u. \<exists>ref ph. led_held (ledgerOf s) u = Some (ref, ph) \<and> P ref} = {u. \<exists>r. mget (st_resv s) u = Some r \<and> P (refOf r)}"
    by auto
  with assms show ?thesis by (simp add: seatsAt_def state_ok_def snapshot_ok_def mcount_card)
qed

lemma effCount_ledger:
  assumes "state_ok s"
  shows "effCount s n k q = map_prod of_nat of_nat (ledgerCount (ledgerOf s) n k q)"
  by (simp add: effCount_counts [OF assms] ledgerCount_def seatsAt_ledgerOf [OF assms] domainCount_def quotaCount_def)

lemma release_ledger: "ledgerOf (releaseIfObserved u s) = ledgerRelease u (ledgerOf s)"
  by (auto simp: ledger_eq_iff fun_eq_iff resv_release ledgerRelease_def split: option.splits)

lemma count_ledger:
  assumes "state_ok s"
  shows "ledgerOf (upsertCount u ref s) = (ledgerOf s)\<lparr>led_seen := (led_seen (ledgerOf s))(u \<mapsto> ref)\<rparr>"
    and "ledgerOf (removeCount u s) = (ledgerOf s)\<lparr>led_seen := (led_seen (ledgerOf s))(u := None)\<rparr>"
    and "wf_gomap pods \<Longrightarrow> ledgerOf (rebuild pods s) = (ledgerOf s)\<lparr>led_seen := mget pods\<rparr>"
  by (simp_all add: ledger_eq_iff fun_eq_iff pods_upsert [OF assms] pods_remove [OF assms] pods_rebuild)

lemma event_ledger:
  assumes "state_ok s"
  shows "ledgerOf (OnPodAddOrUpdate p ref s) = ledgerRelease (pod_UID p) ((ledgerOf s)
      \<lparr>led_seen := (led_seen (ledgerOf s))(pod_UID p := (if countablePod p then Some ref else None))\<rparr>)"
  by (simp add: OnPodAddOrUpdate_def release_ledger count_ledger [OF assms])

lemma gone_ledger:
  assumes "state_ok s"
  shows "ledgerOf (OnPodDelete u s) =
    \<lparr>led_seen = (led_seen (ledgerOf s))(u := None), led_held = (led_held (ledgerOf s))(u := None)\<rparr>"
  by (auto simp: ledger_eq_iff fun_eq_iff pods_OnPodDelete [OF assms] resv_OnPodDelete)

lemma hold_simulates:
  assumes "state_ok s"
  shows "ledgerStep (Hold u ref admit now) (ledgerOf s) =
    (fst (seatStep (Hold u ref admit now) s), ledgerOf (snd (seatStep (Hold u ref admit now) s)))"
proof -
  have "(\<lambda>n k q. map_prod of_nat of_nat (ledgerCount (ledgerOf s) n k q)) = effCount s"
    by (simp add: fun_eq_iff effCount_ledger [OF assms])
  moreover have "ledgerOf (s\<lparr>st_resv := mput (st_resv s) u (newReservation u ref now)\<rparr>) =
      (ledgerOf s)\<lparr>led_held := (led_held (ledgerOf s))(u \<mapsto> (ref, resvReserved))\<rparr>"
    by (simp add: ledger_eq_iff fun_eq_iff) (simp add: newReservation_def)
  ultimately show ?thesis
    by (cases "admit (effCount s)")
      (auto simp: ledgerStep_def seatStep_def TryReserveChecked_def newReservation_def [symmetric] split: bool.split)
qed

lemma length_methods:
  "length (st_resv (Unreserve u s)) \<le> length (st_resv s)"
  "length (st_resv (MarkBound u s)) = length (st_resv s)"
  "length (st_resv (releaseIfObserved u s)) \<le> length (st_resv s)"
proof -
  have "length (mput m k v) = length m" if "mget m k = Some w" for m :: "(uid, reservation) gomap" and k v w
    using that by (induction m k v rule: mput.induct) auto
  then show "length (st_resv (MarkBound u s)) = length (st_resv s)" by (auto simp: MarkBound_def split: option.splits)
qed (auto simp: Unreserve_def releaseIfObserved_def length_mdel split: option.splits)

abbreviation stateSize :: "spreadState \<Rightarrow> nat" where
  "stateSize s \<equiv> length (snap_pods (st_snap s)) + length (st_resv s)"

lemma size_counts:
  assumes "state_ok s"
  shows "stateSize (upsertCount u ref s) \<le> stateSize s + 1" "stateSize (removeCount u s) \<le> stateSize s"
    "stateSize (rebuild l s) \<le> stateSize s + length l"
proof -
  show "stateSize (upsertCount u ref s) \<le> stateSize s + 1"
    using assms length_pods_apply [of "st_snap s" u ref] by (simp add: upsertCount_def state_ok_def snapshot_clone_id)
  show "stateSize (removeCount u s) \<le> stateSize s"
    using assms length_mdel [of "snap_pods (st_snap s)" u] by (simp add: removeCount_def state_ok_def snapshot_clone_id pods_unapply)
  show "stateSize (rebuild l s) \<le> stateSize s + length l"
    using length_rebuild_pods [of l] by (simp add: rebuild_def)
qed

lemma size_step:
  assumes "state_ok s"
  shows "stateSize (snd (seatStep op s)) \<le> stateSize s + seatCost op"
proof (cases op)
  case (Hold u ref admit now)
  then show ?thesis
    using length_mput [of "st_resv s" u]
    by (cases "admit (effCount s)") (auto simp: seatStep_def seatCost_def TryReserveChecked_def split: if_splits)
next
  case (PodEvent p ref)
  then show ?thesis using length_pods_event [OF assms, of p ref] by (simp add: seatStep_def seatCost_def)
next
  case (PodGone u)
  then show ?thesis
    using size_counts(2) [OF assms, of u] length_mdel [of "st_resv s" u] by (simp add: seatStep_def seatCost_def OnPodDelete_def)
qed (use size_counts [OF assms] length_methods [of _ s] in \<open>simp_all add: seatStep_def seatCost_def\<close>)

lemma state_ok_step:
  assumes "state_ok s" and "state_small s" and "seatCost op < 2 ^ 31"
  shows "state_ok (snd (seatStep op s))"
proof (cases op)
  case (Hold u ref admit now)
  then show ?thesis
    using assms(1) state_ok_methods(7) [OF assms(1,2), of u ref "\<lambda>g. admit (guard_EffCount g)" now]
    by (cases "TryReserveChecked u ref (\<lambda>g. admit (guard_EffCount g)) now s") (auto simp: seatStep_def)
qed (use assms(3) state_ok_methods [OF assms(1,2)] state_ok_events [OF assms(1,2)] in \<open>simp_all add: seatStep_def seatCost_def\<close>)

lemma seatStep_ok:
  assumes "seatsInv (seatCost op + b) s"
  shows "seatsInv b (snd (seatStep op s))"
  using assms state_ok_step [of s op] size_step [of s op] by (simp add: seatsInv_def state_small_def)

lemma seatStep_simulates:
  assumes "state_ok s" and "legalOp op"
  shows "ledgerStep op (ledgerOf s) = (fst (seatStep op s), ledgerOf (snd (seatStep op s)))"
proof (cases op)
  case (Hold u ref admit now)
  then show ?thesis using hold_simulates [OF assms(1)] by simp
next
  case (Cancel u)
  have "(case map_option (\<lambda>r. (refOf r, rsv_Phase r)) x of Some (ref, resvReserved) \<Rightarrow> a | _ \<Rightarrow> b) =
      (case x of Some r \<Rightarrow> if rsv_Phase r = resvReserved then a else b | None \<Rightarrow> b)" for x and a b :: ledger
    by (auto split: option.split resvPhase.split)
  then show ?thesis
    using Cancel by (auto simp: ledgerStep_def seatStep_def ledger_eq_iff fun_eq_iff resv_Unreserve split: option.splits)
next
  case (Confirm u)
  then show ?thesis by (auto simp: ledgerStep_def seatStep_def ledger_eq_iff fun_eq_iff resv_MarkBound option.map_comp comp_def)
qed (use assms in \<open>simp_all add: ledgerStep_def seatStep_def legalOp_def count_ledger event_ledger gone_ledger release_ledger\<close>)

interpretation seat_ref: data_refinement seatStep ledgerStep ledgerOf seatsInv seatCost legalOp
proof unfold_locales
  show "seatsInv b (snd (seatStep op s))" if "legalOp op" "seatsInv (seatCost op + b) s" for op b s
    using that(2) by (rule seatStep_ok)
  show "ledgerStep op (ledgerOf s) = (fst (seatStep op s), ledgerOf (snd (seatStep op s)))"
    if "legalOp op" "seatsInv (seatCost op + b) s" for op b s
    using that by (intro seatStep_simulates) (simp_all add: seatsInv_def)
qed

text \<open>C16: The reservation state implements the seat ledger. However the methods of \<open>spreadState\<close> and the pod events are
  interleaved, starting from the empty state, and as long as fewer than 2^31 - 1 entries were ever added, every
  answer is the one the ledger gives, the final state stands for the final ledger, and the effective
  counts of every node are the numbers of ledger entries there, not wrapped around.\<close>

theorem spreadState_refines_ledger:
  assumes "list_all legalOp ops" and "sum_list (map seatCost ops) < 2 ^ 31 - 1"
  shows "runOps ledgerStep ops emptyLedger =
      (fst (runOps seatStep ops newSpreadState), ledgerOf (snd (runOps seatStep ops newSpreadState))) \<and>
    map_prod sint sint (effCount (snd (runOps seatStep ops newSpreadState)) n k q) =
      map_prod int int (ledgerCount (snd (runOps ledgerStep ops emptyLedger)) n k q)"
proof -
  let ?s = "snd (runOps seatStep ops newSpreadState)"
  have new: "seatsInv (sum_list (map seatCost ops) + 0) newSpreadState"
    using assms(2) new_state_ok by (simp add: seatsInv_def) (simp add: newSpreadState_def emptySnapshot_def)
  have "ledgerOf newSpreadState = emptyLedger"
    by (simp add: ledger_eq_iff fun_eq_iff emptyLedger_def) (simp add: newSpreadState_def emptySnapshot_def)
  with seat_ref.run_refines [OF assms(1) new] have inv: "seatsInv 0 ?s"
    and run: "runOps ledgerStep ops emptyLedger = (fst (runOps seatStep ops newSpreadState), ledgerOf ?s)" by simp_all
  have ok: "state_ok ?s" "state_small ?s" using inv by (simp_all add: seatsInv_def state_small_def)
  have "map_prod sint sint (effCount ?s n k q) = map_prod int int (ledgerCount (ledgerOf ?s) n k q)"
    using sint_effCount [OF ok, of n k q] effCount_counts [OF ok(1), of n k q] effCount_ledger [OF ok(1), of n k q]
      seatsAt_ledgerOf [OF ok(1)]
    by (simp add: ledgerCount_def domainCount_def quotaCount_def)
  with run show ?thesis by simp
qed

theorem spreadState_refines_ledger_witness:
  "fst (runOps ledgerStep [See ''u1'' (exampleRef ''n1''), Hold ''u2'' (exampleRef ''n1'') (\<lambda>c. Ret (snd (c ''n1'' ''q/d'' ''q'') = 1)) 0] emptyLedger) =
     [Done, Held True] \<and>
   effCount (snd (runOps seatStep [See ''u1'' (exampleRef ''n1''), Hold ''u2'' (exampleRef ''n1'') (\<lambda>c. Ret (snd (c ''n1'' ''q/d'' ''q'') = 1)) 0] newSpreadState))
     ''n1'' ''q/d'' ''q'' = (2, 2)"
proof -
  let ?ops = "[See ''u1'' (exampleRef ''n1''), Hold ''u2'' (exampleRef ''n1'') (\<lambda>c. Ret (snd (c ''n1'' ''q/d'' ''q'') = 1)) 0]"
  have "list_all legalOp ?ops" "sum_list (map seatCost ?ops) < 2 ^ 31 - 1" by (simp_all add: legalOp_def seatCost_def)
  note refines = spreadState_refines_ledger [OF this]
  have run: "fst (runOps seatStep ?ops newSpreadState) = [Done, Held True]"
    "effCount (snd (runOps seatStep ?ops newSpreadState)) ''n1'' ''q/d'' ''q'' = (2, 2)"
    by code_simp+
  from refines show ?thesis by (simp only: run fst_conv simp_thms)
qed

end
