(* ===== verification/Cycle_State.thy ===== *)
theory Cycle_State
  imports Plugin
begin

section \<open>The types of the scheduling cycle\<close>

text \<open>
  The extension points of \<open>internal/spread/plugin.go\<close> hand data to each other through the scheduler's untyped cycle state. This
  theory types it: what PreFilter and PreScore store under their keys, that they keep the cycle state well-typed, that the
  clones the scheduler makes are well-typed and hold the same data, and that no extension point meets data of
  another type or divides by zero in a well-typed cycle state.
\<close>

definition preFilterState_ok :: "preFilterState \<Rightarrow> bool" where
  "preFilterState_ok pf \<longleftrightarrow>
     pf_domainSet pf \<noteq> [] \<and> wf_gomap (pf_effDomain pf) \<and> wf_gomap (pf_effQuota pf) \<and>
     (\<forall>n. (mget (pf_effDomain pf) n \<noteq> None) = (n \<in> set (pf_domainSet pf))) \<and>
     (\<forall>n. (mget (pf_effQuota pf) n \<noteq> None) = (n \<in> set (pf_domainSet pf))) \<and>
     (\<exists>hash. pf_schedKey pf = SchedKey (pf_quotaKey pf) hash \<and> length hash = HashChars) \<and>
     (\<forall>n. 0 \<le> sint (mget0 (pf_effDomain pf) n) \<and> 0 \<le> sint (mget0 (pf_effQuota pf) n)) \<and>
     (\<exists>n \<in> set (pf_domainSet pf). pf_minCount pf = mget0 (pf_effDomain pf) n) \<and>
     (\<forall>n \<in> set (pf_domainSet pf). sint (pf_minCount pf) \<le> sint (mget0 (pf_effDomain pf) n))"

definition preScoreState_ok :: "preScoreState \<Rightarrow> bool" where
  "preScoreState_ok sc \<longleftrightarrow> 0 \<le> sint (sc_cmin sc) \<and> sint (sc_cmin sc) \<le> sint (sc_cmax sc) \<and>
     sc_skip sc = (sc_cmin sc = sc_cmax sc)"

definition cycle_ok :: "cycleState \<Rightarrow> bool" where
  "cycle_ok cs \<longleftrightarrow> wf_gomap cs \<and>
     (case mget cs preFilterStateKey of
        None \<Rightarrow> True | Some (PreFilterData (Some pf)) \<Rightarrow> preFilterState_ok pf | _ \<Rightarrow> False) \<and>
     (case mget cs preScoreStateKey of
        None \<Rightarrow> True | Some (PreScoreData sc) \<Rightarrow> preScoreState_ok sc | _ \<Rightarrow> False)"

text \<open>The scheduler clones a cycle state entry by entry; a nil preFilterState is not stored by the plugin.\<close>

definition cloneData :: "stateData \<Rightarrow> stateData" where
  "cloneData d =
     (case d of
        PreFilterData opf \<Rightarrow> PreFilterData (map_option preFilterState_Clone opf)
      | PreScoreData sc \<Rightarrow> PreScoreData (preScoreState_Clone sc)
      | OtherData \<Rightarrow> OtherData)"

definition cloneCycle :: "cycleState \<Rightarrow> cycleState" where
  "cloneCycle cs = map (\<lambda>(k, d). (k, cloneData d)) cs"

subsection \<open>What is stored\<close>

lemma wf_fold_mput: "wf_gomap c \<Longrightarrow> wf_gomap (fold (\<lambda>n c. mput c n (f n)) ns c)"
  by (induction ns arbitrary: c) auto

lemma preFilterOf_ok:
  assumes "state_ok s" and "state_small s" and "computeStableDomain lib p (dep_nodes (sp_deps pl)) \<noteq> []"
  shows "preFilterState_ok (preFilterOf lib pl s p v policy)"
proof -
  let ?D = "computeStableDomain lib p (dep_nodes (sp_deps pl))" and ?pf = "preFilterOf lib pl s p v policy"
  let ?q = "pf_quotaKey ?pf" and ?k = "pf_schedKey ?pf"
  have eff: "pf_effDomain ?pf = fold (\<lambda>n c. mput c n (fst (effCount s n ?k ?q))) ?D []"
    "pf_effQuota ?pf = fold (\<lambda>n c. mput c n (snd (effCount s n ?k ?q))) ?D []" "pf_domainSet ?pf = ?D"
    "pf_minCount ?pf = sentinelMin (\<lambda>n. fst (effCount s n ?k ?q)) ?D (- 1)"
    by (simp_all add: preFilterOf_def Let_def)
  have maps: "mget0 (pf_effDomain ?pf) n = (if n \<in> set ?D then fst (effCount s n ?k ?q) else 0)"
    "mget0 (pf_effQuota ?pf) n = (if n \<in> set ?D then snd (effCount s n ?k ?q) else 0)" for n
    by (simp_all add: eff mget0_def mget_fold_mput)
  have min: "sint (pf_minCount ?pf) = int (minOver s ?k ?D)"
    using sentinelMin_eff [OF assms] by (simp add: eff)
  obtain m where m: "m \<in> set ?D" "minOver s ?k ?D = domainCount s m ?k" using minOver_attained [OF assms(3)] by blast
  have attained: "pf_minCount ?pf = mget0 (pf_effDomain ?pf) m"
    by (rule signed_word_eqI [where 'a = int]) (simp add: maps m sint_effCount [OF assms(1,2)] min)
  have key: "\<exists>hash. ?k = SchedKey ?q hash \<and> length hash = HashChars"
    by (intro exI [of _ "projr (DomainHash p)"]) (simp add: preFilterOf_def Let_def DomainHash_Inr HashChars_def)
  show ?thesis
    unfolding preFilterState_ok_def
    using assms(3) key min m(1) attained minOver_le [of _ ?D s ?k]
    by (simp add: maps eff(3) sint_effCount [OF assms(1,2)]) (auto simp: eff wf_fold_mput mget_fold_mput)
qed

lemma PreFilter_stores:
  assumes "PreFilter lib pl s cs p = Ret (st, cs', inc)"
  shows "cs' = cs \<or> (\<exists>v policy. cs' = mput cs preFilterStateKey (PreFilterData (Some (preFilterOf lib pl s p v policy))) \<and>
    computeStableDomain lib p (dep_nodes (sp_deps pl)) \<noteq> [])"
  using assms
  by (auto simp: PreFilter_def DomainHash_Inr preFilterLoop_eq preFilterOf_def Let_def
      split: option.splits if_splits prod.splits)

lemma cycle_ok_mput:
  assumes "cycle_ok cs"
  shows "preFilterState_ok pf \<Longrightarrow> cycle_ok (mput cs preFilterStateKey (PreFilterData (Some pf)))"
    and "preScoreState_ok sc \<Longrightarrow> cycle_ok (mput cs preScoreStateKey (PreScoreData sc))"
  using assms by (simp_all add: cycle_ok_def)

lemma cycle_ok_get:
  assumes "cycle_ok cs" and "getPreFilterState cs = Inr pf"
  shows "preFilterState_ok pf"
  using assms by (auto simp: cycle_ok_def getPreFilterState_def split: option.splits stateData.splits)

lemma PreScore_ok:
  assumes "cycle_ok cs" and "PreScore cs p nodes = (st, cs')"
  shows "cycle_ok cs'"
proof (cases "getPreFilterState cs")
  case (Inl e)
  with assms show ?thesis by (simp add: PreScore_def)
next
  case (Inr pf)
  have pos: "\<forall>n \<in> set nodes. 0 \<le> sint (mget0 (pf_effDomain pf) (node_Name n))"
    using cycle_ok_get [OF assms(1) Inr] by (simp add: preFilterState_ok_def)
  show ?thesis
  proof (cases "nodes = []")
    case True
    with Inr assms show ?thesis by (simp add: PreScore_def)
  next
    case False
    let ?C = "(\<lambda>n. sint (mget0 (pf_effDomain pf) (node_Name n))) ` set nodes"
    obtain ss where ss: "PreScore cs p nodes = (NewStatus Success [], mput cs preScoreStateKey (PreScoreData ss))"
      "sc_skip ss = (sc_cmin ss = sc_cmax ss)" "sint (sc_cmin ss) = Min ?C" "sint (sc_cmax ss) = Max ?C"
      using PreScore_Success [OF Inr False pos] by blast
    have "Min ?C \<in> ?C" "Max ?C \<in> ?C" using False by (intro Min_in Max_in; simp)+
    then have "0 \<le> Min ?C" "Min ?C \<le> Max ?C" using pos by (auto intro: Min_le)
    with ss assms show ?thesis by (simp add: preScoreState_ok_def cycle_ok_mput(2))
  qed
qed

lemma div64_span:
  assumes "preScoreState_ok sc"
  shows "int64_of_int32 (sc_cmax sc - sc_cmin sc + 1) \<noteq> 0"
proof
  let ?w = "sc_cmax sc - sc_cmin sc + 1"
  assume "int64_of_int32 ?w = 0"
  then have "sint (word_of_int (sint ?w) :: int64) = 0" by (simp add: int64_of_int32_def)
  moreover have "- (2 ^ 31) \<le> sint ?w" "sint ?w < 2 ^ 31" using sint_ge [of ?w] sint_lt [of ?w] by simp_all
  ultimately have "sint ?w = 0" by (subst (asm) sint64_of_int) simp_all
  then have "?w = 0" by (simp only: signed_eq_0_iff)
  then have "sc_cmax sc = sc_cmin sc - 1" by (simp add: algebra_simps)
  moreover have "sint (sc_cmin sc - 1) = sint (sc_cmin sc) - 1"
    using assms sint_lt [of "sc_cmin sc"] by (subst sint32_diff) (simp_all add: preScoreState_ok_def)
  ultimately show False using assms by (simp add: preScoreState_ok_def)
qed

lemma copySet_set: "set (copySet xs) = set xs"
proof -
  have "set (fold (\<lambda>k c. if k \<in> set c then c else c @ [k]) xs c) = set xs \<union> set c" for c :: "string list"
    by (induction xs arbitrary: c) auto
  from this [of "[]"] show ?thesis by (simp add: copySet_def)
qed

lemma clone_ok:
  assumes "preFilterState_ok pf"
  shows "preFilterState_ok (preFilterState_Clone pf)"
proof -
  have "copySet (pf_domainSet pf) \<noteq> []"
    using assms copySet_set [of "pf_domainSet pf"] by (metis preFilterState_ok_def set_empty)
  with assms show ?thesis
    by (simp add: preFilterState_ok_def preFilterState_Clone_def copySet_set)
qed

lemma mget_cloneCycle: "mget (cloneCycle cs) k = map_option cloneData (mget cs k)"
  by (induction cs) (auto simp: cloneCycle_def)

lemma cloneCycle_ok:
  assumes "cycle_ok cs"
  shows "cycle_ok (cloneCycle cs)"
proof -
  have "wf_gomap (cloneCycle cs)"
    using assms by (simp add: cycle_ok_def cloneCycle_def wf_gomap_def case_prod_unfold comp_def)
  with assms show ?thesis
    by (auto simp: cycle_ok_def mget_cloneCycle cloneData_def clone_ok preScoreState_Clone_def split: option.splits stateData.splits)
qed

subsection \<open>Type soundness\<close>

text \<open>C17: The cycle state is well-typed throughout a scheduling cycle. PreFilter and PreScore only ever store
  complete data under their own keys: a non-empty domain, a count for exactly its nodes, no negative count, the
  attained minimum, a scheduling key that extends the quota key by a hash of the fixed length, and extrema in
  order. Clones are well-typed and give the extension points the same limits. In a well-typed cycle state no
  extension point reports data of another type, and Score never divides by zero.\<close>

theorem cycle_state_typed:
  assumes "cycle_ok cs" and "state_ok s" and "state_small s"
  shows "(PreFilter lib pl s cs p = Ret (st, cs', inc) \<longrightarrow> cycle_ok cs') \<and>
    (PreScore cs p nodes = (st, cs') \<longrightarrow> cycle_ok cs') \<and>
    cycle_ok (cloneCycle cs) \<and>
    (getPreFilterState cs = Inr pf \<longrightarrow>
      (\<exists>pf'. getPreFilterState (cloneCycle cs) = Inr pf' \<and> set (pf_domainSet pf') = set (pf_domainSet pf) \<and>
         pf'\<lparr>pf_domainSet := pf_domainSet pf\<rparr> = pf)) \<and>
    getPreFilterState cs \<noteq> Inl (NewStatus Error [''invalid preFilterState'']) \<and>
    (\<exists>v st. Score lib cs p nodeName = Ret (v, st) \<and> st \<noteq> NewStatus Error [''invalid preScoreState''])"
proof (intro conjI impI)
  show "cycle_ok cs'" if "PreFilter lib pl s cs p = Ret (st, cs', inc)"
    using PreFilter_stores [OF that] assms(1) cycle_ok_mput(1) preFilterOf_ok [OF assms(2,3)] by blast
  show "cycle_ok cs'" if "PreScore cs p nodes = (st, cs')" by (rule PreScore_ok [OF assms(1) that])
  show "cycle_ok (cloneCycle cs)" by (rule cloneCycle_ok [OF assms(1)])
  show "\<exists>pf'. getPreFilterState (cloneCycle cs) = Inr pf' \<and> set (pf_domainSet pf') = set (pf_domainSet pf) \<and>
         pf'\<lparr>pf_domainSet := pf_domainSet pf\<rparr> = pf" if "getPreFilterState cs = Inr pf"
  proof -
    have "mget cs preFilterStateKey = Some (PreFilterData (Some pf))"
      using that by (auto simp: getPreFilterState_def split: option.splits stateData.splits)
    then have "getPreFilterState (cloneCycle cs) = Inr (preFilterState_Clone pf)"
      by (simp add: getPreFilterState_def mget_cloneCycle cloneData_def)
    moreover have "wf_gomap (pf_effDomain pf)" "wf_gomap (pf_effQuota pf)"
      using cycle_ok_get [OF assms(1) that] by (simp_all add: preFilterState_ok_def)
    ultimately show ?thesis by (simp add: preFilterState_Clone_def copySet_set)
  qed
  show "getPreFilterState cs \<noteq> Inl (NewStatus Error [''invalid preFilterState''])"
    using assms(1) by (auto simp: cycle_ok_def getPreFilterState_def NewStatus_def split: option.splits stateData.splits)
  show "\<exists>v st. Score lib cs p nodeName = Ret (v, st) \<and> st \<noteq> NewStatus Error [''invalid preScoreState'']"
  proof (cases "mget cs preScoreStateKey")
    case None
    then show ?thesis using assms(1)
      by (auto simp: cycle_ok_def Score_def getPreFilterState_def NewStatus_def split: option.splits stateData.splits)
  next
    case (Some d)
    then obtain sc where d: "d = PreScoreData sc" "preScoreState_ok sc"
      using assms(1) by (auto simp: cycle_ok_def split: stateData.splits)
    show ?thesis using assms(1) Some div64_span [OF d(2)]
      by (auto simp: d(1) cycle_ok_def Score_def div64_def getPreFilterState_def NewStatus_def split: option.splits stateData.splits)
  qed
qed

theorem cycle_state_typed_witness:
  "\<exists>cs'. PreFilter example_lib examplePlugin newSpreadState [] example_pod = Ret (NewStatus Success [], cs', []) \<and>
     mget cs' preFilterStateKey \<noteq> None \<and> cycle_ok cs'"
proof (rule example_Filter_Reserve_facts)
  fix cs'
  assume run: "PreFilter example_lib examplePlugin newSpreadState [] example_pod = Ret (NewStatus Success [], cs', [])"
    and "getPreFilterState cs' = Inr (preFilterOf example_lib examplePlugin newSpreadState example_pod ''web'' (Some examplePolicy))"
  then have stored: "mget cs' preFilterStateKey \<noteq> None" by (auto simp: getPreFilterState_def split: option.splits)
  have "cycle_ok []" by (simp add: cycle_ok_def wf_gomap_def)
  from cycle_state_typed [OF this new_state_ok] run stored show ?thesis by blast
qed

end
