(* ===== verification/Webhook.thy ===== *)
theory Webhook
  imports Plugin
begin

section \<open>The validating webhook\<close>

text \<open>
  \<open>internal/webhook/{naming,validation,policy_webhook,config}.go\<close>: the deterministic policy name, the static
  validation of a policy, the overlap check against the policies of the namespace, and the source of the shared
  configuration, a state machine driven by the events of one ConfigMap. Error messages are
  constructors that carry the values the messages mention.
\<close>

subsection \<open>The shared configuration\<close>

record PluginConfig =
  cfg_ServiceLabelKey :: string
  cfg_ManagedSchedulerName :: string

record configMap =
  cm_Namespace :: string
  cm_Name :: string
  cm_Data :: "(string, string) gomap"

datatype configError =
    ConfigMapNil
  | LabelKeyRequired string string
  | LabelKeyInvalid string string string "string list"
  | SchedulerNameNotQualified string string string "string list"
  | ConfigMapDeleted string string
  | ConfigMapNotObserved string string

definition ParseConfigMap :: "k8s_lib \<Rightarrow> configMap option \<Rightarrow> configError + PluginConfig" where
  "ParseConfigMap lib ocm =
     (case ocm of
        None \<Rightarrow> Inl ConfigMapNil
      | Some cm \<Rightarrow>
          (let labelKey = trimSpace (mgets (cm_Data cm) ''serviceLabelKey'')
           in if labelKey = '''' then Inl (LabelKeyRequired (cm_Namespace cm) (cm_Name cm))
              else let msgs = lib_IsQualifiedName lib labelKey
              in if length msgs > 0 then Inl (LabelKeyInvalid (cm_Namespace cm) (cm_Name cm) labelKey msgs)
              else let name0 = trimSpace (mgets (cm_Data cm) ''managedSchedulerName'');
                       schedulerName = (if name0 = '''' then DefaultManagedSchedulerName else name0);
                       msgs2 = lib_IsQualifiedName lib schedulerName
              in if length msgs2 > 0 then Inl (SchedulerNameNotQualified (cm_Namespace cm) (cm_Name cm) schedulerName msgs2)
              else Inr \<lparr>cfg_ServiceLabelKey = labelKey, cfg_ManagedSchedulerName = schedulerName\<rparr>))"

text \<open>The published state holds a configuration or an error; \<open>None\<close> is the nil pointer before the first event.\<close>

record ConfigMapSource =
  src_namespace :: string
  src_name :: string
  src_state :: "(configError + PluginConfig) option"

datatype cmObj = CMObj "configMap option" | CMOther

definition store :: "k8s_lib \<Rightarrow> cmObj \<Rightarrow> ConfigMapSource \<Rightarrow> ConfigMapSource" where
  "store lib ob src =
     (case ob of
        CMOther \<Rightarrow> src
      | CMObj cm \<Rightarrow> src\<lparr>src_state := Some (ParseConfigMap lib cm)\<rparr>)"

datatype cmEvent = CMAdd cmObj | CMUpdate cmObj cmObj | CMDelete cmObj

text \<open>The handlers that \<open>NewConfigMapSource\<close> registers.\<close>

definition cmHandler :: "k8s_lib \<Rightarrow> cmEvent \<Rightarrow> ConfigMapSource \<Rightarrow> ConfigMapSource" where
  "cmHandler lib ev src =
     (case ev of
        CMAdd ob \<Rightarrow> store lib ob src
      | CMUpdate old ob \<Rightarrow> store lib ob src
      | CMDelete ob \<Rightarrow> src\<lparr>src_state := Some (Inl (ConfigMapDeleted (src_namespace src) (src_name src)))\<rparr>)"

definition NewConfigMapSource :: "string \<Rightarrow> string \<Rightarrow> ConfigMapSource" where
  "NewConfigMapSource namespace name = \<lparr>src_namespace = namespace, src_name = name, src_state = None\<rparr>"

definition ConfigMapSource_Get :: "ConfigMapSource \<Rightarrow> configError + PluginConfig" where
  "ConfigMapSource_Get src =
     (case src_state src of
        None \<Rightarrow> Inl (ConfigMapNotObserved (src_namespace src) (src_name src))
      | Some st \<Rightarrow> st)"

text \<open>\<open>Start\<close> runs the informer, which calls the handlers for what it observes until the context ends, and never returns an error. The
  configuration source runs in every replica, elected or not.\<close>

definition ConfigMapSource_Start :: "k8s_lib \<Rightarrow> cmEvent list \<Rightarrow> ConfigMapSource \<Rightarrow> configError option \<times> ConfigMapSource" where
  "ConfigMapSource_Start lib observed src = (None, fold (cmHandler lib) observed src)"

definition ConfigMapSource_NeedLeaderElection :: bool where
  "ConfigMapSource_NeedLeaderElection = False"

definition StaticConfigSource_Get :: "PluginConfig \<Rightarrow> configError + PluginConfig" where
  "StaticConfigSource_Get cfg = Inr cfg"

subsection \<open>Policy names\<close>

text \<open>\<open>json.Marshal\<close> of an array of strings does not fail, so the fallback encoding is not modelled.\<close>

definition canonicalIdentity :: "string \<Rightarrow> string \<Rightarrow> string \<Rightarrow> string \<Rightarrow> string" where
  "canonicalIdentity namespace schedulerName labelKey labelValue =
     jsonArray (map jsonString [namespace, schedulerName, labelKey, labelValue])"

definition ExpectedPolicyName :: "string \<Rightarrow> string \<Rightarrow> string \<Rightarrow> string \<Rightarrow> string" where
  "ExpectedPolicyName namespace schedulerName labelKey labelValue =
     PolicyNamePrefix @ take 12 (sha256Hex (canonicalIdentity namespace schedulerName labelKey labelValue))"

subsection \<open>Static validation\<close>

datatype policyError =
    SchedulerNameRequired
  | SchedulerNameInvalid string string
  | MatchExpressionsForbidden
  | MatchLabelsWrongKey "(string, string) gomap" string
  | MatchLabelsRequired string
  | MatchLabelsAmbiguous "(string, string) gomap" string
  | MaxSkewInvalid int32
  | MaxPodsPerNodeInvalid int32
  | NameInvalid string string
  | OverlapCheckFailed string
  | OverlapsWith string string

definition serviceSelectorValue :: "labelSelector \<Rightarrow> PluginConfig \<Rightarrow> string \<times> policyError list" where
  "serviceSelectorValue sel cfg =
     (let errs = (if length (LabelExpressions sel) > 0 then [MatchExpressionsForbidden] else []);
          key = cfg_ServiceLabelKey cfg
      in if length (MatchLabels sel) = 1 then
           (case mget (MatchLabels sel) key of
              Some value \<Rightarrow> (value, errs)
            | None \<Rightarrow> ('''', errs @ [MatchLabelsWrongKey (MatchLabels sel) key]))
         else if length (MatchLabels sel) = 0 then ('''', errs @ [MatchLabelsRequired key])
         else ('''', errs @ [MatchLabelsAmbiguous (MatchLabels sel) key]))"

definition ValidatePolicy :: "ServiceSpreadPolicy \<Rightarrow> PluginConfig \<Rightarrow> policyError list" where
  "ValidatePolicy policy cfg =
     (let spec = pol_Spec policy;
          schedErrs = (if pol_SchedulerName spec = '''' then [SchedulerNameRequired]
                       else if pol_SchedulerName spec \<noteq> cfg_ManagedSchedulerName cfg
                       then [SchedulerNameInvalid (pol_SchedulerName spec) (cfg_ManagedSchedulerName cfg)] else []);
          (labelValue, selectorErrs) = serviceSelectorValue (pol_ServiceSelector spec) cfg;
          skewErrs = (if sint (pol_MaxSkew spec) < 1 then [MaxSkewInvalid (pol_MaxSkew spec)] else []);
          podErrs = (if sint (pol_MaxPodsPerNode spec) < 1 then [MaxPodsPerNodeInvalid (pol_MaxPodsPerNode spec)] else []);
          nameErrs = (if pol_SchedulerName spec \<noteq> '''' \<and> labelValue \<noteq> '''' then
                        (let expected = ExpectedPolicyName (pol_Namespace policy) (pol_SchedulerName spec)
                                          (cfg_ServiceLabelKey cfg) labelValue
                         in if pol_Name policy \<noteq> expected then [NameInvalid (pol_Name policy) expected] else [])
                      else [])
      in schedErrs @ selectorErrs @ skewErrs @ podErrs @ nameErrs)"

definition selectsSameService :: "ServiceSpreadPolicy \<Rightarrow> ServiceSpreadPolicy \<Rightarrow> PluginConfig \<Rightarrow> bool" where
  "selectsSameService existing incoming cfg =
     (if pol_Name existing = pol_Name incoming then False
      else if pol_SchedulerName (pol_Spec existing) \<noteq> pol_SchedulerName (pol_Spec incoming) then False
      else if length (MatchLabels (pol_ServiceSelector (pol_Spec existing))) \<noteq> 1 \<or>
              length (LabelExpressions (pol_ServiceSelector (pol_Spec existing))) \<noteq> 0 then False
      else (case mget (MatchLabels (pol_ServiceSelector (pol_Spec existing))) (cfg_ServiceLabelKey cfg) of
              None \<Rightarrow> False
            | Some existingValue \<Rightarrow>
                (case mget (MatchLabels (pol_ServiceSelector (pol_Spec incoming))) (cfg_ServiceLabelKey cfg) of
                   None \<Rightarrow> False
                 | Some incomingValue \<Rightarrow> existingValue = incomingValue)))"

subsection \<open>Admission\<close>

primrec overlapLoop :: "ServiceSpreadPolicy list \<Rightarrow> ServiceSpreadPolicy \<Rightarrow> PluginConfig \<Rightarrow> policyError list" where
  "overlapLoop [] policy cfg = []"
| "overlapLoop (existing # items) policy cfg =
     (if selectsSameService existing policy cfg then [OverlapsWith (pol_Name existing) (pol_Name policy)]
      else overlapLoop items policy cfg)"

text \<open>The reader may be nil; otherwise it lists the policies of a namespace or fails.\<close>

type_synonym policyReader = "(string \<Rightarrow> string + ServiceSpreadPolicy list) option"

definition checkOverlap :: "policyReader \<Rightarrow> ServiceSpreadPolicy \<Rightarrow> PluginConfig \<Rightarrow> policyError list" where
  "checkOverlap reader policy cfg =
     (case reader of
        None \<Rightarrow> []
      | Some list \<Rightarrow>
          (case list (pol_Namespace policy) of
             Inl err \<Rightarrow> [OverlapCheckFailed err]
           | Inr items \<Rightarrow> overlapLoop items policy cfg))"

datatype admissionObj = PolicyObj ServiceSpreadPolicy | OtherKind string

datatype admissionError =
    UnexpectedKind string
  | ConfigNotUsable configError
  | InvalidPolicy string "policyError list"

text \<open>\<open>None\<close> is the nil error: the request is admitted.\<close>

definition validate ::
    "(configError + PluginConfig) \<Rightarrow> policyReader \<Rightarrow> admissionObj \<Rightarrow> admissionError option" where
  "validate cfgGet reader ob =
     (case ob of
        OtherKind t \<Rightarrow> Some (UnexpectedKind t)
      | PolicyObj policy \<Rightarrow>
          (case cfgGet of
             Inl err \<Rightarrow> Some (ConfigNotUsable err)
           | Inr cfg \<Rightarrow>
               (let errs0 = ValidatePolicy policy cfg;
                    errs = (if length errs0 = 0 then errs0 @ checkOverlap reader policy cfg else errs0)
                in if length errs = 0 then None else Some (InvalidPolicy (pol_Name policy) errs))))"

definition ValidateCreate ::
    "(configError + PluginConfig) \<Rightarrow> policyReader \<Rightarrow> admissionObj \<Rightarrow> admissionError option" where
  "ValidateCreate cfgGet reader ob = validate cfgGet reader ob"

definition ValidateUpdate ::
    "(configError + PluginConfig) \<Rightarrow> policyReader \<Rightarrow> admissionObj \<Rightarrow> admissionObj \<Rightarrow> admissionError option" where
  "ValidateUpdate cfgGet reader oldObj newObj = validate cfgGet reader newObj"

definition ValidateDelete :: "admissionObj \<Rightarrow> admissionError option" where
  "ValidateDelete ob = None"

subsection \<open>What validation accepts\<close>

lemma single_entry: "length m = 1 \<and> mget m k = Some v \<longleftrightarrow> m = [(k, v)]"
  by (cases m) auto

lemma ValidatePolicy_Nil_iff:
  "ValidatePolicy policy cfg = [] \<longleftrightarrow>
     pol_SchedulerName (pol_Spec policy) = cfg_ManagedSchedulerName cfg \<and> cfg_ManagedSchedulerName cfg \<noteq> '''' \<and>
     LabelExpressions (pol_ServiceSelector (pol_Spec policy)) = [] \<and>
     1 \<le> sint (pol_MaxSkew (pol_Spec policy)) \<and> 1 \<le> sint (pol_MaxPodsPerNode (pol_Spec policy)) \<and>
     (\<exists>v. MatchLabels (pol_ServiceSelector (pol_Spec policy)) = [(cfg_ServiceLabelKey cfg, v)] \<and>
        (v = '''' \<or> pol_Name policy = ExpectedPolicyName (pol_Namespace policy) (cfg_ManagedSchedulerName cfg)
                                      (cfg_ServiceLabelKey cfg) v))"
proof -
  let ?m = "MatchLabels (pol_ServiceSelector (pol_Spec policy))"
  show ?thesis
  proof (cases "\<exists>v. ?m = [(cfg_ServiceLabelKey cfg, v)]")
    case True
    then obtain v where v: "?m = [(cfg_ServiceLabelKey cfg, v)]" by blast
    show ?thesis
      by (auto simp: ValidatePolicy_def serviceSelectorValue_def v Let_def not_less)
  next
    case False
    then have "snd (serviceSelectorValue (pol_ServiceSelector (pol_Spec policy)) cfg) \<noteq> []"
      using single_entry [of ?m "cfg_ServiceLabelKey cfg"]
      by (auto simp: serviceSelectorValue_def Let_def split: option.splits)
    then show ?thesis using False by (simp add: ValidatePolicy_def case_prod_unfold Let_def)
  qed
qed

lemma overlapLoop_Nil_iff: "overlapLoop items policy cfg = [] \<longleftrightarrow> (\<forall>e \<in> set items. \<not> selectsSameService e policy cfg)"
  by (induction items) auto

lemma validate_None_iff:
  "validate cfgGet reader (PolicyObj policy) = None \<longleftrightarrow>
     (\<exists>cfg. cfgGet = Inr cfg \<and> ValidatePolicy policy cfg = [] \<and>
       (case reader of None \<Rightarrow> True
        | Some list \<Rightarrow> (\<exists>items. list (pol_Namespace policy) = Inr items \<and> (\<forall>e \<in> set items. \<not> selectsSameService e policy cfg))))"
  by (auto simp: validate_def checkOverlap_def overlapLoop_Nil_iff Let_def split: sum.splits option.splits)


definition exampleConfig :: PluginConfig where
  "exampleConfig = \<lparr>cfg_ServiceLabelKey = ''app'', cfg_ManagedSchedulerName = DefaultManagedSchedulerName\<rparr>"

subsection \<open>One policy per service\<close>

text \<open>The policies of one namespace as the API server stores them, changed by requests that the webhook admits
  one after the other; names identify objects.\<close>

inductive apiStep :: "PluginConfig \<Rightarrow> string \<Rightarrow> ServiceSpreadPolicy list \<Rightarrow> ServiceSpreadPolicy list \<Rightarrow> bool"
  for cfg :: PluginConfig and ns :: string where
  create: "pol_Name p \<notin> pol_Name ` set ps \<Longrightarrow> pol_Namespace p = ns \<Longrightarrow>
    ValidateCreate (Inr cfg) (Some (\<lambda>n. Inr ps)) (PolicyObj p) = None \<Longrightarrow> apiStep cfg ns ps (p # ps)"
| update: "ps = xs @ old # ys \<Longrightarrow> pol_Name p = pol_Name old \<Longrightarrow> pol_Namespace p = ns \<Longrightarrow>
    ValidateUpdate (Inr cfg) (Some (\<lambda>n. Inr ps)) (PolicyObj old) (PolicyObj p) = None \<Longrightarrow> apiStep cfg ns ps (xs @ p # ys)"
| delete: "ps = xs @ old # ys \<Longrightarrow> ValidateDelete (PolicyObj old) = None \<Longrightarrow> apiStep cfg ns ps (xs @ ys)"

definition selectsService :: "PluginConfig \<Rightarrow> string \<Rightarrow> ServiceSpreadPolicy \<Rightarrow> bool" where
  "selectsService cfg v p \<longleftrightarrow> pol_SchedulerName (pol_Spec p) = cfg_ManagedSchedulerName cfg \<and>
     selectorMatchesService (pol_ServiceSelector (pol_Spec p)) (cfg_ServiceLabelKey cfg) v"

definition store_ok :: "PluginConfig \<Rightarrow> ServiceSpreadPolicy list \<Rightarrow> bool" where
  "store_ok cfg ps \<longleftrightarrow> distinct (map pol_Name ps) \<and> (\<forall>v. length (filter (selectsService cfg v) ps) \<le> 1)"

lemma selectsService_iff:
  "selectsService cfg v p \<longleftrightarrow> pol_SchedulerName (pol_Spec p) = cfg_ManagedSchedulerName cfg \<and>
     LabelExpressions (pol_ServiceSelector (pol_Spec p)) = [] \<and>
     MatchLabels (pol_ServiceSelector (pol_Spec p)) = [(cfg_ServiceLabelKey cfg, v)]"
  using single_entry [of "MatchLabels (pol_ServiceSelector (pol_Spec p))" "cfg_ServiceLabelKey cfg" v]
  by (auto simp: selectsService_def selectorMatchesService_def split: option.splits)

lemma admitted_excludes:
  assumes "validate (Inr cfg) (Some (\<lambda>n. Inr ps)) (PolicyObj p) = None" and "selectsService cfg v p"
    and "e \<in> set ps" and "pol_Name e \<noteq> pol_Name p"
  shows "\<not> selectsService cfg v e"
proof
  assume "selectsService cfg v e"
  then have "selectsSameService e p cfg"
    using assms(2,4) by (simp add: selectsService_iff selectsSameService_def)
  then show False using assms(1,3) by (simp add: validate_None_iff)
qed

lemma filter_none: "(\<And>x. x \<in> set xs \<Longrightarrow> \<not> P x) \<Longrightarrow> filter P xs = []"
  by (simp add: filter_empty_conv)

lemma store_ok_insert:
  assumes "validate (Inr cfg) (Some (\<lambda>n. Inr ps)) (PolicyObj p) = None"
    and "\<And>e. e \<in> set xs \<union> set ys \<Longrightarrow> e \<in> set ps \<and> pol_Name e \<noteq> pol_Name p"
    and "store_ok cfg (xs @ ys)"
  shows "store_ok cfg (xs @ p # ys)"
  unfolding store_ok_def
proof (intro conjI allI)
  have "pol_Name p \<notin> set (map pol_Name (xs @ ys))" using assms(2) by fastforce
  then show "distinct (map pol_Name (xs @ p # ys))" using assms(3) by (simp add: store_ok_def)
  fix v
  show "length (filter (selectsService cfg v) (xs @ p # ys)) \<le> 1"
  proof (cases "selectsService cfg v p")
    case True
    have "filter (selectsService cfg v) xs = []" "filter (selectsService cfg v) ys = []"
      using assms(2) admitted_excludes [OF assms(1) True] by (auto intro!: filter_none)
    then show ?thesis by simp
  next
    case False
    then show ?thesis using assms(3) by (simp add: store_ok_def)
  qed
qed

lemma store_ok_remove:
  assumes "store_ok cfg (xs @ p # ys)"
  shows "store_ok cfg (xs @ ys)"
proof -
  have "length (filter P (xs @ ys)) \<le> length (filter P (xs @ p # ys))" for P by simp
  then have "length (filter (selectsService cfg v) (xs @ ys)) \<le> 1" for v
    using assms le_trans by (simp only: store_ok_def) blast
  then show ?thesis using assms by (simp add: store_ok_def)
qed

lemma apiStep_store_ok:
  assumes "apiStep cfg ns ps ps'" and "store_ok cfg ps"
  shows "store_ok cfg ps'"
  using assms(1)
proof cases
  case (create p)
  have "store_ok cfg ([] @ p # ps)"
    by (rule store_ok_insert [where ps = ps]) (use create assms(2) in \<open>auto simp: ValidateCreate_def image_iff\<close>)
  then show ?thesis using create by simp
next
  case (update xs old ys p)
  have "distinct (map pol_Name (xs @ old # ys))" using assms(2) update by (simp add: store_ok_def)
  then have "e \<in> set ps \<and> pol_Name e \<noteq> pol_Name p" if "e \<in> set xs \<union> set ys" for e
    using that update by (auto simp: image_iff)
  moreover have "store_ok cfg (xs @ ys)" using assms(2) update store_ok_remove by blast
  ultimately show ?thesis
    using update(1,2,5) by (auto simp: ValidateUpdate_def intro!: store_ok_insert [where ps = ps])
next
  case (delete xs old ys)
  then show ?thesis using assms(2) store_ok_remove by blast
qed

interpretation api: invariant_system "\<lambda>ps. ps = []" "apiStep cfg ns" "store_ok cfg" for cfg ns
  by unfold_locales (auto simp: store_ok_def [of cfg "[]"] intro: apiStep_store_ok)

text \<open>C15: One policy per service. Starting from an empty namespace, whatever sequence of creations, updates and
  deletions the webhook admits with one configuration, no service is ever selected by two policies, so
  the plugin (with the same label key and scheduler name) never finds the service ambiguous.\<close>

theorem admitted_policies_never_ambiguous:
  assumes "(apiStep cfg ns)\<^sup>*\<^sup>* [] policies"
    and "cfg_ServiceLabelKey cfg = ServiceLabelKey (sp_args pl)"
    and "cfg_ManagedSchedulerName cfg = ManagedSchedulerName (sp_args pl)"
    and "dep_policies (sp_deps pl) ns = Inr policies"
  shows "length (filter (\<lambda>p. pol_SchedulerName (pol_Spec p) = ManagedSchedulerName (sp_args pl) \<and>
        selectorMatchesService (pol_ServiceSelector (pol_Spec p)) (ServiceLabelKey (sp_args pl)) v) policies) \<le> 1 \<and>
    snd (resolvePolicy pl ns v) \<noteq> [policyResolutionFailures ''AmbiguousServiceSpreadPolicy'']"
proof -
  let ?sel = "\<lambda>p. pol_SchedulerName (pol_Spec p) = ManagedSchedulerName (sp_args pl) \<and>
        selectorMatchesService (pol_ServiceSelector (pol_Spec p)) (ServiceLabelKey (sp_args pl)) v"
  have "selectsService cfg v = ?sel" by (simp add: fun_eq_iff selectsService_def assms(2,3))
  then have le: "length (filter ?sel policies) \<le> 1"
    using api.reachable_inv [OF refl assms(1)] by (simp add: store_ok_def) metis
  then show ?thesis
    by (auto simp: resolvePolicy_def assms(4) matchLoop_filter Let_def policyResolutionFailures_def)
qed

definition namedPolicy :: "string \<Rightarrow> ServiceSpreadPolicy" where
  "namedPolicy v = \<lparr>pol_Name = ExpectedPolicyName ''ns1'' DefaultManagedSchedulerName ''app'' v, pol_Namespace = ''ns1'',
     pol_Spec = \<lparr>pol_SchedulerName = DefaultManagedSchedulerName,
       pol_ServiceSelector = \<lparr>MatchLabels = [(''app'', v)], LabelExpressions = []\<rparr>, pol_MaxSkew = 1, pol_MaxPodsPerNode = 2\<rparr>\<rparr>"

lemma namedPolicy_valid: "ValidatePolicy (namedPolicy v) exampleConfig = []"
  by (simp add: ValidatePolicy_Nil_iff namedPolicy_def exampleConfig_def) (simp add: DefaultManagedSchedulerName_def)

theorem admitted_policies_never_ambiguous_witness:
  "snd (resolvePolicy (examplePlugin\<lparr>sp_deps := (sp_deps examplePlugin)\<lparr>dep_policies := (\<lambda>ns. Inr [namedPolicy ''web''])\<rparr>\<rparr>) ''ns1'' ''web'')
     \<noteq> [policyResolutionFailures ''AmbiguousServiceSpreadPolicy'']"
proof -
  let ?pl = "examplePlugin\<lparr>sp_deps := (sp_deps examplePlugin)\<lparr>dep_policies := (\<lambda>ns. Inr [namedPolicy ''web''])\<rparr>\<rparr>"
  have "validate (Inr exampleConfig) (Some (\<lambda>n. Inr [])) (PolicyObj (namedPolicy ''web'')) = None"
    by (simp add: validate_None_iff namedPolicy_valid)
  then have "apiStep exampleConfig ''ns1'' [] [namedPolicy ''web'']"
    by (intro create) (simp_all add: ValidateCreate_def namedPolicy_def)
  then have "(apiStep exampleConfig ''ns1'')\<^sup>*\<^sup>* [] [namedPolicy ''web'']" by (rule r_into_rtranclp)
  from admitted_policies_never_ambiguous [OF this, of ?pl "''web''"] show ?thesis
    by (simp add: exampleConfig_def examplePlugin_def example_args_def)
qed

subsection \<open>Names and identities\<close>

lemma canonicalIdentity_expand:
  "canonicalIdentity a b c d = CHR ''['' # jsonString a @ CHR '','' # jsonString b @ CHR '','' # jsonString c @ CHR '','' # jsonString d @ '']''"
  by (simp add: canonicalIdentity_def jsonArray_def)

text \<open>C34: Names identify services. On ASCII fields, as Kubernetes' validation enforces, the canonical encoding that is
  hashed determines the namespace, the scheduler name, the label key and the label value, so two
  services get the same policy name only by a collision of the first 48 bits of SHA-256; the
  name has 16 characters. On other byte strings the encoding is not injective: every invalid UTF-8 byte is written
  as the same replacement character.\<close>

theorem policy_names_identify_services:
  assumes "\<forall>s \<in> set [ns, sched, key, v, ns', sched', key', v']. ascii s"
    and "canonicalIdentity ns sched key v = canonicalIdentity ns' sched' key' v'"
  shows "(ns, sched, key, v) = (ns', sched', key', v') \<and>
    length (ExpectedPolicyName ns sched key v) = 16 \<and>
    canonicalIdentity [CHR 0xFF] sched key v = canonicalIdentity [CHR 0xFE] sched key v"
proof -
  have a: "ascii ns" "ascii sched" "ascii key" "ascii v" "ascii ns'" "ascii sched'" "ascii key'" "ascii v'"
    using assms(1) by simp_all
  note eq = assms(2) [unfolded canonicalIdentity_expand list.inject, THEN conjunct2]
  note s1 = jsonString_inj [OF a(1,5) eq]
  note s2 = jsonString_inj [OF a(2,6) s1(2) [unfolded list.inject, THEN conjunct2]]
  note s3 = jsonString_inj [OF a(3,7) s2(2) [unfolded list.inject, THEN conjunct2]]
  note s4 = jsonString_inj [OF a(4,8) s3(2) [unfolded list.inject, THEN conjunct2]]
  have "jsonString [CHR 0xFF] = jsonString [CHR 0xFE]"
    by (simp add: jsonString_def runeLen_def between_def)
  then show ?thesis
    using s1(1) s2(1) s3(1) s4(1) by (simp add: ExpectedPolicyName_def PolicyNamePrefix_def canonicalIdentity_expand)
qed

theorem policy_names_identify_services_witness:
  "canonicalIdentity ''ns1'' ''s'' ''app'' ''web'' \<noteq> canonicalIdentity ''ns1'' ''s'' ''app'' ''api''"
proof
  assume "canonicalIdentity ''ns1'' ''s'' ''app'' ''web'' = canonicalIdentity ''ns1'' ''s'' ''app'' ''api''"
  from policy_names_identify_services [OF _ this] show False by (simp add: ascii_def)
qed

text \<open>The naming rule has a gap. A policy that selects the empty label value passes the static validation under any
  name, although the documentation requires the deterministic name; only the overlap check keeps such policies
  apart.\<close>

theorem empty_value_skips_naming:
  "ValidatePolicy ((namedPolicy '''')\<lparr>pol_Name := anyName\<rparr>) exampleConfig = [] \<and>
   (anyName \<noteq> otherName \<longrightarrow>
     ValidateCreate (Inr exampleConfig) (Some (\<lambda>ns. Inr [(namedPolicy '''')\<lparr>pol_Name := anyName\<rparr>]))
       (PolicyObj ((namedPolicy '''')\<lparr>pol_Name := otherName\<rparr>)) \<noteq> None)"
proof -
  have valid: "ValidatePolicy ((namedPolicy '''')\<lparr>pol_Name := n\<rparr>) exampleConfig = []" for n
    by (simp add: ValidatePolicy_Nil_iff namedPolicy_def exampleConfig_def) (simp add: DefaultManagedSchedulerName_def)
  then show ?thesis
    by (simp add: ValidateCreate_def validate_None_iff selectsSameService_def namedPolicy_def exampleConfig_def)
qed

theorem empty_value_skips_naming_witness:
  "ValidateCreate (Inr exampleConfig) (Some (\<lambda>ns. Inr [(namedPolicy '''')\<lparr>pol_Name := ''a''\<rparr>]))
     (PolicyObj ((namedPolicy '''')\<lparr>pol_Name := ''b''\<rparr>)) \<noteq> None"
  using empty_value_skips_naming [of "''a''" "''b''"] by simp

subsection \<open>The configuration source fails closed\<close>

text \<open>Whether an event changes the published state.\<close>

definition effective :: "cmEvent \<Rightarrow> bool" where
  "effective ev = (case ev of CMAdd ob \<Rightarrow> ob \<noteq> CMOther | CMUpdate old ob \<Rightarrow> ob \<noteq> CMOther | CMDelete ob \<Rightarrow> True)"

lemma cmHandler_names [simp]: "src_namespace (cmHandler lib ev src) = src_namespace src" "src_name (cmHandler lib ev src) = src_name src"
  by (simp_all add: cmHandler_def store_def split: cmEvent.splits cmObj.splits)

lemma cmHandler_ineffective: "\<not> effective ev \<Longrightarrow> cmHandler lib ev src = src"
  by (auto simp: effective_def cmHandler_def store_def split: cmEvent.splits cmObj.splits)

lemma fold_ineffective: "\<forall>ev \<in> set evs. \<not> effective ev \<Longrightarrow> fold (cmHandler lib) evs src = src"
  by (induction evs) (auto simp: cmHandler_ineffective)

lemma ParseConfigMap_Inr:
  assumes "ParseConfigMap lib cm = Inr cfg"
  shows "cfg_ServiceLabelKey cfg \<noteq> '''' \<and> lib_IsQualifiedName lib (cfg_ServiceLabelKey cfg) = [] \<and>
    cfg_ManagedSchedulerName cfg \<noteq> '''' \<and> lib_IsQualifiedName lib (cfg_ManagedSchedulerName cfg) = []"
  using assms by (auto simp: ParseConfigMap_def Let_def DefaultManagedSchedulerName_def split: option.splits if_splits)

text \<open>C24: The webhook fails closed. Before the first event, after a deletion and after an invalid ConfigMap every
  request is rejected; a configuration is served only if the last effective event delivered a ConfigMap that
  parses to it, and then its label key and scheduler name are present and well-formed.\<close>

theorem configuration_fails_closed:
  assumes "\<forall>ev \<in> set ignored. \<not> effective ev"
  shows "validate (ConfigMapSource_Get (fold (cmHandler lib) ignored (NewConfigMapSource ns name))) reader (PolicyObj p) =
      Some (ConfigNotUsable (ConfigMapNotObserved ns name)) \<and>
    validate (ConfigMapSource_Get (fold (cmHandler lib) (evs @ CMDelete ob # ignored) (NewConfigMapSource ns name))) reader (PolicyObj p) =
      Some (ConfigNotUsable (ConfigMapDeleted ns name)) \<and>
    ConfigMapSource_Get (fold (cmHandler lib) (evs @ CMUpdate old (CMObj cm) # ignored) (NewConfigMapSource ns name)) = ParseConfigMap lib cm \<and>
    ConfigMapSource_Get (fold (cmHandler lib) (evs @ CMAdd (CMObj cm) # ignored) (NewConfigMapSource ns name)) = ParseConfigMap lib cm \<and>
    (\<forall>cfg. ParseConfigMap lib cm = Inr cfg \<longrightarrow>
       cfg_ServiceLabelKey cfg \<noteq> '''' \<and> lib_IsQualifiedName lib (cfg_ServiceLabelKey cfg) = [] \<and>
       cfg_ManagedSchedulerName cfg \<noteq> '''' \<and> lib_IsQualifiedName lib (cfg_ManagedSchedulerName cfg) = [])"
proof -
  have names: "src_namespace (fold (cmHandler lib) evs src) = src_namespace src" "src_name (fold (cmHandler lib) evs src) = src_name src" for src
    by (induction evs arbitrary: src) auto
  show ?thesis
    by (simp add: fold_ineffective [OF assms] ParseConfigMap_Inr)
      (simp add: cmHandler_def store_def ConfigMapSource_Get_def NewConfigMapSource_def validate_def names)
qed

theorem configuration_fails_closed_witness:
  "validate (ConfigMapSource_Get (fold (cmHandler example_lib) ([CMAdd (CMObj None)] @ CMDelete CMOther # [CMAdd CMOther])
     (NewConfigMapSource ''kube-system'' ''cfg''))) None (PolicyObj (namedPolicy ''web'')) =
   Some (ConfigNotUsable (ConfigMapDeleted ''kube-system'' ''cfg''))"
proof -
  have "\<forall>ev \<in> set [CMAdd CMOther]. \<not> effective ev" by (simp add: effective_def)
  from configuration_fails_closed [OF this] show ?thesis by blast
qed

end
