(* ===== verification/Pem.thy ===== *)
theory Pem
  imports Go_Std
begin

section \<open>Base64 and PEM\<close>

text \<open>
  \<open>encoding/base64\<close> (\<open>StdEncoding\<close>) and \<open>encoding/pem\<close> (\<open>EncodeToMemory\<close> of a block without headers, and
  \<open>Decode\<close>) of Go 1.22, as \<open>internal/webhook/selfcert.go\<close> uses them. The decoder is the library's: it
  searches the start line, skips header lines, looks for the matching end line and retries after a
  malformed block. What is encoded is decoded to the same type and bytes.
\<close>

subsection \<open>Base64\<close>

definition b64Char :: "nat \<Rightarrow> char" where
  "b64Char n =
     (if n < 26 then char_of (65 + n) else if n < 52 then char_of (71 + n)
      else if n < 62 then char_of (n - 4) else if n = 62 then CHR ''+'' else CHR 0x2F)"

definition b64Val :: "char \<Rightarrow> nat option" where
  "b64Val c =
     (if between 65 90 c then Some (byte c - 65) else if between 97 122 c then Some (byte c - 71)
      else if between 48 57 c then Some (byte c + 4) else if c = CHR ''+'' then Some 62
      else if c = CHR 0x2F then Some 63 else None)"

fun b64Encode :: "string \<Rightarrow> string" where
  "b64Encode [] = []"
| "b64Encode [a] = [b64Char (byte a div 4), b64Char (byte a mod 4 * 16), CHR ''='', CHR ''='']"
| "b64Encode [a, b] =
     [b64Char (byte a div 4), b64Char (byte a mod 4 * 16 + byte b div 16), b64Char (byte b mod 16 * 4), CHR ''='']"
| "b64Encode (a # b # c # s) =
     [b64Char (byte a div 4), b64Char (byte a mod 4 * 16 + byte b div 16),
      b64Char (byte b mod 16 * 4 + byte c div 64), b64Char (byte c mod 64)] @ b64Encode s"

text \<open>The decoder works on quanta of four characters; padding may only end the last one, and the bits
  beyond the last byte are ignored.\<close>

fun b64Quanta :: "string \<Rightarrow> string option" where
  "b64Quanta [] = Some []"
| "b64Quanta (a # b # c # d # s) =
     (case (b64Val a, b64Val b) of
        (Some x, Some y) \<Rightarrow>
          if c = CHR ''='' then
            (if d = CHR ''='' \<and> s = [] then Some [char_of (x * 4 + y div 16)] else None)
          else
            (case b64Val c of
               None \<Rightarrow> None
             | Some z \<Rightarrow>
                 if d = CHR ''='' then
                   (if s = [] then Some [char_of (x * 4 + y div 16), char_of (y mod 16 * 16 + z div 4)] else None)
                 else
                   (case b64Val d of
                      None \<Rightarrow> None
                    | Some w \<Rightarrow>
                        map_option (\<lambda>r. char_of (x * 4 + y div 16) # char_of (y mod 16 * 16 + z div 4) #
                          char_of (z mod 4 * 64 + w) # r) (b64Quanta s)))
      | _ \<Rightarrow> None)"
| "b64Quanta _ = None"

text \<open>Line breaks are skipped wherever they stand.\<close>

definition b64Decode :: "string \<Rightarrow> string option" where
  "b64Decode s = b64Quanta (filter (\<lambda>c. c \<noteq> CHR 0x0A \<and> c \<noteq> CHR 0x0D) s)"

subsection \<open>PEM blocks\<close>

function breakLines :: "string \<Rightarrow> string" where
  "breakLines s = (if s = [] then [] else take 64 s @ [CHR 0x0A] @ breakLines (drop 64 s))"
  by pat_completeness auto
termination
  by (relation "measure length") auto

declare breakLines.simps [simp del]

definition pemEncode :: "string \<Rightarrow> string \<Rightarrow> string" where
  "pemEncode ty bs =
     ''-----BEGIN '' @ ty @ ''-----'' @ [CHR 0x0A] @ breakLines (b64Encode bs) @
     ''-----END '' @ ty @ ''-----'' @ [CHR 0x0A]"

text \<open>\<open>bytes.Cut\<close>: what precedes and what follows the first occurrence.\<close>

primrec cutAt :: "string \<Rightarrow> string \<Rightarrow> (string \<times> string) option" where
  "cutAt pat [] = (if pat = [] then Some ([], []) else None)"
| "cutAt pat (c # s) =
     (if startsWith (c # s) pat then Some ([], drop (length pat) (c # s))
      else map_option (\<lambda>(b, a). (c # b, a)) (cutAt pat s))"

definition trimRightBlanks :: "string \<Rightarrow> string" where
  "trimRightBlanks s = rev (dropWhile (\<lambda>c. c = CHR '' '' \<or> c = CHR 0x09) (rev s))"

text \<open>\<open>getLine\<close>: the line without its line break and trailing blanks, and the rest.\<close>

definition getLine :: "string \<Rightarrow> string \<times> string" where
  "getLine s =
     (case indexByte s (CHR 0x0A) of
        None \<Rightarrow> (trimRightBlanks s, [])
      | Some i \<Rightarrow>
          (let j = (if i > 0 \<and> s ! (i - 1) = CHR 0x0D then i - 1 else i)
           in (trimRightBlanks (take j s), drop (Suc i) s)))"

lemma indexByte_less: "indexByte s c = Some i \<Longrightarrow> i < length s"
  by (induction s arbitrary: i) (auto split: if_splits)

lemma length_getLine: "s \<noteq> [] \<Longrightarrow> length (snd (getLine s)) < length s"
  by (auto simp: getLine_def Let_def dest: indexByte_less split: option.splits)

lemma length_getLine_le: "getLine s = (line, r) \<Longrightarrow> length r \<le> length s"
  using length_getLine [of s] by (cases "s = []") (auto simp: getLine_def)

text \<open>The header lines; \<open>None\<close> where the input ends in them. The flag says whether there was one.\<close>

function skipHeaders :: "bool \<Rightarrow> string \<Rightarrow> (bool \<times> string) option" where
  "skipHeaders found s =
     (if s = [] then None
      else case getLine s of (line, nxt) \<Rightarrow>
        if CHR '':'' \<in> set line then skipHeaders True nxt else Some (found, s))"
  by pat_completeness auto
termination
  by (relation "measure (\<lambda>(f, s). length s)") (simp_all, metis length_getLine snd_conv)

declare skipHeaders.simps [simp del]

text \<open>The end of a block of type \<open>ty\<close>: what precedes the end line if that line is complete.\<close>

definition pemBody :: "bool \<Rightarrow> string \<Rightarrow> string \<Rightarrow> string option" where
  "pemBody headers ty s =
     (case (if \<not> headers \<and> startsWith s ''-----END '' then Some ([], drop 9 s)
            else cutAt (CHR 0x0A # ''-----END '') s) of
        None \<Rightarrow> None
      | Some (body, trailer) \<Rightarrow>
          (if length trailer < length ty + 5 \<or> \<not> startsWith trailer ty \<or>
              drop (length ty) (take (length ty + 5) trailer) \<noteq> ''-----'' \<or>
              fst (getLine (drop (length ty + 5) trailer)) \<noteq> []
           then None else Some body))"

definition pemStart :: "string \<Rightarrow> string option" where
  "pemStart s =
     (if startsWith s ''-----BEGIN '' then Some (drop 11 s)
      else map_option snd (cutAt (CHR 0x0A # ''-----BEGIN '') s))"

lemma length_cutAt: "cutAt pat s = Some (b, a) \<Longrightarrow> length b + length pat + length a = length s"
proof (induction s arbitrary: b a)
  case (Cons c s)
  show ?case
  proof (cases "startsWith (c # s) pat")
    case True
    then have "length pat \<le> length (c # s)"
      unfolding startsWith_def by (metis length_take min.cobounded1)
    with True Cons.prems show ?thesis by auto
  qed (use Cons in auto)
qed (auto split: if_splits)

lemma length_pemStart: "pemStart s = Some r \<Longrightarrow> length r < length s"
  by (cases s) (auto simp: pemStart_def startsWith_def split: if_splits dest: length_cutAt)

lemma length_skipHeaders: "skipHeaders f s = Some (g, r) \<Longrightarrow> length r \<le> length s"
  by (induction f s rule: skipHeaders.induct)
    (subst (asm) (2) skipHeaders.simps, auto split: if_splits prod.splits dest: length_getLine)

lemma pemDecode_shrinks:
  assumes "pemStart s = Some r0" and "(typeLine, r1) = getLine r0"
  shows "length r1 < length s" and "skipHeaders False r1 = Some (h, r2) \<Longrightarrow> length r2 < length s"
  using length_pemStart [OF assms(1)] length_getLine_le [OF assms(2) [symmetric]] length_skipHeaders [of False r1 h r2]
  by auto

function pemDecode :: "string \<Rightarrow> (string \<times> string) option" where
  "pemDecode s =
     (case pemStart s of
        None \<Rightarrow> None
      | Some r0 \<Rightarrow>
          (case getLine r0 of (typeLine, r1) \<Rightarrow>
             if length typeLine < 5 \<or> drop (length typeLine - 5) typeLine \<noteq> ''-----'' then pemDecode r1
             else let ty = take (length typeLine - 5) typeLine
             in (case skipHeaders False r1 of
                   None \<Rightarrow> None
                 | Some (headers, r2) \<Rightarrow>
                     (case pemBody headers ty r2 of
                        None \<Rightarrow> pemDecode r2
                      | Some body \<Rightarrow>
                          (case b64Decode (filter (\<lambda>c. c \<noteq> CHR '' '' \<and> c \<noteq> CHR 0x09) body) of
                             None \<Rightarrow> pemDecode r2
                           | Some bs \<Rightarrow> Some (ty, bs))))))"
  by pat_completeness auto
termination
  by (relation "measure length") (simp_all, (metis pemDecode_shrinks)+)

declare pemDecode.simps [simp del]

subsection \<open>Round trips\<close>

definition pemSafe :: "char \<Rightarrow> bool" where
  "pemSafe c \<longleftrightarrow> byte c \<noteq> 10 \<and> byte c \<noteq> 13 \<and> byte c \<noteq> 9 \<and> byte c \<noteq> 32 \<and> byte c \<noteq> 58 \<and> byte c \<noteq> 45"

lemma pemSafe_chars:
  assumes "pemSafe c"
  shows "c \<noteq> CHR 0x0A" and "c \<noteq> CHR 0x0D" and "c \<noteq> CHR 0x09" and "c \<noteq> CHR '' ''" and "c \<noteq> CHR '':''" and "c \<noteq> CHR ''-''"
  using assms by (auto simp: pemSafe_def)

lemma byte_b64Char:
  "n < 64 \<Longrightarrow> byte (b64Char n) =
     (if n < 26 then 65 + n else if n < 52 then 71 + n else if n < 62 then n - 4 else if n = 62 then 43 else 47)"
  by (simp add: b64Char_def)

lemma b64Char_lt:
  assumes "n < 64"
  shows "b64Val (b64Char n) = Some n" and "b64Char n \<noteq> CHR ''=''" and "pemSafe (b64Char n)"
proof -
  note b = byte_b64Char [OF assms]
  show "pemSafe (b64Char n)" using assms unfolding pemSafe_def b by (auto split: if_splits)
  have "byte (b64Char n) \<noteq> 61" using assms b by (simp split: if_splits)
  then show "b64Char n \<noteq> CHR ''=''" by auto
  consider "n < 26" | "26 \<le> n" "n < 52" | "52 \<le> n" "n < 62" | "n = 62" | "n = 63" using assms by linarith
  then show "b64Val (b64Char n) = Some n"
  proof cases
    case 3
    then have "48 \<le> byte (b64Char n)" "byte (b64Char n) \<le> 57" "byte (b64Char n) + 4 = n" using b by auto
    then show ?thesis by (simp add: b64Val_def between_def)
  qed (simp_all add: b64Val_def between_def b, simp_all add: b64Char_def)
qed



lemma char_of_byte [simp]: "char_of (byte c) = c"
  by simp

lemma sextets:
  "byte a div 4 < 64" "byte a mod 4 * 16 < 64" "byte b mod 16 * 4 < 64" "byte c mod 64 < 64"
  "byte a mod 4 * 16 + byte b div 16 < 64" "byte b mod 16 * 4 + byte c div 64 < 64"
proof -
  have "byte b div 16 < 16" and "byte c div 64 < 4" and "byte a div 4 < 64"
    using byte_lt_256 [of a] byte_lt_256 [of b] byte_lt_256 [of c] by (simp_all add: less_mult_imp_div_less)
  moreover have "byte a mod 4 \<le> 3" and "byte b mod 16 \<le> 15" by simp_all
  ultimately show "byte a div 4 < 64" "byte a mod 4 * 16 < 64" "byte b mod 16 * 4 < 64" "byte c mod 64 < 64"
    "byte a mod 4 * 16 + byte b div 16 < 64" "byte b mod 16 * 4 + byte c div 64 < 64"
    by linarith+
qed

lemma join_bytes:
  "byte b div 16 div 16 = 0" "byte b div 16 mod 16 = byte b div 16"
  "byte c div 64 div 4 = 0" "byte c div 64 mod 4 = byte c div 64"
  using byte_lt_256 [of b] byte_lt_256 [of c] by (simp_all add: less_mult_imp_div_less div_mult2_eq [symmetric])

lemma b64Quanta_b64Encode: "b64Quanta (b64Encode s) = Some s"
  by (induction s rule: b64Encode.induct) (simp_all add: b64Char_lt sextets join_bytes)

lemma b64Encode_safe: "c \<in> set (b64Encode s) \<Longrightarrow> pemSafe c"
  by (induction s rule: b64Encode.induct) (auto simp: b64Char_lt sextets, simp_all add: pemSafe_def)

lemma b64_roundtrip: "b64Decode (b64Encode s) = Some s"
proof -
  have "filter (\<lambda>c. c \<noteq> CHR 0x0A \<and> c \<noteq> CHR 0x0D) (b64Encode s) = b64Encode s"
    by (rule filter_True) (use b64Encode_safe pemSafe_chars(1,2) in blast)
  then show ?thesis by (simp add: b64Decode_def b64Quanta_b64Encode)
qed

lemma breakLines_lines:
  "filter (\<lambda>c. c \<noteq> CHR 0x0A) (breakLines s) = filter (\<lambda>c. c \<noteq> CHR 0x0A) s \<and>
   set (breakLines s) \<subseteq> insert (CHR 0x0A) (set s) \<and>
   (s \<noteq> [] \<longrightarrow> breakLines s \<noteq> [] \<and> last (breakLines s) = CHR 0x0A)"
proof (induction s rule: breakLines.induct)
  case (1 s)
  show ?case
  proof (cases "s = []")
    case False
    have eq: "breakLines s = take 64 s @ CHR 0x0A # breakLines (drop 64 s)"
      using False by (subst breakLines.simps) simp
    have "filter (\<lambda>c. c \<noteq> CHR 0x0A) (take 64 s) @ filter (\<lambda>c. c \<noteq> CHR 0x0A) (drop 64 s) = filter (\<lambda>c. c \<noteq> CHR 0x0A) s"
      unfolding filter_append [symmetric] by simp
    moreover have "last (breakLines s) = CHR 0x0A"
      using 1 [OF False] by (cases "drop 64 s = []") (simp_all add: eq breakLines.simps [of "[]"])
    ultimately show ?thesis
      using 1 [OF False] set_take_subset [of 64 s] set_drop_subset [of 64 s] by (auto simp: eq)
  qed (simp add: breakLines.simps)
qed


lemma set_trimRightBlanks: "set (trimRightBlanks s) \<subseteq> set s"
  using set_dropWhileD by (fastforce simp: trimRightBlanks_def)

lemma set_getLine: "set (fst (getLine s)) \<subseteq> set s"
  using set_trimRightBlanks set_take_subset by (fastforce simp: getLine_def Let_def split: option.splits)

lemma getLine_line:
  assumes "CHR 0x0A \<notin> set x" and "x \<noteq> []" and "last x \<notin> {CHR 0x0D, CHR '' '', CHR 0x09}"
  shows "getLine (x @ CHR 0x0A # r) = (x, r)"
proof -
  have "trimRightBlanks x = x"
    using assms(2,3) by (cases x rule: rev_cases) (simp_all add: trimRightBlanks_def)
  then show ?thesis
    using assms indexByte_append [OF assms(1), of r]
    by (simp add: getLine_def nth_append Let_def last_conv_nth)
qed

lemma skipHeaders_none: "s \<noteq> [] \<Longrightarrow> CHR '':'' \<notin> set s \<Longrightarrow> skipHeaders f s = Some (f, s)"
  using set_getLine [of s] by (subst skipHeaders.simps) (auto split: prod.splits)

lemma cutAt_end:
  assumes "CHR ''-'' \<notin> set body"
  shows "cutAt (CHR 0x0A # ''-----END '') (body @ CHR 0x0A # ''-----END '' @ t) = Some (body, t)"
  using assms
proof (induction body)
  case (Cons c body)
  have "\<not> startsWith (c # body @ CHR 0x0A # ''-----END '' @ t) (CHR 0x0A # ''-----END '')"
    using Cons.prems by (cases body) (auto simp: startsWith_def)
  with Cons show ?case by simp
qed (simp add: startsWith_def)

lemma pemBody_encoded:
  assumes "set enc \<subseteq> Collect pemSafe"
  shows "\<exists>body. pemBody False ty (breakLines enc @ ''-----END '' @ ty @ ''-----'' @ [CHR 0x0A]) = Some body \<and>
     filter (\<lambda>c. c \<noteq> CHR 0x0A \<and> c \<noteq> CHR 0x0D) (filter (\<lambda>c. c \<noteq> CHR '' '' \<and> c \<noteq> CHR 0x09) body) = enc"
proof (cases "enc = []")
  case True
  then show ?thesis by (simp add: breakLines.simps pemBody_def startsWith_def getLine_def trimRightBlanks_def)
next
  case False
  obtain body where body: "breakLines enc = body @ [CHR 0x0A]"
    using False breakLines_lines [of enc] by (metis append_butlast_last_id)
  have safe: "c = CHR 0x0A \<or> pemSafe c" if "c \<in> set body" for c
    using that assms breakLines_lines [of enc] unfolding body by auto
  have dash: "CHR ''-'' \<notin> set body" using safe [of "CHR ''-''"] by (auto simp: pemSafe_def)
  have hd: "\<not> startsWith (body @ CHR 0x0A # x) ''-----END ''" for x
    using dash by (cases body) (auto simp: startsWith_def)
  have strip: "filter (\<lambda>c. c \<noteq> CHR 0x0A \<and> c \<noteq> CHR 0x0D) (filter (\<lambda>c. c \<noteq> CHR '' '' \<and> c \<noteq> CHR 0x09) body) =
      filter (\<lambda>c. c \<noteq> CHR 0x0A) body"
    unfolding filter_filter by (rule filter_cong [OF refl]) (use safe pemSafe_chars in blast)
  have "filter (\<lambda>c. c \<noteq> CHR 0x0A) enc = enc"
    by (rule filter_True) (use assms pemSafe_chars(1) in blast)
  with breakLines_lines [of enc] have "filter (\<lambda>c. c \<noteq> CHR 0x0A) body = enc" unfolding body by simp
  then show ?thesis
    using cutAt_end [OF dash, of "ty @ ''-----'' @ [CHR 0x0A]"] hd strip
    by (simp add: body pemBody_def startsWith_def getLine_def trimRightBlanks_def)
qed

theorem pem_roundtrip:
  assumes "CHR 0x0A \<notin> set ty" and "CHR '':'' \<notin> set ty"
  shows "pemDecode (pemEncode ty bs) = Some (ty, bs)"
proof -
  let ?rest = "breakLines (b64Encode bs) @ ''-----END '' @ ty @ ''-----'' @ [CHR 0x0A]"
  have start: "pemStart (pemEncode ty bs) = Some ((ty @ ''-----'') @ CHR 0x0A # ?rest)"
    by (simp add: pemStart_def pemEncode_def startsWith_def)
  have line: "getLine ((ty @ ''-----'') @ CHR 0x0A # ?rest) = (ty @ ''-----'', ?rest)"
    using assms(1) by (intro getLine_line) auto
  have safe: "set (b64Encode bs) \<subseteq> Collect pemSafe" using b64Encode_safe by blast
  then have "CHR '':'' \<notin> set ?rest"
    using assms(2) breakLines_lines [of "b64Encode bs"] by (auto dest!: pemSafe_chars(5))
  then have headers: "skipHeaders False ?rest = Some (False, ?rest)" by (intro skipHeaders_none) auto
  obtain body where "pemBody False ty ?rest = Some body"
    and "filter (\<lambda>c. c \<noteq> CHR 0x0A \<and> c \<noteq> CHR 0x0D) (filter (\<lambda>c. c \<noteq> CHR '' '' \<and> c \<noteq> CHR 0x09) body) = b64Encode bs"
    using pemBody_encoded [OF safe] by blast
  then show ?thesis
    using headers by (subst pemDecode.simps) (simp add: start line [simplified] b64Decode_def b64Quanta_b64Encode)
qed

end
