(* ===== verification/Self_Cert.thy ===== *)
theory Self_Cert
  imports Webhook Pem
begin

section \<open>The self-signed serving certificate\<close>

text \<open>
  \<open>internal/webhook/selfcert.go\<close>: the webhook issues its own CA and serving certificate, writes them to a Secret, patches
  the CA into the webhook configuration and rolls its Deployment; a rotator repeats this before the certificate
  expires. Parameters: the record \<open>x509_lib\<close> of randomised cryptographic functions (RSA keys, X.509
  certificates as DER bytes, chain verification), whose randomness is a state \<open>'r\<close> that is passed along, and the
  record \<open>kubeClient\<close> of the API calls on the state \<open>'s\<close> of the cluster. PEM and base64 are computed. Every call of
  \<open>time.Now\<close> is an argument: a pass may see a different time at each.
\<close>

subsection \<open>Parameters\<close>

text \<open>The fields of \<open>x509.Certificate\<close> that the code sets or reads; \<open>xc_Raw\<close> is empty in a template and holds the DER bytes of
  a parsed certificate.\<close>

record x509Certificate =
  xc_SerialNumber :: int
  xc_CommonName :: string
  xc_DNSNames :: "string list"
  xc_NotBefore :: int
  xc_NotAfter :: int
  xc_KeyUsage :: int
  xc_ExtKeyUsage :: "int list"
  xc_BasicConstraintsValid :: bool
  xc_IsCA :: bool
  xc_Raw :: string

record ('r, 'k) x509_lib =
  rsa_GenerateKey :: "'r \<Rightarrow> nat \<Rightarrow> (string + 'k) \<times> 'r"
  rand_Int :: "'r \<Rightarrow> int \<Rightarrow> (string + int) \<times> 'r"
  x509_CreateCertificate ::
    "'r \<Rightarrow> x509Certificate \<Rightarrow> x509Certificate \<Rightarrow> 'k \<Rightarrow> 'k \<Rightarrow> (string + string) \<times> 'r"
  x509_ParseCertificate :: "string \<Rightarrow> string + x509Certificate"
  x509_MarshalPKCS1PrivateKey :: "'k \<Rightarrow> string"
  x509_ParsePKCS1PrivateKey :: "string \<Rightarrow> string + 'k"
  x509_Verify :: "int \<Rightarrow> x509Certificate \<Rightarrow> x509Certificate list \<Rightarrow> bool"

record Secret =
  sec_Name :: string
  sec_Namespace :: string
  sec_Type :: string
  sec_ResourceVersion :: string
  sec_Data :: "(string, string) gomap"

text \<open>A Deployment as far as the rotator reads or writes it: the annotations of its pod template, a nil map or not.\<close>

record rolledDeployment =
  rd_Name :: string
  rd_ResourceVersion :: string
  rd_Annotations :: "(string, string) gomap option"

text \<open>The calls of the Kubernetes client; the right component of a read is Go's \<open>error\<close>.\<close>

record 's kubeClient =
  kc_GetSecret :: "'s \<Rightarrow> string \<Rightarrow> string \<Rightarrow> Secret option \<times> string option"
  kc_UpdateSecret :: "string \<Rightarrow> Secret \<Rightarrow> 's \<Rightarrow> string option \<times> 's"
  kc_CreateSecret :: "string \<Rightarrow> Secret \<Rightarrow> 's \<Rightarrow> string option \<times> 's"
  kc_PatchWebhookConfig :: "string \<Rightarrow> string \<Rightarrow> 's \<Rightarrow> string option \<times> 's"
  kc_GetDeployment :: "'s \<Rightarrow> string \<Rightarrow> string \<Rightarrow> string + rolledDeployment"
  kc_UpdateDeployment :: "string \<Rightarrow> rolledDeployment \<Rightarrow> 's \<Rightarrow> string option \<times> 's"

subsection \<open>Constants and errors\<close>

definition ServingCertSecretName :: string where "ServingCertSecretName = ''service-spread-webhook-serving-cert''"
definition caCertKey :: string where "caCertKey = ''ca.crt''"
definition tlsCertKey :: string where "tlsCertKey = ''tls.crt''"
definition tlsKeyKey :: string where "tlsKeyKey = ''tls.key''"
definition caLifeTime :: duration where "caLifeTime = 10 * 365 * 24 * Hour"
definition leafLifeTime :: duration where "leafLifeTime = 90 * 24 * Hour"
definition refreshWhenLeft :: duration where "refreshWhenLeft = 30 * 24 * Hour"
definition WebhookDeploymentName :: string where "WebhookDeploymentName = ''service-spread-webhook''"
definition SecretTypeTLS :: string where "SecretTypeTLS = ''kubernetes.io/tls''"

definition KeyUsageDigitalSignature :: int where "KeyUsageDigitalSignature = 1"
definition KeyUsageKeyEncipherment :: int where "KeyUsageKeyEncipherment = 4"
definition KeyUsageCertSign :: int where "KeyUsageCertSign = 32"
definition ExtKeyUsageServerAuth :: int where "ExtKeyUsageServerAuth = 1"

datatype certError =
    LibError string
  | DnsNamesRequired
  | CAPemUndecodable
  | CAKeyPemUndecodable
  | SecretLacksKeys string string string string
  | GenerateCAFailed certError
  | GenerateLeafFailed certError
  | WriteSecretFailed string string
  | PatchFailed string string
  | RollFailed string

subsection \<open>Issuing\<close>

record CA =
  ca_CertPEM :: string
  ca_KeyPEM :: string

record Leaf =
  leaf_CertPEM :: string
  leaf_KeyPEM :: string

definition rsaKey :: "('r, 'k) x509_lib \<Rightarrow> 'r \<Rightarrow> (string + 'k) \<times> 'r" where
  "rsaKey lib r = rsa_GenerateKey lib r 2048"

definition serial :: "('r, 'k) x509_lib \<Rightarrow> 'r \<Rightarrow> (string + int) \<times> 'r" where
  "serial lib r = (let limit = push_bit 128 1 in rand_Int lib r limit)"

definition caTemplate :: "int \<Rightarrow> int \<Rightarrow> duration \<Rightarrow> x509Certificate" where
  "caTemplate ser now ttl =
     \<lparr>xc_SerialNumber = ser, xc_CommonName = ''service-spread-webhook-ca'', xc_DNSNames = [],
      xc_NotBefore = now - Hour, xc_NotAfter = now + ttl,
      xc_KeyUsage = (KeyUsageCertSign OR KeyUsageDigitalSignature), xc_ExtKeyUsage = [],
      xc_BasicConstraintsValid = True, xc_IsCA = True, xc_Raw = []\<rparr>"

definition GenerateCA :: "('r, 'k) x509_lib \<Rightarrow> duration \<Rightarrow> int \<Rightarrow> 'r \<Rightarrow> (certError + CA) \<times> 'r" where
  "GenerateCA lib ttl now r =
     (case rsaKey lib r of
        (Inl e, r1) \<Rightarrow> (Inl (LibError e), r1)
      | (Inr key, r1) \<Rightarrow>
          (case serial lib r1 of
             (Inl e, r2) \<Rightarrow> (Inl (LibError e), r2)
           | (Inr ser, r2) \<Rightarrow>
               (let tmpl = caTemplate ser now ttl
                in case x509_CreateCertificate lib r2 tmpl tmpl key key of
                     (Inl e, r3) \<Rightarrow> (Inl (LibError e), r3)
                   | (Inr der, r3) \<Rightarrow>
                       (Inr \<lparr>ca_CertPEM = pemEncode ''CERTIFICATE'' der,
                             ca_KeyPEM = pemEncode ''RSA PRIVATE KEY'' (x509_MarshalPKCS1PrivateKey lib key)\<rparr>, r3))))"

definition leafTemplate :: "int \<Rightarrow> string list \<Rightarrow> int \<Rightarrow> duration \<Rightarrow> x509Certificate" where
  "leafTemplate ser dnsNames now ttl =
     \<lparr>xc_SerialNumber = ser, xc_CommonName = hd dnsNames, xc_DNSNames = dnsNames,
      xc_NotBefore = now - Hour, xc_NotAfter = now + ttl,
      xc_KeyUsage = (KeyUsageDigitalSignature OR KeyUsageKeyEncipherment), xc_ExtKeyUsage = [ExtKeyUsageServerAuth],
      xc_BasicConstraintsValid = False, xc_IsCA = False, xc_Raw = []\<rparr>"

text \<open>The CA of a \<open>CA\<close> value, parsed: the certificate and its key, or the error of the first step that fails.\<close>

definition parseCA :: "('r, 'k) x509_lib \<Rightarrow> CA \<Rightarrow> certError + x509Certificate \<times> 'k" where
  "parseCA lib c =
     (case pemDecode (ca_CertPEM c) of
        None \<Rightarrow> Inl CAPemUndecodable
      | Some (_, caBytes) \<Rightarrow>
          (case x509_ParseCertificate lib caBytes of
             Inl e \<Rightarrow> Inl (LibError e)
           | Inr caParsed \<Rightarrow>
               (case pemDecode (ca_KeyPEM c) of
                  None \<Rightarrow> Inl CAKeyPemUndecodable
                | Some (_, keyBytes) \<Rightarrow>
                    (case x509_ParsePKCS1PrivateKey lib keyBytes of
                       Inl e \<Rightarrow> Inl (LibError e)
                     | Inr caPriv \<Rightarrow> Inr (caParsed, caPriv)))))"

definition GenerateLeaf ::
    "('r, 'k) x509_lib \<Rightarrow> CA \<Rightarrow> string list \<Rightarrow> duration \<Rightarrow> int \<Rightarrow> 'r \<Rightarrow> (certError + Leaf) \<times> 'r" where
  "GenerateLeaf lib c dnsNames ttl now r =
     (if length dnsNames = 0 then (Inl DnsNamesRequired, r)
      else case parseCA lib c of
        Inl e \<Rightarrow> (Inl e, r)
      | Inr (caParsed, caPriv) \<Rightarrow>
          (case rsaKey lib r of
             (Inl e, r1) \<Rightarrow> (Inl (LibError e), r1)
           | (Inr key, r1) \<Rightarrow>
               (case serial lib r1 of
                  (Inl e, r2) \<Rightarrow> (Inl (LibError e), r2)
                | (Inr ser, r2) \<Rightarrow>
                    (case x509_CreateCertificate lib r2 (leafTemplate ser dnsNames now ttl) caParsed key caPriv of
                       (Inl e, r3) \<Rightarrow> (Inl (LibError e), r3)
                     | (Inr der, r3) \<Rightarrow>
                         (Inr \<lparr>leaf_CertPEM = pemEncode ''CERTIFICATE'' der,
                               leaf_KeyPEM = pemEncode ''RSA PRIVATE KEY'' (x509_MarshalPKCS1PrivateKey lib key)\<rparr>, r3)))))"

subsection \<open>Inspecting\<close>

definition LeafNeedsRotation :: "('r, 'k) x509_lib \<Rightarrow> string \<Rightarrow> duration \<Rightarrow> int \<Rightarrow> bool" where
  "LeafNeedsRotation lib certPEM threshold now =
     (case pemDecode certPEM of
        None \<Rightarrow> True
      | Some (_, bytes) \<Rightarrow>
          (case x509_ParseCertificate lib bytes of
             Inl e \<Rightarrow> True
           | Inr crt \<Rightarrow> timeSub (xc_NotAfter crt) now < threshold))"

definition leafSignedBy :: "('r, 'k) x509_lib \<Rightarrow> string \<Rightarrow> string \<Rightarrow> int \<Rightarrow> bool" where
  "leafSignedBy lib leafPEM caPEM now =
     (case (pemDecode leafPEM, pemDecode caPEM) of
        (Some (_, lb), Some (_, cb)) \<Rightarrow>
          (case x509_ParseCertificate lib lb of
             Inl e \<Rightarrow> False
           | Inr leaf \<Rightarrow>
               (case x509_ParseCertificate lib cb of
                  Inl e \<Rightarrow> False
                | Inr ca \<Rightarrow> x509_Verify lib now leaf [ca]))
      | _ \<Rightarrow> False)"

subsection \<open>The Secret and the patch\<close>

text \<open>\<open>env\<close> is the value of the variable \<open>WEBHOOK_NAMESPACE\<close>, empty when it is not set.\<close>

definition WebhookNamespace :: "string \<Rightarrow> string" where
  "WebhookNamespace env = (if env \<noteq> '''' then env else ''service-spread-system'')"

definition SecretFromCerts :: "string \<Rightarrow> CA \<Rightarrow> Leaf \<Rightarrow> Secret" where
  "SecretFromCerts env ca leaf =
     \<lparr>sec_Name = ServingCertSecretName, sec_Namespace = WebhookNamespace env, sec_Type = SecretTypeTLS,
      sec_ResourceVersion = '''',
      sec_Data = [(caCertKey, ca_CertPEM ca), (tlsCertKey, leaf_CertPEM leaf), (tlsKeyKey, leaf_KeyPEM leaf)]\<rparr>"

definition CertsFromSecret :: "Secret \<Rightarrow> certError + Leaf" where
  "CertsFromSecret sec =
     (case (mget (sec_Data sec) tlsCertKey, mget (sec_Data sec) tlsKeyKey) of
        (Some cert, Some key) \<Rightarrow> Inr \<lparr>leaf_CertPEM = cert, leaf_KeyPEM = key\<rparr>
      | _ \<Rightarrow> Inl (SecretLacksKeys (sec_Namespace sec) (sec_Name sec) tlsCertKey tlsKeyKey))"

text \<open>The patch is a slice of one map, whose keys \<open>json.Marshal\<close> sorts; encoding strings cannot fail.\<close>

definition CaBundlePatch :: "string \<Rightarrow> string \<Rightarrow> string" where
  "CaBundlePatch webhookConfigName caPEM =
     jsonArray [jsonStringMap [(''op'', ''replace''), (''path'', ''/webhooks/0/clientConfig/caBundle''),
       (''value'', b64Encode caPEM)]]"

definition ServingCertDNSNames :: "string \<Rightarrow> string list" where
  "ServingCertDNSNames ns =
     [''service-spread-webhook-service.'' @ ns @ ''.svc'',
      ''service-spread-webhook-service.'' @ ns @ ''.svc.cluster.local'']"

subsection \<open>The rotator\<close>

record 's CertRotator =
  cr_client :: "'s kubeClient"
  cr_secretNamespace :: string
  cr_webhookCfgName :: string
  cr_dnsNames :: "string list"

definition NewCertRotator :: "(string + 's kubeClient) \<Rightarrow> string \<Rightarrow> string \<Rightarrow> string list \<Rightarrow> string + 's CertRotator" where
  "NewCertRotator newForConfig env webhookCfgName dnsNames =
     (case newForConfig of
        Inl e \<Rightarrow> Inl e
      | Inr client \<Rightarrow>
          Inr \<lparr>cr_client = client, cr_secretNamespace = WebhookNamespace env, cr_webhookCfgName = webhookCfgName,
               cr_dnsNames = dnsNames\<rparr>)"

definition rollWebhookDeployment :: "'s CertRotator \<Rightarrow> int \<Rightarrow> 's \<Rightarrow> string option \<times> 's" where
  "rollWebhookDeployment rot now s =
     (case kc_GetDeployment (cr_client rot) s (cr_secretNamespace rot) WebhookDeploymentName of
        Inl e \<Rightarrow> (Some e, s)
      | Inr dep \<Rightarrow>
          (let ann = (case rd_Annotations dep of None \<Rightarrow> [] | Some m \<Rightarrow> m);
               dep' = dep\<lparr>rd_Annotations := Some (mput ann ''service-spread.io/cert-issued-at'' (formatRFC3339 now))\<rparr>
           in kc_UpdateDeployment (cr_client rot) (cr_secretNamespace rot) dep' s))"

text \<open>The instants a pass reads, in the order in which it reads them.\<close>

record passTimes =
  pt_until :: int
  pt_verify :: int
  pt_ca :: int
  pt_leaf :: int
  pt_roll :: int

definition readSecret :: "'s CertRotator \<Rightarrow> 's \<Rightarrow> Secret option \<times> string option" where
  "readSecret rot s = kc_GetSecret (cr_client rot) s (cr_secretNamespace rot) ServingCertSecretName"

text \<open>The condition for issuing. With a nil Secret and no error the code dereferences nil.\<close>

definition needIssue :: "('r, 'k) x509_lib \<Rightarrow> passTimes \<Rightarrow> Secret option \<times> string option \<Rightarrow> bool outcome" where
  "needIssue lib tm got =
     (case got of
        (osec, Some e) \<Rightarrow> Ret True
      | (None, None) \<Rightarrow> Panic ''nil pointer dereference''
      | (Some sec, None) \<Rightarrow>
          Ret (length (mgets (sec_Data sec) tlsCertKey) = 0 \<or>
               length (mgets (sec_Data sec) caCertKey) = 0 \<or>
               LeafNeedsRotation lib (mgets (sec_Data sec) tlsCertKey) refreshWhenLeft (pt_until tm) \<or>
               \<not> leafSignedBy lib (mgets (sec_Data sec) tlsCertKey) (mgets (sec_Data sec) caCertKey) (pt_verify tm)))"

text \<open>The Secret that is written. The second conjunct of the code's condition \<open>sec != nil && err == nil\<close> reads the \<open>err\<close> of
  \<open>GenerateLeaf\<close>, which is nil here, and not that of the read of the Secret.\<close>

definition secretToWrite :: "string \<Rightarrow> Secret option \<Rightarrow> CA \<Rightarrow> Leaf \<Rightarrow> Secret" where
  "secretToWrite env osec ca leaf =
     (case osec of
        None \<Rightarrow> SecretFromCerts env ca leaf
      | Some sec \<Rightarrow> (SecretFromCerts env ca leaf)
          \<lparr>sec_Type := sec_Type sec, sec_ResourceVersion := sec_ResourceVersion sec\<rparr>)"

definition writeSecret :: "'s CertRotator \<Rightarrow> Secret \<Rightarrow> 's \<Rightarrow> certError option \<times> 's" where
  "writeSecret rot sec s =
     (case kc_UpdateSecret (cr_client rot) (cr_secretNamespace rot) sec s of
        (None, s1) \<Rightarrow> (None, s1)
      | (Some e, s1) \<Rightarrow>
          (case kc_CreateSecret (cr_client rot) (cr_secretNamespace rot) sec s1 of
             (None, s2) \<Rightarrow> (None, s2)
           | (Some ce, s2) \<Rightarrow> (Some (WriteSecretFailed e ce), s2)))"

text \<open>What follows a successful write: the patch of the caBundle and, for \<open>Ensure\<close>, the rolling restart.\<close>

definition publish :: "'s CertRotator \<Rightarrow> passTimes \<Rightarrow> bool \<Rightarrow> CA \<Rightarrow> 's \<Rightarrow> (bool \<times> certError option) \<times> 's" where
  "publish rot tm roll ca s =
     (let patch = CaBundlePatch (cr_webhookCfgName rot) (ca_CertPEM ca)
      in case kc_PatchWebhookConfig (cr_client rot) (cr_webhookCfgName rot) patch s of
           (Some e, s1) \<Rightarrow> ((True, Some (PatchFailed (cr_webhookCfgName rot) e)), s1)
         | (None, s1) \<Rightarrow>
             (if roll then
                (case rollWebhookDeployment rot (pt_roll tm) s1 of
                   (Some e, s2) \<Rightarrow> ((True, Some (RollFailed e)), s2)
                 | (None, s2) \<Rightarrow> ((True, None), s2))
              else ((True, None), s1)))"

definition ensure ::
    "('r, 'k) x509_lib \<Rightarrow> string \<Rightarrow> 's CertRotator \<Rightarrow> passTimes \<Rightarrow> bool \<Rightarrow> 'r \<times> 's \<Rightarrow>
     ((bool \<times> certError option) \<times> 'r \<times> 's) outcome" where
  "ensure lib env rot tm roll = (\<lambda>(r, s).
     (let got = readSecret rot s
      in bindOutcome (needIssue lib tm got) (\<lambda>need.
           if \<not> need then Ret ((False, None), r, s)
           else case GenerateCA lib caLifeTime (pt_ca tm) r of
             (Inl e, r1) \<Rightarrow> Ret ((False, Some (GenerateCAFailed e)), r1, s)
           | (Inr ca, r1) \<Rightarrow>
               (case GenerateLeaf lib ca (cr_dnsNames rot) leafLifeTime (pt_leaf tm) r1 of
                  (Inl e, r2) \<Rightarrow> Ret ((False, Some (GenerateLeafFailed e)), r2, s)
                | (Inr leaf, r2) \<Rightarrow>
                    (case writeSecret rot (secretToWrite env (fst got) ca leaf) s of
                       (Some e, s1) \<Rightarrow> Ret ((False, Some e), r2, s1)
                     | (None, s1) \<Rightarrow>
                         (case publish rot tm roll ca s1 of (res, s2) \<Rightarrow> Ret (res, r2, s2)))))))"

definition Ensure where
  "Ensure lib env rot tm w = ensure lib env rot tm True w"

definition EnsureBootstrap where
  "EnsureBootstrap lib env rot tm w = ensure lib env rot tm False w"

text \<open>\<open>Run\<close>: one pass, then one per tick until the context ends. A tick carries the instants of its pass and what
  happened to the cluster before it; the collected errors are the lines of the log.\<close>

datatype 's certTick = CertTick "'s \<Rightarrow> 's" passTimes | CertDone

primrec RunTicks ::
    "('r, 'k) x509_lib \<Rightarrow> string \<Rightarrow> 's CertRotator \<Rightarrow> 's certTick list \<Rightarrow> certError list \<Rightarrow> 'r \<times> 's \<Rightarrow>
     (certError list \<times> 'r \<times> 's) outcome" where
  "RunTicks lib env rot [] logged w = Ret (logged, w)"
| "RunTicks lib env rot (e # es) logged w =
     (case e of
        CertDone \<Rightarrow> Ret (logged, w)
      | CertTick env_step tm \<Rightarrow>
          bindOutcome (Ensure lib env rot tm (fst w, env_step (snd w))) (\<lambda>(res, w').
            RunTicks lib env rot es (logged @ (case snd res of None \<Rightarrow> [] | Some err \<Rightarrow> [err])) w'))"

definition Run ::
    "('r, 'k) x509_lib \<Rightarrow> string \<Rightarrow> 's CertRotator \<Rightarrow> passTimes \<Rightarrow> 's certTick list \<Rightarrow> 'r \<times> 's \<Rightarrow>
     (certError list \<times> 'r \<times> 's) outcome" where
  "Run lib env rot tm ticks w =
     bindOutcome (Ensure lib env rot tm w) (\<lambda>(res, w').
       RunTicks lib env rot ticks (case snd res of None \<Rightarrow> [] | Some err \<Rightarrow> [err]) w')"

subsection \<open>Documented behaviour of the parameters\<close>

text \<open>Of \<open>crypto/x509\<close>: keys survive marshalling; a created certificate parses to the template's names, CA flag and
  validity, which is stored in whole seconds; and a server certificate created with a CA's certificate and key
  verifies against that CA while both are valid.\<close>

definition seconds_of :: "int \<Rightarrow> int \<Rightarrow> bool" where
  "seconds_of stored t \<longleftrightarrow> t - Second < stored \<and> stored \<le> t"

definition certifies :: "x509Certificate \<Rightarrow> x509Certificate \<Rightarrow> bool" where
  "certifies crt tmpl \<longleftrightarrow> xc_DNSNames crt = xc_DNSNames tmpl \<and> xc_IsCA crt = xc_IsCA tmpl \<and>
     seconds_of (xc_NotBefore crt) (xc_NotBefore tmpl) \<and> seconds_of (xc_NotAfter crt) (xc_NotAfter tmpl)"

definition valid_at :: "int \<Rightarrow> x509Certificate \<Rightarrow> bool" where
  "valid_at now crt \<longleftrightarrow> xc_NotBefore crt \<le> now \<and> now \<le> xc_NotAfter crt"

definition x509_laws :: "('r, 'k) x509_lib \<Rightarrow> bool" where
  "x509_laws lib \<longleftrightarrow>
     (\<forall>k. x509_ParsePKCS1PrivateKey lib (x509_MarshalPKCS1PrivateKey lib k) = Inr k) \<and>
     (\<forall>r tmpl parent pub priv der r'. x509_CreateCertificate lib r tmpl parent pub priv = (Inr der, r') \<longrightarrow>
        (\<exists>crt. x509_ParseCertificate lib der = Inr crt \<and> certifies crt tmpl)) \<and>
     (\<forall>r ct ck cder r' ca r1 lt lk lder r1' leaf now.
        x509_CreateCertificate lib r ct ct ck ck = (Inr cder, r') \<and> x509_ParseCertificate lib cder = Inr ca \<and>
        xc_IsCA ct \<and> xc_BasicConstraintsValid ct \<and> bit (xc_KeyUsage ct) 5 \<and>
        x509_CreateCertificate lib r1 lt ca lk ck = (Inr lder, r1') \<and> x509_ParseCertificate lib lder = Inr leaf \<and>
        ExtKeyUsageServerAuth \<in> set (xc_ExtKeyUsage lt) \<and> valid_at now ca \<and> valid_at now leaf \<longrightarrow>
        x509_Verify lib now leaf [ca])"

lemma x509_lawsD:
  assumes "x509_laws lib"
  shows "x509_ParsePKCS1PrivateKey lib (x509_MarshalPKCS1PrivateKey lib k) = Inr k"
    and "x509_CreateCertificate lib r tmpl parent pub priv = (Inr der, r') \<Longrightarrow>
      \<exists>crt. x509_ParseCertificate lib der = Inr crt \<and> certifies crt tmpl"
    and "x509_CreateCertificate lib r ct ct ck ck = (Inr cder, r') \<Longrightarrow> x509_ParseCertificate lib cder = Inr ca \<Longrightarrow>
      xc_IsCA ct \<Longrightarrow> xc_BasicConstraintsValid ct \<Longrightarrow> bit (xc_KeyUsage ct) 5 \<Longrightarrow>
      x509_CreateCertificate lib r1 lt ca lk ck = (Inr lder, r1') \<Longrightarrow> x509_ParseCertificate lib lder = Inr leaf \<Longrightarrow>
      ExtKeyUsageServerAuth \<in> set (xc_ExtKeyUsage lt) \<Longrightarrow> valid_at now ca \<Longrightarrow> valid_at now leaf \<Longrightarrow>
      x509_Verify lib now leaf [ca]"
  using assms [unfolded x509_laws_def, THEN conjunct1] assms [unfolded x509_laws_def, THEN conjunct2, THEN conjunct1]
    assms [unfolded x509_laws_def, THEN conjunct2, THEN conjunct2]
  by (blast, metis, metis)

text \<open>Of the API server: a successful write is what the next read answers, and neither the webhook configuration nor the
  Deployment is a Secret.\<close>

definition client_laws :: "'s kubeClient \<Rightarrow> string \<Rightarrow> bool" where
  "client_laws cl ns \<longleftrightarrow>
     (\<forall>sec s s'. kc_UpdateSecret cl ns sec s = (None, s') \<or> kc_CreateSecret cl ns sec s = (None, s') \<longrightarrow>
        (\<exists>sec'. kc_GetSecret cl s' ns (sec_Name sec) = (Some sec', None) \<and> sec_Data sec' = sec_Data sec)) \<and>
     (\<forall>name p s. kc_GetSecret cl (snd (kc_PatchWebhookConfig cl name p s)) = kc_GetSecret cl s) \<and>
     (\<forall>dep s. kc_GetSecret cl (snd (kc_UpdateDeployment cl ns dep s)) = kc_GetSecret cl s)"

lemma client_lawsD:
  assumes "client_laws cl ns"
  shows "kc_UpdateSecret cl ns sec s = (None, s') \<or> kc_CreateSecret cl ns sec s = (None, s') \<Longrightarrow>
      \<exists>sec'. kc_GetSecret cl s' ns (sec_Name sec) = (Some sec', None) \<and> sec_Data sec' = sec_Data sec"
    and "kc_PatchWebhookConfig cl name p s = (e, s') \<Longrightarrow> kc_GetSecret cl s' = kc_GetSecret cl s"
    and "kc_UpdateDeployment cl ns dep s = (e, s') \<Longrightarrow> kc_GetSecret cl s' = kc_GetSecret cl s"
  using assms [unfolded client_laws_def, THEN conjunct1] assms [unfolded client_laws_def, THEN conjunct2, THEN conjunct1]
    assms [unfolded client_laws_def, THEN conjunct2, THEN conjunct2]
  by (metis, metis snd_conv, metis snd_conv)

subsection \<open>An issued pair\<close>

text \<open>Both names are free of the characters that PEM lines reserve.\<close>

lemma pem_types [simp]:
  "pemDecode (pemEncode ''CERTIFICATE'' bs) = Some (''CERTIFICATE'', bs)"
  "pemDecode (pemEncode ''RSA PRIVATE KEY'' bs) = Some (''RSA PRIVATE KEY'', bs)"
  by (rule pem_roundtrip; simp)+

lemma GenerateCA_Inr:
  assumes "GenerateCA lib ttl now r = (Inr ca, r')"
  obtains key ser r2 r3 der where
    "x509_CreateCertificate lib r2 (caTemplate ser now ttl) (caTemplate ser now ttl) key key = (Inr der, r3)"
    "ca_CertPEM ca = pemEncode ''CERTIFICATE'' der"
    "ca_KeyPEM ca = pemEncode ''RSA PRIVATE KEY'' (x509_MarshalPKCS1PrivateKey lib key)"
  using assms unfolding GenerateCA_def Let_def by (auto split: prod.splits sum.splits)

lemma GenerateLeaf_Inr:
  assumes "GenerateLeaf lib ca names ttl now r = (Inr leaf, r')"
  obtains key ser r2 r3 der caParsed caPriv where
    "names \<noteq> []" "parseCA lib ca = Inr (caParsed, caPriv)"
    "x509_CreateCertificate lib r2 (leafTemplate ser names now ttl) caParsed key caPriv = (Inr der, r3)"
    "leaf_CertPEM leaf = pemEncode ''CERTIFICATE'' der"
    "leaf_KeyPEM leaf = pemEncode ''RSA PRIVATE KEY'' (x509_MarshalPKCS1PrivateKey lib key)"
  using assms unfolding GenerateLeaf_def by (auto split: prod.splits sum.splits if_splits)

text \<open>The parsed CA and leaf of a pair that was issued at \<open>t0\<close> and \<open>t1\<close>.\<close>

lemma issued_pair:
  assumes laws: "x509_laws lib" and ca: "GenerateCA lib caTTL t0 r0 = (Inr ca, r1)"
    and leaf: "GenerateLeaf lib ca names ttl t1 r2 = (Inr leaf, r3)"
  obtains cder cacrt lder crt where
    "ca_CertPEM ca = pemEncode ''CERTIFICATE'' cder" "x509_ParseCertificate lib cder = Inr cacrt"
    "leaf_CertPEM leaf = pemEncode ''CERTIFICATE'' lder" "x509_ParseCertificate lib lder = Inr crt"
    "xc_DNSNames crt = names" "names \<noteq> []"
    "seconds_of (xc_NotAfter crt) (t1 + ttl)" "seconds_of (xc_NotAfter cacrt) (t0 + caTTL)"
    "xc_NotBefore crt \<le> t1 - Hour" "xc_NotBefore cacrt \<le> t0 - Hour"
    "\<And>now. valid_at now cacrt \<Longrightarrow> valid_at now crt \<Longrightarrow> x509_Verify lib now crt [cacrt]"
proof -
  obtain ckey cser c2 c3 cder where c: "x509_CreateCertificate lib c2 (caTemplate cser t0 caTTL) (caTemplate cser t0 caTTL) ckey ckey = (Inr cder, c3)"
    "ca_CertPEM ca = pemEncode ''CERTIFICATE'' cder"
    "ca_KeyPEM ca = pemEncode ''RSA PRIVATE KEY'' (x509_MarshalPKCS1PrivateKey lib ckey)"
    using GenerateCA_Inr [OF ca] .
  from x509_lawsD(2) [OF laws c(1)] obtain cacrt where
    cacrt: "x509_ParseCertificate lib cder = Inr cacrt" "certifies cacrt (caTemplate cser t0 caTTL)" by blast
  have parse: "parseCA lib ca = Inr (cacrt, ckey)"
    by (simp add: parseCA_def c(2,3) cacrt(1) x509_lawsD(1) [OF laws])
  obtain lkey lser l2 l3 lder where l: "names \<noteq> []"
    "x509_CreateCertificate lib l2 (leafTemplate lser names t1 ttl) cacrt lkey ckey = (Inr lder, l3)"
    "leaf_CertPEM leaf = pemEncode ''CERTIFICATE'' lder"
    using GenerateLeaf_Inr [OF leaf] unfolding parse sum.inject prod.inject by metis
  from x509_lawsD(2) [OF laws l(2)] obtain crt where
    crt: "x509_ParseCertificate lib lder = Inr crt" "certifies crt (leafTemplate lser names t1 ttl)" by blast
  have usage: "bit (xc_KeyUsage (caTemplate cser t0 caTTL)) 5"
    by (simp add: caTemplate_def KeyUsageCertSign_def KeyUsageDigitalSignature_def bit_or_iff bit_iff_odd)
  have "x509_Verify lib now crt [cacrt]" if "valid_at now cacrt" "valid_at now crt" for now
    by (rule x509_lawsD(3) [OF laws c(1) cacrt(1) _ _ usage l(2) crt(1) _ that])
      (simp_all add: caTemplate_def leafTemplate_def)
  with c(2) cacrt l(1,3) crt that show thesis
    by (auto simp: certifies_def caTemplate_def leafTemplate_def seconds_of_def)
qed

lemma timeSub_less:
  assumes "0 \<le> thr" and "thr < 2 ^ 63"
  shows "timeSub a b < thr \<longleftrightarrow> a - b < thr"
  using assms by (auto simp: timeSub_def)

lemma pemEncode_Cons: "pemEncode ty bs \<noteq> []"
  by (simp add: pemEncode_def)

text \<open>C25: A freshly issued pair does its job. Whenever \<open>GenerateCA\<close> and \<open>GenerateLeaf\<close> succeed, the leaf is issued for exactly
  the requested names; it verifies against the CA from an hour before it was issued until either
  expires; and \<open>LeafNeedsRotation\<close> answers false as long as the threshold and one second remain, and
  true once less than the threshold remains.\<close>

theorem issued_leaf_is_valid:
  assumes "x509_laws lib" and "GenerateCA lib caTTL t0 r0 = (Inr ca, r1)"
    and "GenerateLeaf lib ca names ttl t1 r2 = (Inr leaf, r3)" and "0 \<le> thr" and "thr < 2 ^ 63"
  shows "(\<exists>der crt. pemDecode (leaf_CertPEM leaf) = Some (''CERTIFICATE'', der) \<and> x509_ParseCertificate lib der = Inr crt \<and>
      xc_DNSNames crt = names \<and> names \<noteq> []) \<and>
    (t0 - Hour \<le> now \<and> t1 - Hour \<le> now \<and> now \<le> t0 + caTTL - Second \<and> now \<le> t1 + ttl - Second \<longrightarrow>
      leafSignedBy lib (leaf_CertPEM leaf) (ca_CertPEM ca) now) \<and>
    (now \<le> t1 + ttl - thr - Second \<longrightarrow> \<not> LeafNeedsRotation lib (leaf_CertPEM leaf) thr now) \<and>
    (t1 + ttl - thr < now \<longrightarrow> LeafNeedsRotation lib (leaf_CertPEM leaf) thr now)"
  by (rule issued_pair [OF assms(1-3)])
    (auto simp: leafSignedBy_def LeafNeedsRotation_def timeSub_less [OF assms(4,5)] seconds_of_def valid_at_def)

text \<open>When a later pass finds nothing to do: within sixty days of the issue, less one second, on a clock that did not
  fall back by more than an hour, and before the CA expires.\<close>

definition quiet_period :: "passTimes \<Rightarrow> passTimes \<Rightarrow> bool" where
  "quiet_period issue later \<longleftrightarrow>
     pt_ca issue - Hour \<le> pt_verify later \<and> pt_leaf issue - Hour \<le> pt_verify later \<and>
     pt_verify later \<le> pt_ca issue + caLifeTime - Second \<and>
     pt_verify later \<le> pt_leaf issue + 60 * 24 * Hour - Second \<and>
     pt_until later \<le> pt_leaf issue + 60 * 24 * Hour - Second"

lemma pair_accepted:
  assumes "x509_laws lib" and "GenerateCA lib caLifeTime (pt_ca tm) r0 = (Inr ca, r1)"
    and "GenerateLeaf lib ca names leafLifeTime (pt_leaf tm) r2 = (Inr leaf, r3)"
    and "sec_Data sec = sec_Data (SecretFromCerts env ca leaf)" and "quiet_period tm tm'"
  shows "needIssue lib tm' (Some sec, None) = Ret False"
proof -
  have data: "mgets (sec_Data sec) tlsCertKey = leaf_CertPEM leaf" "mgets (sec_Data sec) caCertKey = ca_CertPEM ca"
    by (simp_all add: assms(4) SecretFromCerts_def caCertKey_def tlsCertKey_def mgets_def)
  have thr: "timeSub a b < 2592000000000000 \<longleftrightarrow> a - b < 2592000000000000" for a b by (rule timeSub_less) simp_all
  show ?thesis
    by (rule issued_pair [OF assms(1-3)], insert assms(5))
      (simp add: needIssue_def data leafSignedBy_def LeafNeedsRotation_def thr pemEncode_Cons
        quiet_period_def seconds_of_def valid_at_def refreshWhenLeft_def leafLifeTime_def duration_defs)
qed

subsection \<open>Passes\<close>

lemma writeSecret_read:
  assumes "client_laws (cr_client rot) (cr_secretNamespace rot)" and "writeSecret rot sec s = (None, s1)"
  obtains sec' where "kc_GetSecret (cr_client rot) s1 (cr_secretNamespace rot) (sec_Name sec) = (Some sec', None)"
    "sec_Data sec' = sec_Data sec"
proof -
  have "\<exists>s0. kc_UpdateSecret (cr_client rot) (cr_secretNamespace rot) sec s0 = (None, s1) \<or>
      kc_CreateSecret (cr_client rot) (cr_secretNamespace rot) sec s0 = (None, s1)"
    using assms(2) unfolding writeSecret_def by (auto split: prod.splits option.splits)
  with client_lawsD(1) [OF assms(1)] that show thesis by metis
qed

lemma publish_True: "publish rot tm roll ca s = (res, s') \<Longrightarrow> fst res"
  by (auto simp: publish_def Let_def split: prod.splits option.splits if_splits)

lemma publish_ok:
  "publish rot tm roll ca s = ((True, None), s') \<Longrightarrow>
     \<exists>s2. kc_PatchWebhookConfig (cr_client rot) (cr_webhookCfgName rot) (CaBundlePatch (cr_webhookCfgName rot) (ca_CertPEM ca)) s = (None, s2) \<and>
       (if roll then rollWebhookDeployment rot (pt_roll tm) s2 = (None, s') else s' = s2)"
  by (auto simp: publish_def Let_def split: prod.splits option.splits if_splits)

lemma publish_keeps_Secret:
  assumes "client_laws (cr_client rot) (cr_secretNamespace rot)" and "publish rot tm roll ca s = (res, s')"
  shows "kc_GetSecret (cr_client rot) s' = kc_GetSecret (cr_client rot) s"
proof -
  have "kc_GetSecret (cr_client rot) s1 = kc_GetSecret (cr_client rot) s0"
    if "rollWebhookDeployment rot now s0 = (e, s1)" for now s0 e s1
    using that client_lawsD(3) [OF assms(1)] unfolding rollWebhookDeployment_def Let_def by (auto split: sum.splits)
  with client_lawsD(2) [OF assms(1)] assms(2) show ?thesis
    unfolding publish_def Let_def by (auto split: prod.splits option.splits if_splits)
qed

lemma ensure_issued:
  assumes "ensure lib env rot tm roll (r, s) = Ret ((True, e), r', s')"
  obtains ca leaf r1 s1 where
    "GenerateCA lib caLifeTime (pt_ca tm) r = (Inr ca, r1)"
    "GenerateLeaf lib ca (cr_dnsNames rot) leafLifeTime (pt_leaf tm) r1 = (Inr leaf, r')"
    "writeSecret rot (secretToWrite env (fst (readSecret rot s)) ca leaf) s = (None, s1)"
    "publish rot tm roll ca s1 = ((True, e), s')"
  using assms unfolding ensure_def Let_def
  by (auto simp: bindOutcome_Ret_iff split: if_splits prod.splits sum.splits option.splits)

lemma secretToWrite_simps:
  "sec_Name (secretToWrite env osec ca leaf) = ServingCertSecretName"
  "sec_Data (secretToWrite env osec ca leaf) = sec_Data (SecretFromCerts env ca leaf)"
  by (simp_all add: secretToWrite_def SecretFromCerts_def split: option.split)

lemma pass_after_issue:
  assumes "x509_laws lib" and "client_laws (cr_client rot) (cr_secretNamespace rot)"
    and "ensure lib env rot tm roll (r, s) = Ret ((True, e), r', s')"
    and "kc_GetSecret (cr_client rot) s2 = kc_GetSecret (cr_client rot) s'" and "quiet_period tm tm'"
  shows "ensure lib env rot tm' roll' (r2, s2) = Ret ((False, None), r2, s2)"
proof -
  from ensure_issued [OF assms(3)] obtain ca leaf r1 s1 where
    ca: "GenerateCA lib caLifeTime (pt_ca tm) r = (Inr ca, r1)"
    and leaf: "GenerateLeaf lib ca (cr_dnsNames rot) leafLifeTime (pt_leaf tm) r1 = (Inr leaf, r')"
    and wr: "writeSecret rot (secretToWrite env (fst (readSecret rot s)) ca leaf) s = (None, s1)"
    and publish: "publish rot tm roll ca s1 = ((True, e), s')" .
  from writeSecret_read [OF assms(2) wr] obtain sec where
    "readSecret rot s1 = (Some sec, None)"
    and data: "sec_Data sec = sec_Data (SecretFromCerts env ca leaf)"
    unfolding secretToWrite_simps readSecret_def .
  then have "readSecret rot s2 = (Some sec, None)"
    by (simp add: readSecret_def assms(4) publish_keeps_Secret [OF assms(2) publish])
  then show ?thesis
    using pair_accepted [OF assms(1) ca leaf data assms(5)] by (simp add: ensure_def Let_def)
qed

subsection \<open>A concrete library and cluster\<close>

text \<open>The hypotheses on the parameters can hold: certificates as text, with times in unary, and a cluster of one Secret,
  one webhook configuration and one Deployment whose patch calls fail a given number of times.\<close>

fun splitBars :: "string \<Rightarrow> string \<Rightarrow> string list" where
  "splitBars acc [] = []"
| "splitBars acc (c # s) = (if c = CHR ''|'' then rev acc # splitBars [] s else splitBars (c # acc) s)"

definition barText :: "string list \<Rightarrow> string" where
  "barText xs = concat (map (\<lambda>x. x @ ''|'') xs)"

lemma splitBars_field: "CHR ''|'' \<notin> set x \<Longrightarrow> splitBars acc (x @ CHR ''|'' # s) = (rev acc @ x) # splitBars [] s"
  by (induction x arbitrary: acc) auto

lemma splitBars_barText: "\<forall>x \<in> set xs. CHR ''|'' \<notin> set x \<Longrightarrow> splitBars [] (barText xs) = xs"
  by (induction xs) (simp_all add: barText_def splitBars_field)

definition demoCreate :: "nat \<Rightarrow> x509Certificate \<Rightarrow> x509Certificate \<Rightarrow> nat \<Rightarrow> nat \<Rightarrow> (string + string) \<times> nat" where
  "demoCreate r tmpl parent pub priv =
     (if xc_NotBefore tmpl < 0 \<or> xc_NotAfter tmpl < 0 \<or> list_ex (\<lambda>d. CHR ''|'' \<in> set d) (xc_DNSNames tmpl)
      then (Inl ''unsupported'', r)
      else (Inr ((if xc_IsCA tmpl then CHR ''C'' else CHR ''L'') # barText (replicate (nat (xc_NotBefore tmpl)) (CHR ''x'') #
              replicate (nat (xc_NotAfter tmpl)) (CHR ''x'') # xc_DNSNames tmpl)), r))"

definition demoParse :: "string \<Rightarrow> string + x509Certificate" where
  "demoParse der =
     (case der of
        [] \<Rightarrow> Inl ''empty''
      | c # s \<Rightarrow>
          (case splitBars [] s of
             nb # na # names \<Rightarrow>
               Inr \<lparr>xc_SerialNumber = 0, xc_CommonName = '''', xc_DNSNames = names, xc_NotBefore = int (length nb),
                    xc_NotAfter = int (length na), xc_KeyUsage = 0, xc_ExtKeyUsage = [], xc_BasicConstraintsValid = True,
                    xc_IsCA = (c = CHR ''C''), xc_Raw = der\<rparr>
           | _ \<Rightarrow> Inl ''malformed''))"

definition demoLib :: "(nat, nat) x509_lib" where
  "demoLib =
     \<lparr>rsa_GenerateKey = (\<lambda>r bits. (Inr r, Suc r)), rand_Int = (\<lambda>r limit. (Inr (int r), Suc r)),
      x509_CreateCertificate = demoCreate, x509_ParseCertificate = demoParse,
      x509_MarshalPKCS1PrivateKey = (\<lambda>k. replicate k (CHR ''k'')),
      x509_ParsePKCS1PrivateKey = (\<lambda>s. Inr (length s)),
      x509_Verify = (\<lambda>now leaf roots. valid_at now leaf \<and> list_ex (\<lambda>ca. xc_IsCA ca \<and> valid_at now ca) roots)\<rparr>"

lemma demoLib_simps:
  "rsa_GenerateKey demoLib r bits = (Inr r, Suc r)" "rand_Int demoLib r limit = (Inr (int r), Suc r)"
  "x509_CreateCertificate demoLib = demoCreate" "x509_ParseCertificate demoLib = demoParse"
  "x509_MarshalPKCS1PrivateKey demoLib k = replicate k (CHR ''k'')" "x509_ParsePKCS1PrivateKey demoLib s = Inr (length s)"
  by (simp_all add: demoLib_def)

lemma demoCreate_parse:
  assumes "demoCreate r tmpl parent pub priv = (Inr der, r')"
  shows "\<exists>crt. demoParse der = Inr crt \<and> certifies crt tmpl"
proof -
  let ?fs = "replicate (nat (xc_NotBefore tmpl)) (CHR ''x'') # replicate (nat (xc_NotAfter tmpl)) (CHR ''x'') # xc_DNSNames tmpl"
  have ok: "0 \<le> xc_NotBefore tmpl" "0 \<le> xc_NotAfter tmpl" "\<forall>x \<in> set ?fs. CHR ''|'' \<notin> set x"
    and der: "der = (if xc_IsCA tmpl then CHR ''C'' else CHR ''L'') # barText ?fs"
    using assms by (auto simp: demoCreate_def list_ex_iff split: if_splits)
  from splitBars_barText [OF ok(3)] ok(1,2) show ?thesis
    by (simp add: der demoParse_def certifies_def seconds_of_def duration_defs)
qed

lemma demoLib_laws: "x509_laws demoLib"
proof -
  have verify: "x509_Verify demoLib now leaf [ca]"
    if "demoCreate r ct ct ck ck = (Inr cder, r')" "demoParse cder = Inr ca" "xc_IsCA ct" "valid_at now ca" "valid_at now leaf"
    for r ct ck cder r' ca now leaf
    using that demoCreate_parse [OF that(1)] by (auto simp: demoLib_def certifies_def)
  show ?thesis unfolding x509_laws_def
    using verify demoCreate_parse by (simp add: demoLib_def) blast
qed

record demoCluster =
  dc_secret :: "Secret option"
  dc_caBundle :: string
  dc_annotations :: "(string, string) gomap option"
  dc_patchFails :: nat

definition zeroSecret :: Secret where
  "zeroSecret = \<lparr>sec_Name = '''', sec_Namespace = '''', sec_Type = '''', sec_ResourceVersion = '''', sec_Data = []\<rparr>"

text \<open>As in client-go, a failed read answers with an empty object beside the error; the type of a Secret is immutable.\<close>

definition demoClient :: "demoCluster kubeClient" where
  "demoClient =
     \<lparr>kc_GetSecret = (\<lambda>s ns name. case dc_secret s of None \<Rightarrow> (Some zeroSecret, Some ''not found'') | Some sec \<Rightarrow> (Some sec, None)),
      kc_UpdateSecret = (\<lambda>ns sec s. case dc_secret s of
          None \<Rightarrow> (Some ''not found'', s)
        | Some old \<Rightarrow> if sec_Type old \<noteq> sec_Type sec then (Some ''type is immutable'', s) else (None, s\<lparr>dc_secret := Some sec\<rparr>)),
      kc_CreateSecret = (\<lambda>ns sec s. case dc_secret s of
          None \<Rightarrow> (None, s\<lparr>dc_secret := Some sec\<rparr>)
        | Some old \<Rightarrow> (Some ''already exists'', s)),
      kc_PatchWebhookConfig = (\<lambda>name p s. if dc_patchFails s = 0 then (None, s\<lparr>dc_caBundle := p\<rparr>)
        else (Some ''timeout'', s\<lparr>dc_patchFails := dc_patchFails s - 1\<rparr>)),
      kc_GetDeployment = (\<lambda>s ns name. Inr \<lparr>rd_Name = name, rd_ResourceVersion = '''', rd_Annotations = dc_annotations s\<rparr>),
      kc_UpdateDeployment = (\<lambda>ns dep s. (None, s\<lparr>dc_annotations := rd_Annotations dep\<rparr>))\<rparr>"

lemma demoClient_laws: "client_laws demoClient ns"
  by (auto simp: client_laws_def demoClient_def fun_eq_iff split: option.splits if_splits)

definition demoRotator :: "demoCluster CertRotator" where
  "demoRotator = \<lparr>cr_client = demoClient, cr_secretNamespace = ''ns1'', cr_webhookCfgName = ''service-spread-policy-validator'',
     cr_dnsNames = ServingCertDNSNames ''ns1''\<rparr>"

definition demoCluster0 :: "nat \<Rightarrow> demoCluster" where
  "demoCluster0 fails = \<lparr>dc_secret = None, dc_caBundle = ''old'', dc_annotations = None, dc_patchFails = fails\<rparr>"

definition demoTimes :: "int \<Rightarrow> passTimes" where
  "demoTimes t = \<lparr>pt_until = t, pt_verify = t, pt_ca = t, pt_leaf = t, pt_roll = t\<rparr>"

text \<open>On this library a pass at any time after the first hour issues a pair.\<close>

lemma demo_pair:
  assumes "Hour \<le> t"
  shows "\<exists>ca leaf. GenerateCA demoLib caLifeTime t 0 = (Inr ca, 2) \<and>
    GenerateLeaf demoLib ca (ServingCertDNSNames ''ns1'') leafLifeTime t 2 = (Inr leaf, 4)"
proof -
  have ca: "\<exists>der. demoCreate r (caTemplate ser t caLifeTime) p k k' = (Inr der, r)" for r ser p k k'
    using assms by (auto simp: demoCreate_def caTemplate_def caLifeTime_def duration_defs)
  have names: "\<not> list_ex (\<lambda>d. CHR ''|'' \<in> set d) (ServingCertDNSNames ''ns1'')"
    and nonempty: "ServingCertDNSNames ''ns1'' \<noteq> []" by (simp_all add: ServingCertDNSNames_def)
  have leaf: "\<exists>der. demoCreate r (leafTemplate ser (ServingCertDNSNames ''ns1'') t leafLifeTime) p k k' = (Inr der, r)" for r ser p k k'
    using assms names by (auto simp: demoCreate_def leafTemplate_def leafLifeTime_def duration_defs)
  let ?c = "caTemplate 1 t caLifeTime"
  obtain der where der: "demoCreate 2 ?c ?c 0 0 = (Inr der, 2)" using ca by blast
  let ?ca = "\<lparr>ca_CertPEM = pemEncode ''CERTIFICATE'' der, ca_KeyPEM = pemEncode ''RSA PRIVATE KEY'' []\<rparr>"
  have gen: "GenerateCA demoLib caLifeTime t 0 = (Inr ?ca, 2)"
    using der by (simp add: GenerateCA_def rsaKey_def serial_def demoLib_simps numeral_2_eq_2)
  obtain crt where "demoParse der = Inr crt" using demoCreate_parse [OF der] by blast
  then have parse: "parseCA demoLib ?ca = Inr (crt, 0)" by (simp add: parseCA_def demoLib_simps)
  obtain ld where "demoCreate 4 (leafTemplate 3 (ServingCertDNSNames ''ns1'') t leafLifeTime) crt 2 0 = (Inr ld, 4)"
    using leaf by blast
  then have "\<exists>leaf. GenerateLeaf demoLib ?ca (ServingCertDNSNames ''ns1'') leafLifeTime t 2 = (Inr leaf, 4)"
    using nonempty by (simp add: GenerateLeaf_def parse rsaKey_def serial_def demoLib_simps)
  with gen show ?thesis by blast
qed

definition demoPublished :: "nat \<Rightarrow> bool \<times> certError option" where
  "demoPublished fails = (True, if fails = 0 then None else Some (PatchFailed ''service-spread-policy-validator'' ''timeout''))"

lemma demo_pass:
  assumes "Hour \<le> t"
  obtains ca leaf where
    "ensure demoLib env demoRotator (demoTimes t) roll (0, demoCluster0 fails) =
       Ret (demoPublished fails, 4,
         \<lparr>dc_secret = Some (secretToWrite env (Some zeroSecret) ca leaf),
          dc_caBundle = (if fails = 0 then CaBundlePatch ''service-spread-policy-validator'' (ca_CertPEM ca) else ''old''),
          dc_annotations = (if fails = 0 \<and> roll then Some [(''service-spread.io/cert-issued-at'', formatRFC3339 t)] else None),
          dc_patchFails = fails - 1\<rparr>)"
proof -
  obtain ca leaf where ca: "GenerateCA demoLib caLifeTime t 0 = (Inr ca, 2)"
    and leaf: "GenerateLeaf demoLib ca (ServingCertDNSNames ''ns1'') leafLifeTime t 2 = (Inr leaf, 4)"
    using demo_pair [OF assms] by blast
  show thesis
    by (rule that [of ca leaf])
      (simp add: ensure_def readSecret_def needIssue_def ca leaf demoTimes_def demoRotator_def demoCluster0_def writeSecret_def publish_def
        rollWebhookDeployment_def demoClient_def demoPublished_def)
qed

lemma demo_later:
  assumes "ensure demoLib env demoRotator (demoTimes Hour) roll (0, demoCluster0 n) = Ret ((True, oe), 4, s)"
    and "1 \<le> k" and "k \<le> 24 * 60"
  shows "ensure demoLib env demoRotator (demoTimes (k * Hour)) roll' (4, s) = Ret ((False, None), 4, s)"
proof -
  have "client_laws (cr_client demoRotator) (cr_secretNamespace demoRotator)"
    by (simp add: demoRotator_def demoClient_laws)
  moreover have "quiet_period (demoTimes Hour) (demoTimes (k * Hour))"
    using assms(2,3) by (simp add: quiet_period_def demoTimes_def caLifeTime_def duration_defs)
  ultimately show ?thesis by (rule pass_after_issue [OF demoLib_laws _ assms(1) refl])
qed

theorem issued_leaf_is_valid_witness:
  "\<exists>(ca :: CA) (leaf :: Leaf). leafSignedBy demoLib (leaf_CertPEM leaf) (ca_CertPEM ca) (Hour + 24 * Hour) \<and>
     \<not> LeafNeedsRotation demoLib (leaf_CertPEM leaf) refreshWhenLeft (Hour + 24 * Hour)"
proof -
  obtain ca leaf where ca: "GenerateCA demoLib caLifeTime Hour 0 = (Inr ca, 2)"
    and leaf: "GenerateLeaf demoLib ca (ServingCertDNSNames ''ns1'') leafLifeTime Hour 2 = (Inr leaf, 4)"
    using demo_pair by blast
  have thr: "0 \<le> refreshWhenLeft" "refreshWhenLeft < 2 ^ 63" by (simp_all add: refreshWhenLeft_def duration_defs)
  have "leafSignedBy demoLib (leaf_CertPEM leaf) (ca_CertPEM ca) (Hour + 24 * Hour) \<and>
      \<not> LeafNeedsRotation demoLib (leaf_CertPEM leaf) refreshWhenLeft (Hour + 24 * Hour)"
    using issued_leaf_is_valid [OF demoLib_laws ca leaf thr, of "Hour + 24 * Hour"]
    by (simp add: caLifeTime_def leafLifeTime_def refreshWhenLeft_def duration_defs)
  then show ?thesis by blast
qed

subsection \<open>What a pass does\<close>

lemma ensure_quiet:
  "ensure lib env rot tm roll (r, s) = Ret ((False, None), r', s') \<longleftrightarrow>
     needIssue lib tm (readSecret rot s) = Ret False \<and> r' = r \<and> s' = s"
  unfolding ensure_def Let_def
  by (auto simp: bindOutcome_Ret_iff writeSecret_def dest: publish_True split: prod.splits sum.splits option.splits)





text \<open>Neither a failed patch of the caBundle nor the roll that a bootstrap skips is made up for later. After a
  pass whose patch fails, the following ticks log nothing and leave the webhook configuration with its old CA,
  although the API server would accept the patch again; after a bootstrap has issued, the leader never
  rolls the Deployment.\<close>

theorem unfinished_publication_is_final:
  "(\<exists>s. Run demoLib '''' demoRotator (demoTimes Hour)
        [CertTick id (demoTimes (13 * Hour)), CertTick id (demoTimes (25 * Hour))] (0, demoCluster0 1) =
      Ret ([PatchFailed ''service-spread-policy-validator'' ''timeout''], 4, s) \<and> dc_caBundle s = ''old'' \<and> dc_patchFails s = 0 \<and> dc_secret s \<noteq> None) \<and>
   (\<exists>s. EnsureBootstrap demoLib '''' demoRotator (demoTimes Hour) (0, demoCluster0 0) = Ret ((True, None), 4, s) \<and>
      Run demoLib '''' demoRotator (demoTimes (2 * Hour)) [CertTick id (demoTimes (14 * Hour))] (4, s) = Ret ([], 4, s) \<and>
      dc_annotations s = None)"
proof (intro conjI)
  obtain s1 where "ensure demoLib '''' demoRotator (demoTimes Hour) True (0, demoCluster0 1) =
      Ret ((True, Some (PatchFailed ''service-spread-policy-validator'' ''timeout'')), 4, s1)"
    and "dc_caBundle s1 = ''old''" "dc_patchFails s1 = 0" "dc_secret s1 \<noteq> None"
    by (rule demo_pass [of Hour "''''" True 1]) (simp_all add: demoPublished_def)
  with demo_later [of "''''" True 1 _ s1] show "\<exists>s. Run demoLib '''' demoRotator (demoTimes Hour)
        [CertTick id (demoTimes (13 * Hour)), CertTick id (demoTimes (25 * Hour))] (0, demoCluster0 1) =
      Ret ([PatchFailed ''service-spread-policy-validator'' ''timeout''], 4, s) \<and> dc_caBundle s = ''old'' \<and> dc_patchFails s = 0 \<and> dc_secret s \<noteq> None"
    by (simp add: Run_def Ensure_def)
  obtain s0 where "ensure demoLib '''' demoRotator (demoTimes Hour) False (0, demoCluster0 0) = Ret ((True, None), 4, s0)"
    and "dc_annotations s0 = None"
    by (rule demo_pass [of Hour "''''" False 0]) (simp_all add: demoPublished_def)
  with demo_later [of "''''" False 0 _ s0] show "\<exists>s. EnsureBootstrap demoLib '''' demoRotator (demoTimes Hour) (0, demoCluster0 0) = Ret ((True, None), 4, s) \<and>
      Run demoLib '''' demoRotator (demoTimes (2 * Hour)) [CertTick id (demoTimes (14 * Hour))] (4, s) = Ret ([], 4, s) \<and>
      dc_annotations s = None"
    by (simp add: Run_def Ensure_def EnsureBootstrap_def)
qed

text \<open>The Secret of a fresh install loses its type. \<open>SecretFromCerts\<close> asks for \<open>kubernetes.io/tls\<close>, but a failed read
  answers with an empty object beside the error, and the test that should skip the copy of its fields looks at the
  error of a later call: the Secret is created with the empty type.\<close>

theorem fresh_secret_loses_type:
  "sec_Type (SecretFromCerts env ca leaf) = ''kubernetes.io/tls'' \<and>
   (\<exists>s sec. Ensure demoLib '''' demoRotator (demoTimes Hour) (0, demoCluster0 0) = Ret ((True, None), 4, s) \<and>
      dc_secret s = Some sec \<and> sec_Type sec = '''')"
proof -
  have "\<exists>s sec. Ensure demoLib '''' demoRotator (demoTimes Hour) (0, demoCluster0 0) = Ret ((True, None), 4, s) \<and>
      dc_secret s = Some sec \<and> sec_Type sec = ''''"
    by (rule demo_pass [of Hour "''''" True 0])
      (simp_all add: Ensure_def demoPublished_def secretToWrite_def zeroSecret_def)
  then show ?thesis by (simp add: SecretFromCerts_def SecretTypeTLS_def)
qed

subsection \<open>Round trips\<close>

lemma jsonChars_b64: "jsonChars (b64Encode s) = b64Encode s"
proof -
  have plain: "byte (b64Char n) < 128 \<and> escapeAscii (b64Char n) = [b64Char n]" if "n < 64" for n
  proof -
    have "byte (b64Char n) \<ge> 43 \<and> byte (b64Char n) \<le> 122 \<and> byte (b64Char n) \<noteq> 60 \<and> byte (b64Char n) \<noteq> 62 \<and> byte (b64Char n) \<noteq> 92"
      using that unfolding byte_b64Char [OF that] by auto
    then show ?thesis by (auto simp: escapeAscii_def)
  qed
  have "byte c < 128 \<and> escapeAscii c = [c]" if "c \<in> set (b64Encode s)" for c
    using that
    by (induction s rule: b64Encode.induct) (auto simp: plain sextets, simp_all add: escapeAscii_def)
  moreover have "\<forall>c \<in> set t. byte c < 128 \<and> escapeAscii c = [c] \<Longrightarrow> jsonChars t = t" for t
    by (induction t) auto
  ultimately show ?thesis by blast
qed

text \<open>C38: What is written can be read back. The leaf of a Secret made by \<open>SecretFromCerts\<close> is the leaf it was made from;
  and the JSON patch replaces exactly the caBundle of the first webhook by text that decodes to the very
  CA certificate that the Secret holds.\<close>

theorem published_certificates_roundtrip:
  "CertsFromSecret (SecretFromCerts env ca leaf) = Inr \<lparr>leaf_CertPEM = leaf_CertPEM leaf, leaf_KeyPEM = leaf_KeyPEM leaf\<rparr> \<and>
   (\<exists>value. CaBundlePatch name (ca_CertPEM ca) =
      ''[{'' @ jsonString ''op'' @ '':'' @ jsonString ''replace'' @ '','' @ jsonString ''path'' @ '':'' @
      jsonString ''/webhooks/0/clientConfig/caBundle'' @ '','' @ jsonString ''value'' @ '':'' @ [CHR 0x22] @ value @ [CHR 0x22] @ ''}]'' \<and>
      b64Decode value = mget (sec_Data (SecretFromCerts env ca leaf)) caCertKey)"
proof -
  have "sort_key fst [(''op'', x), (''path'', y), (''value'', z)] = [(''op'', x), (''path'', y), (''value'', z)]" for x y z :: string
    by simp
  then show ?thesis
    by (simp add: CertsFromSecret_def SecretFromCerts_def caCertKey_def tlsCertKey_def tlsKeyKey_def CaBundlePatch_def
        jsonArray_def jsonStringMap_def jsonObject_def jsonMember_def jsonString_def [of "b64Encode _"] jsonChars_b64 b64_roundtrip)
qed

end
