(* ===== verification/Replicas.thy ===== *)
theory Replicas
  imports Self_Cert
begin

section \<open>Concurrent replicas of the webhook\<close>

text \<open>
  Every replica of the webhook runs a pass of \<open>ensure\<close> when it starts (\<open>EnsureBootstrap\<close>), and the leader one per tick. The passes of
  different replicas interleave between their API calls. This theory cuts \<open>ensure\<close> of \<open>internal/webhook/selfcert.go\<close> at
  its API calls, shows that the pieces run to \<open>ensure\<close>, and lets replicas interleave them as a step relation.
\<close>

subsection \<open>A pass, call by call\<close>

text \<open>Where a pass stands, with the local variables that are still read: before the read of the Secret; after it; with a new
  Secret to update; after a failed update; with the Secret written; with the caBundle patched; with the
  Deployment read; and done with the results.\<close>

datatype certPhase =
    PassStart
  | SecretRead "Secret option \<times> string option"
  | Issued Secret CA
  | UpdateFailed string Secret CA
  | SecretWritten CA
  | CaPatched
  | DeploymentRead rolledDeployment
  | PassDone "bool \<times> certError option"

definition issueStep ::
    "('r, 'k) x509_lib \<Rightarrow> string \<Rightarrow> 's CertRotator \<Rightarrow> passTimes \<Rightarrow> Secret option \<times> string option \<Rightarrow> 'r \<Rightarrow> (certPhase \<times> 'r) outcome" where
  "issueStep lib env rot tm got r =
     bindOutcome (needIssue lib tm got) (\<lambda>need.
       if \<not> need then Ret (PassDone (False, None), r)
       else case GenerateCA lib caLifeTime (pt_ca tm) r of
         (Inl e, r1) \<Rightarrow> Ret (PassDone (False, Some (GenerateCAFailed e)), r1)
       | (Inr ca, r1) \<Rightarrow>
           (case GenerateLeaf lib ca (cr_dnsNames rot) leafLifeTime (pt_leaf tm) r1 of
              (Inl e, r2) \<Rightarrow> Ret (PassDone (False, Some (GenerateLeafFailed e)), r2)
            | (Inr leaf, r2) \<Rightarrow> Ret (Issued (secretToWrite env (fst got) ca leaf) ca, r2)))"

definition callStep :: "'s CertRotator \<Rightarrow> passTimes \<Rightarrow> bool \<Rightarrow> certPhase \<Rightarrow> 's \<Rightarrow> certPhase \<times> 's" where
  "callStep rot tm roll ph s =
     (case ph of
        PassStart \<Rightarrow> (SecretRead (readSecret rot s), s)
      | Issued sec ca \<Rightarrow>
          (case kc_UpdateSecret (cr_client rot) (cr_secretNamespace rot) sec s of
             (None, s1) \<Rightarrow> (SecretWritten ca, s1)
           | (Some e, s1) \<Rightarrow> (UpdateFailed e sec ca, s1))
      | UpdateFailed e sec ca \<Rightarrow>
          (case kc_CreateSecret (cr_client rot) (cr_secretNamespace rot) sec s of
             (None, s1) \<Rightarrow> (SecretWritten ca, s1)
           | (Some ce, s1) \<Rightarrow> (PassDone (False, Some (WriteSecretFailed e ce)), s1))
      | SecretWritten ca \<Rightarrow>
          (case kc_PatchWebhookConfig (cr_client rot) (cr_webhookCfgName rot)
              (CaBundlePatch (cr_webhookCfgName rot) (ca_CertPEM ca)) s of
             (None, s1) \<Rightarrow> (if roll then CaPatched else PassDone (True, None), s1)
           | (Some e, s1) \<Rightarrow> (PassDone (True, Some (PatchFailed (cr_webhookCfgName rot) e)), s1))
      | CaPatched \<Rightarrow>
          (case kc_GetDeployment (cr_client rot) s (cr_secretNamespace rot) WebhookDeploymentName of
             Inl e \<Rightarrow> (PassDone (True, Some (RollFailed e)), s)
           | Inr dep \<Rightarrow> (DeploymentRead dep, s))
      | DeploymentRead dep \<Rightarrow>
          (let ann = (case rd_Annotations dep of None \<Rightarrow> [] | Some m \<Rightarrow> m);
               dep' = dep\<lparr>rd_Annotations := Some (mput ann ''service-spread.io/cert-issued-at'' (formatRFC3339 (pt_roll tm)))\<rparr>
           in case kc_UpdateDeployment (cr_client rot) (cr_secretNamespace rot) dep' s of
                (None, s1) \<Rightarrow> (PassDone (True, None), s1)
              | (Some e, s1) \<Rightarrow> (PassDone (True, Some (RollFailed e)), s1))
      | _ \<Rightarrow> (ph, s))"

definition passStep ::
    "('r, 'k) x509_lib \<Rightarrow> string \<Rightarrow> 's CertRotator \<Rightarrow> passTimes \<Rightarrow> bool \<Rightarrow> certPhase \<times> 'r \<times> 's \<Rightarrow> (certPhase \<times> 'r \<times> 's) outcome" where
  "passStep lib env rot tm roll = (\<lambda>(ph, r, s).
     (case ph of
        SecretRead got \<Rightarrow> bindOutcome (issueStep lib env rot tm got r) (\<lambda>(ph', r'). Ret (ph', r', s))
      | _ \<Rightarrow> (case callStep rot tm roll ph s of (ph', s') \<Rightarrow> Ret (ph', r, s'))))"

primrec runPass ::
    "('r, 'k) x509_lib \<Rightarrow> string \<Rightarrow> 's CertRotator \<Rightarrow> passTimes \<Rightarrow> bool \<Rightarrow> nat \<Rightarrow> certPhase \<times> 'r \<times> 's \<Rightarrow> (certPhase \<times> 'r \<times> 's) outcome" where
  "runPass lib env rot tm roll 0 c = Ret c"
| "runPass lib env rot tm roll (Suc n) c = bindOutcome (passStep lib env rot tm roll c) (runPass lib env rot tm roll n)"

lemma runPass_done [simp]: "runPass lib env rot tm roll n (PassDone res, w) = Ret (PassDone res, w)"
  by (cases w) (induction n; simp add: passStep_def callStep_def)

lemma runPass_add:
  "runPass lib env rot tm roll (m + n) c = bindOutcome (runPass lib env rot tm roll m c) (runPass lib env rot tm roll n)"
proof (induction m arbitrary: c)
  case (Suc m)
  have "runPass lib env rot tm roll (m + n) = (\<lambda>c. bindOutcome (runPass lib env rot tm roll m c) (runPass lib env rot tm roll n))"
    by (rule ext) (rule Suc)
  then show ?case by (simp add: bind_bindOutcome)
qed simp

lemma runPass_pred:
  "runPass lib env rot tm roll (numeral k) c =
     bindOutcome (passStep lib env rot tm roll c) (runPass lib env rot tm roll (pred_numeral k))"
  by (simp add: numeral_eq_Suc)

lemmas runPass_5 = runPass_pred [of _ _ _ _ _ "num.Bit1 (num.Bit0 num.One)", simplified]
lemmas runPass_4 = runPass_pred [of _ _ _ _ _ "num.Bit0 (num.Bit0 num.One)", simplified]
lemmas runPass_7 = runPass_pred [of _ _ _ _ _ "num.Bit1 (num.Bit1 num.One)", simplified]
lemmas runPass_6 = runPass_pred [of _ _ _ _ _ "num.Bit0 (num.Bit1 num.One)", simplified]

lemma runPass_published:
  "runPass lib env rot tm roll 3 (SecretWritten ca, r, s) =
     (case publish rot tm roll ca s of (res, s') \<Rightarrow> Ret (PassDone res, r, s'))"
  by (simp add: numeral_3_eq_3 passStep_def callStep_def publish_def rollWebhookDeployment_def Let_def split: prod.split option.split sum.split)

lemma runPass_written:
  "runPass lib env rot tm roll 5 (Issued sec ca, r, s) =
     (case writeSecret rot sec s of
        (Some e, s1) \<Rightarrow> Ret (PassDone (False, Some e), r, s1)
      | (None, s1) \<Rightarrow> (case publish rot tm roll ca s1 of (res, s') \<Rightarrow> Ret (PassDone res, r, s')))"
proof -
  have fuel: "runPass lib env rot tm roll 4 (SecretWritten ca, r, s1) = runPass lib env rot tm roll 3 (SecretWritten ca, r, s1)" for s1
    using runPass_add [of lib env rot tm roll 3 1] by (simp add: runPass_published split: prod.split)
  have "runPass lib env rot tm roll 5 (Issued sec ca, r, s) =
      (case kc_UpdateSecret (cr_client rot) (cr_secretNamespace rot) sec s of
         (None, s1) \<Rightarrow> runPass lib env rot tm roll 4 (SecretWritten ca, r, s1)
       | (Some e, s1) \<Rightarrow>
           (case kc_CreateSecret (cr_client rot) (cr_secretNamespace rot) sec s1 of
              (None, s2) \<Rightarrow> runPass lib env rot tm roll 3 (SecretWritten ca, r, s2)
            | (Some ce, s2) \<Rightarrow> Ret (PassDone (False, Some (WriteSecretFailed e ce)), r, s2)))"
    by (simp add: runPass_5 passStep_def callStep_def split: prod.split option.split)
      (simp add: runPass_4 passStep_def callStep_def split: prod.split option.split)
  then show ?thesis
    by (simp add: writeSecret_def fuel runPass_published split: prod.split option.split)
qed


subsection \<open>Interleaved replicas\<close>

record 'r replica =
  rep_phase :: certPhase
  rep_rnd :: 'r
  rep_times :: passTimes
  rep_roll :: bool

record ('r, 's) fleet =
  fl_replica :: "nat \<Rightarrow> 'r replica"
  fl_cluster :: 's

definition advance ::
    "('r, 'k) x509_lib \<Rightarrow> string \<Rightarrow> 's CertRotator \<Rightarrow> nat \<Rightarrow> ('r, 's) fleet \<Rightarrow> ('r, 's) fleet outcome" where
  "advance lib env rot i f =
     (let a = fl_replica f i
      in bindOutcome (passStep lib env rot (rep_times a) (rep_roll a) (rep_phase a, rep_rnd a, fl_cluster f)) (\<lambda>(ph, r, s).
           Ret \<lparr>fl_replica = (fl_replica f)(i := a\<lparr>rep_phase := ph, rep_rnd := r\<rparr>), fl_cluster = s\<rparr>))"

text \<open>A replica takes one piece of its pass; it starts its next pass, possibly because it crashed in the middle of one; or
  something else happens in the cluster that touches neither the Secret nor the webhook configuration. \<open>caBundle\<close> is
  the patch that was applied last to the webhook configuration.\<close>

inductive fleetStep ::
    "('r, 'k) x509_lib \<Rightarrow> string \<Rightarrow> 's CertRotator \<Rightarrow> ('s \<Rightarrow> string) \<Rightarrow> ('r, 's) fleet \<Rightarrow> ('r, 's) fleet \<Rightarrow> bool"
  for lib :: "('r, 'k) x509_lib" and env :: string and rot :: "'s CertRotator" and caBundle :: "'s \<Rightarrow> string" where
  Advance: "advance lib env rot i f = Ret f' \<Longrightarrow> fleetStep lib env rot caBundle f f'"
| NewPass: "fleetStep lib env rot caBundle f
     (f\<lparr>fl_replica := (fl_replica f)(i := \<lparr>rep_phase = PassStart, rep_rnd = r, rep_times = tm, rep_roll = roll\<rparr>)\<rparr>)"
| Elsewhere: "kc_GetSecret (cr_client rot) s' = kc_GetSecret (cr_client rot) (fl_cluster f) \<Longrightarrow> caBundle s' = caBundle (fl_cluster f) \<Longrightarrow>
     fleetStep lib env rot caBundle f (f\<lparr>fl_cluster := s'\<rparr>)"

lemma advance_Ret:
  assumes "advance lib env rot i f = Ret f'"
  obtains ph r s where
    "passStep lib env rot (rep_times (fl_replica f i)) (rep_roll (fl_replica f i)) (rep_phase (fl_replica f i), rep_rnd (fl_replica f i), fl_cluster f) =
       Ret (ph, r, s)"
    "fl_cluster f' = s" "rep_phase (fl_replica f' i) = ph" "\<forall>j. j \<noteq> i \<longrightarrow> fl_replica f' j = fl_replica f j"
  using assms by (auto simp: advance_def Let_def bindOutcome_Ret_iff)

text \<open>Of the API server: a write attempt, successful or not, leaves what is read or makes it the object to write.\<close>

definition write_laws :: "'s kubeClient \<Rightarrow> string \<Rightarrow> bool" where
  "write_laws cl ns \<longleftrightarrow>
     (\<forall>sec s e s'. kc_UpdateSecret cl ns sec s = (e, s') \<or> kc_CreateSecret cl ns sec s = (e, s') \<longrightarrow>
        kc_GetSecret cl s' ns (sec_Name sec) = kc_GetSecret cl s ns (sec_Name sec) \<or>
        (\<exists>sec'. kc_GetSecret cl s' ns (sec_Name sec) = (Some sec', None) \<and> sec_Data sec' = sec_Data sec))"

subsection \<open>The pair in the Secret\<close>

definition issued_data :: "('r, 'k) x509_lib \<Rightarrow> string list \<Rightarrow> (string, string) gomap \<Rightarrow> bool" where
  "issued_data lib names d \<longleftrightarrow>
     (\<exists>t0 r0 ca r1 t1 r2 leaf r3 env. GenerateCA lib caLifeTime t0 r0 = (Inr ca, r1) \<and>
        GenerateLeaf lib ca names leafLifeTime t1 r2 = (Inr leaf, r3) \<and> d = sec_Data (SecretFromCerts env ca leaf))"

definition newPair :: "('r, 'k) x509_lib \<Rightarrow> 's CertRotator \<Rightarrow> Secret \<Rightarrow> CA \<Rightarrow> bool" where
  "newPair lib rot sec ca \<longleftrightarrow> sec_Name sec = ServingCertSecretName \<and> issued_data lib (cr_dnsNames rot) (sec_Data sec) \<and>
     mgets (sec_Data sec) caCertKey = ca_CertPEM ca"

definition phase_pair :: "('r, 'k) x509_lib \<Rightarrow> 's CertRotator \<Rightarrow> certPhase \<Rightarrow> bool" where
  "phase_pair lib rot ph =
     (case ph of Issued sec ca \<Rightarrow> newPair lib rot sec ca | UpdateFailed e sec ca \<Rightarrow> newPair lib rot sec ca | _ \<Rightarrow> True)"

definition stored_pair :: "('r, 'k) x509_lib \<Rightarrow> 's CertRotator \<Rightarrow> 's \<Rightarrow> bool" where
  "stored_pair lib rot s \<longleftrightarrow> (\<forall>sec. readSecret rot s = (Some sec, None) \<longrightarrow> issued_data lib (cr_dnsNames rot) (sec_Data sec))"

definition api_laws :: "'s CertRotator \<Rightarrow> bool" where
  "api_laws rot \<longleftrightarrow> client_laws (cr_client rot) (cr_secretNamespace rot) \<and> write_laws (cr_client rot) (cr_secretNamespace rot)"

definition pairInv :: "('r, 'k) x509_lib \<Rightarrow> 's CertRotator \<Rightarrow> ('r, 's) fleet \<Rightarrow> bool" where
  "pairInv lib rot f \<longleftrightarrow> stored_pair lib rot (fl_cluster f) \<and> (\<forall>i. phase_pair lib rot (rep_phase (fl_replica f i)))"

lemma secretToWrite_newPair:
  assumes "GenerateCA lib caLifeTime t0 r0 = (Inr ca, r1)" and "GenerateLeaf lib ca (cr_dnsNames rot) leafLifeTime t1 r2 = (Inr leaf, r3)"
  shows "newPair lib rot (secretToWrite env osec ca leaf) ca"
proof -
  have "issued_data lib (cr_dnsNames rot) (sec_Data (secretToWrite env osec ca leaf))"
    unfolding secretToWrite_simps issued_data_def using assms by blast
  then show ?thesis
    by (simp add: newPair_def secretToWrite_simps) (simp add: SecretFromCerts_def mgets_def caCertKey_def)
qed

lemma issueStep_pair:
  assumes "issueStep lib env rot tm got r = Ret (ph, r')"
  obtains res where "ph = PassDone res" "\<And>w n. res \<noteq> (False, Some (WriteSecretFailed w n))" "\<not> fst res"
  | sec ca where "ph = Issued sec ca" "newPair lib rot sec ca"
  using assms secretToWrite_newPair
  by (fastforce simp: issueStep_def bindOutcome_Ret_iff split: if_splits prod.splits sum.splits)

text \<open>A write attempt ends with the old Secret or the new pair, in both cases with what was promised.\<close>

lemma write_attempt:
  assumes "api_laws rot" and "newPair lib rot sec ca"
    and "kc_UpdateSecret (cr_client rot) (cr_secretNamespace rot) sec s = (e, s') \<or>
      kc_CreateSecret (cr_client rot) (cr_secretNamespace rot) sec s = (e, s')"
  shows "readSecret rot s' = readSecret rot s \<or> (\<exists>sec'. readSecret rot s' = (Some sec', None) \<and> sec_Data sec' = sec_Data sec)"
    and "e = None \<Longrightarrow> \<exists>sec'. readSecret rot s' = (Some sec', None) \<and> sec_Data sec' = sec_Data sec"
proof -
  have name: "sec_Name sec = ServingCertSecretName" using assms(2) by (simp add: newPair_def)
  show "readSecret rot s' = readSecret rot s \<or> (\<exists>sec'. readSecret rot s' = (Some sec', None) \<and> sec_Data sec' = sec_Data sec)"
    using assms(1,3) unfolding api_laws_def write_laws_def readSecret_def name [symmetric] by blast
  show "\<exists>sec'. readSecret rot s' = (Some sec', None) \<and> sec_Data sec' = sec_Data sec" if "e = None"
    using client_lawsD(1) [OF assms(1) [unfolded api_laws_def, THEN conjunct1] assms(3) [unfolded that]]
    unfolding readSecret_def name .
qed

lemma passStep_call:
  "\<forall>got. ph \<noteq> SecretRead got \<Longrightarrow> passStep lib env rot tm roll (ph, r, s) = Ret (ph', r', s') \<Longrightarrow>
     callStep rot tm roll ph s = (ph', s') \<and> r' = r"
  by (cases ph) (auto simp: passStep_def split: prod.splits)

lemma callStep_write:
  assumes "callStep rot tm roll ph s = (ph', s')"
  shows "ph = Issued sec ca \<Longrightarrow> \<exists>e. kc_UpdateSecret (cr_client rot) (cr_secretNamespace rot) sec s = (e, s') \<and>
      (case e of None \<Rightarrow> ph' = SecretWritten ca | Some ue \<Rightarrow> ph' = UpdateFailed ue sec ca)"
    and "ph = UpdateFailed ue sec ca \<Longrightarrow> \<exists>e. kc_CreateSecret (cr_client rot) (cr_secretNamespace rot) sec s = (e, s') \<and>
      (case e of None \<Rightarrow> ph' = SecretWritten ca | Some ce \<Rightarrow> ph' = PassDone (False, Some (WriteSecretFailed ue ce)))"
  using assms by (auto simp: callStep_def split: prod.splits option.splits)

text \<open>The calls that are not writes of the Secret.\<close>

definition noWrite :: "certPhase \<Rightarrow> bool" where
  "noWrite ph = (case ph of SecretRead got \<Rightarrow> False | Issued sec ca \<Rightarrow> False | UpdateFailed e sec ca \<Rightarrow> False | _ \<Rightarrow> True)"

lemma call_keeps_secret:
  assumes "api_laws rot" and "callStep rot tm roll ph s = (ph', s')" and "noWrite ph"
  shows "readSecret rot s' = readSecret rot s"
proof -
  have laws: "client_laws (cr_client rot) (cr_secretNamespace rot)" using assms(1) by (simp add: api_laws_def)
  from assms(2,3) client_lawsD(2,3) [OF laws] show ?thesis
    unfolding callStep_def noWrite_def readSecret_def Let_def
    by (cases ph) (auto split: prod.splits option.splits sum.splits)
qed

lemma passStep_issue:
  "passStep lib env rot tm roll (ph, r, s) = Ret (ph', r', s') \<Longrightarrow> ph = SecretRead got \<Longrightarrow>
     issueStep lib env rot tm got r = Ret (ph', r') \<and> s' = s"
  by (auto simp: passStep_def bindOutcome_Ret_iff)

lemma passStep_phase_pair:
  assumes "passStep lib env rot tm roll (ph, r, s) = Ret (ph', r', s')" and "phase_pair lib rot ph"
  shows "phase_pair lib rot ph'"
proof (cases "\<exists>got. ph = SecretRead got")
  case True
  with passStep_issue [OF assms(1)] obtain got where "issueStep lib env rot tm got r = Ret (ph', r')" by blast
  then show ?thesis by (rule issueStep_pair) (simp_all add: phase_pair_def)
next
  case False
  with passStep_call [OF _ assms(1)] have "callStep rot tm roll ph s = (ph', s')" by blast
  with assms(2) show ?thesis
    unfolding callStep_def phase_pair_def Let_def by (cases ph) (auto split: prod.splits option.splits sum.splits if_splits)
qed

lemma passStep_stored_pair:
  assumes "api_laws rot" and "passStep lib env rot tm roll (ph, r, s) = Ret (ph', r', s')"
    and "phase_pair lib rot ph" and "stored_pair lib rot s"
  shows "stored_pair lib rot s'"
proof (cases "\<exists>got. ph = SecretRead got")
  case True
  with assms(4) passStep_issue [OF assms(2)] show ?thesis by blast
next
  case False
  with passStep_call [OF _ assms(2)] have call: "callStep rot tm roll ph s = (ph', s')" by blast
  have attempt: "stored_pair lib rot s'"
    if "newPair lib rot sec ca" "kc_UpdateSecret (cr_client rot) (cr_secretNamespace rot) sec s = (e, s') \<or>
      kc_CreateSecret (cr_client rot) (cr_secretNamespace rot) sec s = (e, s')" for sec ca e
    using write_attempt(1) [OF assms(1) that] that(1) assms(4) by (auto simp: stored_pair_def newPair_def)
  consider sec ca where "ph = Issued sec ca" | ue sec ca where "ph = UpdateFailed ue sec ca" | "noWrite ph"
    using False by (cases ph) (auto simp: noWrite_def)
  then show ?thesis
  proof cases
    case (1 sec ca)
    with assms(3) have "newPair lib rot sec ca" by (simp add: phase_pair_def)
    with callStep_write(1) [OF call 1] attempt show ?thesis by blast
  next
    case (2 ue sec ca)
    with assms(3) have "newPair lib rot sec ca" by (simp add: phase_pair_def)
    with callStep_write(2) [OF call 2] attempt show ?thesis by blast
  next
    case 3
    from call_keeps_secret [OF assms(1) call this] assms(4) show ?thesis by (simp add: stored_pair_def)
  qed
qed

lemma pairInv_step:
  assumes "api_laws rot" and "fleetStep lib env rot caBundle f f'" and "pairInv lib rot f"
  shows "pairInv lib rot f'"
  using assms(2,3)
proof cases
  case (Advance i)
  from advance_Ret [OF this] obtain ph r s where
    run: "passStep lib env rot (rep_times (fl_replica f i)) (rep_roll (fl_replica f i))
        (rep_phase (fl_replica f i), rep_rnd (fl_replica f i), fl_cluster f) = Ret (ph, r, s)"
    and f': "fl_cluster f' = s" "rep_phase (fl_replica f' i) = ph" "\<forall>j. j \<noteq> i \<longrightarrow> fl_replica f' j = fl_replica f j" .
  from passStep_phase_pair [OF run] passStep_stored_pair [OF assms(1) run] assms(3)
  have "phase_pair lib rot ph" "stored_pair lib rot s" by (simp_all add: pairInv_def)
  with f' assms(3) show ?thesis by (metis pairInv_def)
qed (auto simp: pairInv_def stored_pair_def phase_pair_def readSecret_def)

interpretation pair_fleet: invariant_system
  "\<lambda>f. api_laws rot \<and> pairInv lib rot f" "fleetStep lib env rot caBundle" "\<lambda>f. api_laws rot \<and> pairInv lib rot f"
  for lib env rot caBundle
  by unfold_locales (auto intro: pairInv_step)

text \<open>Data that was issued holds a leaf for the names and the CA that verifies it.\<close>

lemma issued_data_verifies:
  assumes "x509_laws lib" and "issued_data lib names (sec_Data sec)"
  shows "\<exists>t0 t1 leaf. CertsFromSecret sec = Inr leaf \<and>
    (\<exists>der crt. pemDecode (leaf_CertPEM leaf) = Some (''CERTIFICATE'', der) \<and> x509_ParseCertificate lib der = Inr crt \<and>
       xc_DNSNames crt = names) \<and>
    (\<forall>now. max t0 t1 - Hour \<le> now \<and> now \<le> t0 + caLifeTime - Second \<and> now \<le> t1 + leafLifeTime - Second \<longrightarrow>
       leafSignedBy lib (leaf_CertPEM leaf) (mgets (sec_Data sec) caCertKey) now)"
proof -
  obtain t0 r0 ca r1 t1 r2 leaf r3 env where
    ca: "GenerateCA lib caLifeTime t0 r0 = (Inr ca, r1)" and leaf: "GenerateLeaf lib ca names leafLifeTime t1 r2 = (Inr leaf, r3)"
    and data: "sec_Data sec = sec_Data (SecretFromCerts env ca leaf)"
    using assms(2) by (auto simp: issued_data_def)
  have "CertsFromSecret sec = Inr leaf" "mgets (sec_Data sec) caCertKey = ca_CertPEM ca"
    by (simp_all add: CertsFromSecret_def data SecretFromCerts_def mgets_def caCertKey_def tlsCertKey_def tlsKeyKey_def)
  moreover have "(\<exists>der crt. pemDecode (leaf_CertPEM leaf) = Some (''CERTIFICATE'', der) \<and> x509_ParseCertificate lib der = Inr crt \<and>
       xc_DNSNames crt = names) \<and>
    (\<forall>now. max t0 t1 - Hour \<le> now \<and> now \<le> t0 + caLifeTime - Second \<and> now \<le> t1 + leafLifeTime - Second \<longrightarrow>
       leafSignedBy lib (leaf_CertPEM leaf) (ca_CertPEM ca) now)"
    by (rule issued_pair [OF assms(1) ca leaf]) (auto simp: leafSignedBy_def seconds_of_def valid_at_def)
  ultimately show ?thesis by auto
qed


subsection \<open>The CA in the webhook configuration\<close>

text \<open>Of the API server: a successful patch is applied, and the other calls do not touch the webhook configuration.\<close>

definition bundle_laws :: "'s CertRotator \<Rightarrow> ('s \<Rightarrow> string) \<Rightarrow> bool" where
  "bundle_laws rot caBundle \<longleftrightarrow>
     (\<forall>p s s'. kc_PatchWebhookConfig (cr_client rot) (cr_webhookCfgName rot) p s = (None, s') \<longrightarrow> caBundle s' = p) \<and>
     (\<forall>sec s. caBundle (snd (kc_UpdateSecret (cr_client rot) (cr_secretNamespace rot) sec s)) = caBundle s) \<and>
     (\<forall>sec s. caBundle (snd (kc_CreateSecret (cr_client rot) (cr_secretNamespace rot) sec s)) = caBundle s) \<and>
     (\<forall>dep s. caBundle (snd (kc_UpdateDeployment (cr_client rot) (cr_secretNamespace rot) dep s)) = caBundle s)"

lemma bundle_lawsD:
  assumes "bundle_laws rot caBundle"
  shows "kc_PatchWebhookConfig (cr_client rot) (cr_webhookCfgName rot) p s = (None, s') \<Longrightarrow> caBundle s' = p"
    and "kc_UpdateSecret (cr_client rot) (cr_secretNamespace rot) sec s = (e, s') \<Longrightarrow> caBundle s' = caBundle s"
    and "kc_CreateSecret (cr_client rot) (cr_secretNamespace rot) sec s = (e, s') \<Longrightarrow> caBundle s' = caBundle s"
    and "kc_UpdateDeployment (cr_client rot) (cr_secretNamespace rot) dep s = (e, s') \<Longrightarrow> caBundle s' = caBundle s"
  using assms unfolding bundle_laws_def by (metis, metis snd_conv, metis snd_conv, metis snd_conv)

definition current :: "'s CertRotator \<Rightarrow> ('s \<Rightarrow> string) \<Rightarrow> 's \<Rightarrow> bool" where
  "current rot caBundle s \<longleftrightarrow>
     (\<forall>sec. readSecret rot s = (Some sec, None) \<longrightarrow> caBundle s = CaBundlePatch (cr_webhookCfgName rot) (mgets (sec_Data sec) caCertKey))"

text \<open>Between its read of the Secret and its patch a pass is writing. What leader election is to provide: at most one replica is
  writing, it is not interrupted, and no write or patch fails.\<close>

definition writing :: "certPhase \<Rightarrow> bool" where
  "writing ph = (case ph of SecretRead got \<Rightarrow> True | Issued sec ca \<Rightarrow> True | UpdateFailed e sec ca \<Rightarrow> True | SecretWritten ca \<Rightarrow> True | _ \<Rightarrow> False)"

definition unpublished :: "certPhase \<Rightarrow> bool" where
  "unpublished ph =
     (case ph of PassDone (b, Some (WriteSecretFailed ue ce)) \<Rightarrow> True | PassDone (b, Some (PatchFailed n e)) \<Rightarrow> True | _ \<Rightarrow> False)"

definition singleWriterStep ::
    "('r, 'k) x509_lib \<Rightarrow> string \<Rightarrow> 's CertRotator \<Rightarrow> ('s \<Rightarrow> string) \<Rightarrow> ('r, 's) fleet \<Rightarrow> ('r, 's) fleet \<Rightarrow> bool" where
  "singleWriterStep lib env rot caBundle f f' \<longleftrightarrow> fleetStep lib env rot caBundle f f' \<and>
     (\<forall>i j. writing (rep_phase (fl_replica f' i)) \<and> writing (rep_phase (fl_replica f' j)) \<longrightarrow> i = j) \<and>
     (\<forall>i. writing (rep_phase (fl_replica f i)) \<longrightarrow> rep_phase (fl_replica f' i) \<noteq> PassStart) \<and>
     (\<forall>i. \<not> unpublished (rep_phase (fl_replica f' i)))"

definition holdsCA :: "'s CertRotator \<Rightarrow> CA \<Rightarrow> 's \<Rightarrow> bool" where
  "holdsCA rot ca s \<longleftrightarrow> (\<exists>sec. readSecret rot s = (Some sec, None) \<and> mgets (sec_Data sec) caCertKey = ca_CertPEM ca)"

definition phase_current :: "'s CertRotator \<Rightarrow> ('s \<Rightarrow> string) \<Rightarrow> 's \<Rightarrow> certPhase \<Rightarrow> bool" where
  "phase_current rot caBundle s ph =
     (case ph of
        SecretRead got \<Rightarrow> current rot caBundle s
      | Issued sec ca \<Rightarrow> current rot caBundle s
      | UpdateFailed e sec ca \<Rightarrow> current rot caBundle s \<or> holdsCA rot ca s
      | SecretWritten ca \<Rightarrow> holdsCA rot ca s
      | _ \<Rightarrow> True)"

definition singleInv :: "('r, 'k) x509_lib \<Rightarrow> 's CertRotator \<Rightarrow> ('s \<Rightarrow> string) \<Rightarrow> ('r, 's) fleet \<Rightarrow> bool" where
  "singleInv lib rot caBundle f \<longleftrightarrow>
     (\<forall>i. phase_pair lib rot (rep_phase (fl_replica f i)) \<and> phase_current rot caBundle (fl_cluster f) (rep_phase (fl_replica f i))) \<and>
     (\<forall>i j. writing (rep_phase (fl_replica f i)) \<and> writing (rep_phase (fl_replica f j)) \<longrightarrow> i = j) \<and>
     ((\<forall>i. \<not> writing (rep_phase (fl_replica f i))) \<longrightarrow> current rot caBundle (fl_cluster f))"

lemma idle_current: "\<not> writing ph \<Longrightarrow> phase_current rot caBundle s ph"
  by (cases ph) (auto simp: writing_def phase_current_def)

lemma same_current:
  assumes "readSecret rot s' = readSecret rot s" and "caBundle s' = caBundle s"
  shows "current rot caBundle s' = current rot caBundle s" and "phase_current rot caBundle s' ph = phase_current rot caBundle s ph"
  using assms by (simp_all add: current_def holdsCA_def phase_current_def split: certPhase.split)

lemma idle_step:
  assumes "api_laws rot" and "bundle_laws rot caBundle" and "\<not> writing ph"
    and "passStep lib env rot tm roll (ph, r, s) = Ret (ph', r', s')"
  shows "readSecret rot s' = readSecret rot s \<and> caBundle s' = caBundle s \<and> (writing ph' \<longrightarrow> (\<exists>got. ph' = SecretRead got))"
proof -
  have idle: "noWrite ph" "\<forall>got. ph \<noteq> SecretRead got" using assms(3) by (auto simp: noWrite_def writing_def split: certPhase.splits)
  with passStep_call [OF _ assms(4)] have call: "callStep rot tm roll ph s = (ph', s')" by blast
  have "caBundle s' = caBundle s \<and> (writing ph' \<longrightarrow> (\<exists>got. ph' = SecretRead got))"
    using call assms(3) bundle_lawsD(4) [OF assms(2)] unfolding callStep_def writing_def Let_def
    by (cases ph) (auto split: prod.splits option.splits sum.splits)
  with call_keeps_secret [OF assms(1) call idle(1)] show ?thesis by blast
qed

lemma attempt_current:
  assumes "api_laws rot" and "newPair lib rot sec ca" and "caBundle s' = caBundle s"
    and "kc_UpdateSecret (cr_client rot) (cr_secretNamespace rot) sec s = (e, s') \<or>
      kc_CreateSecret (cr_client rot) (cr_secretNamespace rot) sec s = (e, s')"
  shows "e = None \<Longrightarrow> holdsCA rot ca s'" and "current rot caBundle s \<Longrightarrow> current rot caBundle s' \<or> holdsCA rot ca s'"
proof -
  have new: "holdsCA rot ca s'" if "readSecret rot s' = (Some sec', None)" "sec_Data sec' = sec_Data sec" for sec'
    using that assms(2) by (auto simp: holdsCA_def newPair_def)
  show "holdsCA rot ca s'" if "e = None" using write_attempt(2) [OF assms(1,2,4) that] new by blast
  show "current rot caBundle s' \<or> holdsCA rot ca s'" if "current rot caBundle s"
    using write_attempt(1) [OF assms(1,2,4)] new same_current(1) [of rot s' s caBundle] assms(3) that by blast
qed

lemma patch_current:
  assumes "api_laws rot" and "bundle_laws rot caBundle" and "holdsCA rot ca s"
    and "kc_PatchWebhookConfig (cr_client rot) (cr_webhookCfgName rot) (CaBundlePatch (cr_webhookCfgName rot) (ca_CertPEM ca)) s = (None, s')"
  shows "current rot caBundle s'"
proof -
  have "readSecret rot s' = readSecret rot s"
    using client_lawsD(2) [OF assms(1) [unfolded api_laws_def, THEN conjunct1] assms(4)] by (simp add: readSecret_def)
  with assms(3) bundle_lawsD(1) [OF assms(2,4)] show ?thesis by (auto simp: current_def holdsCA_def)
qed

lemma writing_step:
  assumes "api_laws rot" and "bundle_laws rot caBundle" and "writing ph"
    and "passStep lib env rot tm roll (ph, r, s) = Ret (ph', r', s')"
    and "phase_pair lib rot ph" and "phase_current rot caBundle s ph" and "\<not> unpublished ph'"
  shows "phase_current rot caBundle s' ph' \<and> (\<not> writing ph' \<longrightarrow> current rot caBundle s')"
proof (cases ph)
  case (SecretRead got)
  then have "issueStep lib env rot tm got r = Ret (ph', r')" and "s' = s"
    using passStep_issue [OF assms(4)] by blast+
  from this(1) show ?thesis
    by (rule issueStep_pair) (use assms(6) \<open>s' = s\<close> SecretRead in \<open>simp_all add: phase_current_def writing_def\<close>)
next
  case (Issued sec ca)
  with passStep_call [OF _ assms(4)] have "callStep rot tm roll ph s = (ph', s')" by simp
  from callStep_write(1) [OF this Issued] obtain e where
    e: "kc_UpdateSecret (cr_client rot) (cr_secretNamespace rot) sec s = (e, s')"
      "case e of None \<Rightarrow> ph' = SecretWritten ca | Some ue \<Rightarrow> ph' = UpdateFailed ue sec ca" by blast
  have "newPair lib rot sec ca" "current rot caBundle s" using Issued assms(5,6) by (simp_all add: phase_pair_def phase_current_def)
  with attempt_current [OF assms(1) this(1) bundle_lawsD(2) [OF assms(2) e(1)] disjI1 [OF e(1)]] e(2) show ?thesis
    by (auto simp: phase_current_def writing_def split: option.splits)
next
  case (UpdateFailed ue sec ca)
  with passStep_call [OF _ assms(4)] have "callStep rot tm roll ph s = (ph', s')" by simp
  from callStep_write(2) [OF this UpdateFailed] obtain e where
    e: "kc_CreateSecret (cr_client rot) (cr_secretNamespace rot) sec s = (e, s')"
      "case e of None \<Rightarrow> ph' = SecretWritten ca | Some ce \<Rightarrow> ph' = PassDone (False, Some (WriteSecretFailed ue ce))" by blast
  have "newPair lib rot sec ca" using UpdateFailed assms(5) by (simp add: phase_pair_def)
  with attempt_current(1) [OF assms(1) this bundle_lawsD(3) [OF assms(2) e(1)] disjI2 [OF e(1)]] e(2) assms(7) show ?thesis
    by (auto simp: phase_current_def writing_def unpublished_def split: option.splits)
next
  case (SecretWritten ca)
  with passStep_call [OF _ assms(4)] have "callStep rot tm roll ph s = (ph', s')" by simp
  with SecretWritten assms(7) obtain
    "kc_PatchWebhookConfig (cr_client rot) (cr_webhookCfgName rot) (CaBundlePatch (cr_webhookCfgName rot) (ca_CertPEM ca)) s = (None, s')"
    and "\<not> writing ph'"
    by (auto simp: callStep_def unpublished_def writing_def split: prod.splits option.splits if_splits)
  with patch_current [OF assms(1,2)] SecretWritten assms(6) idle_current show ?thesis by (simp add: phase_current_def)
qed (use assms(3) in \<open>simp_all add: writing_def\<close>)

text \<open>A step that leaves the Secret and the webhook configuration alone keeps the invariant, if replica \<open>i\<close> was not writing and at
  most begins to.\<close>

lemma quiet_singleInv:
  assumes "singleInv lib rot caBundle f" and "readSecret rot (fl_cluster f') = readSecret rot (fl_cluster f)"
    and "caBundle (fl_cluster f') = caBundle (fl_cluster f)"
    and "\<forall>j. j \<noteq> i \<longrightarrow> fl_replica f' j = fl_replica f j" and "\<not> writing (rep_phase (fl_replica f i))"
    and "writing (rep_phase (fl_replica f' i)) \<longrightarrow> (\<exists>got. rep_phase (fl_replica f' i) = SecretRead got)"
    and "phase_pair lib rot (rep_phase (fl_replica f' i))"
    and one: "\<forall>i j. writing (rep_phase (fl_replica f' i)) \<and> writing (rep_phase (fl_replica f' j)) \<longrightarrow> i = j"
  shows "singleInv lib rot caBundle f'"
proof -
  note same = same_current [of rot "fl_cluster f'" "fl_cluster f" caBundle, OF assms(2,3)]
  have current: "current rot caBundle (fl_cluster f')" if "\<forall>j. j \<noteq> i \<longrightarrow> \<not> writing (rep_phase (fl_replica f' j))"
    using that assms(1,4,5) same(1) unfolding singleInv_def by metis
  have "phase_current rot caBundle (fl_cluster f') (rep_phase (fl_replica f' i))"
  proof (cases "writing (rep_phase (fl_replica f' i))")
    case True
    with one current assms(6) show ?thesis by (force simp: phase_current_def)
  qed (rule idle_current)
  moreover have "phase_pair lib rot (rep_phase (fl_replica f' j)) \<and> phase_current rot caBundle (fl_cluster f') (rep_phase (fl_replica f' j))"
    if "j \<noteq> i" for j
    using that assms(1,4) same(2) by (simp add: singleInv_def)
  ultimately show ?thesis
    using assms(7) one current unfolding singleInv_def by metis
qed

lemma singleInv_step:
  assumes "api_laws rot" and "bundle_laws rot caBundle" and "singleWriterStep lib env rot caBundle f f'" and "singleInv lib rot caBundle f"
  shows "singleInv lib rot caBundle f'"
proof -
  have step: "fleetStep lib env rot caBundle f f'"
    and one: "\<forall>i j. writing (rep_phase (fl_replica f' i)) \<and> writing (rep_phase (fl_replica f' j)) \<longrightarrow> i = j"
    and keep: "\<And>i. writing (rep_phase (fl_replica f i)) \<Longrightarrow> rep_phase (fl_replica f' i) \<noteq> PassStart"
    and ok: "\<And>i. \<not> unpublished (rep_phase (fl_replica f' i))"
    using assms(3) by (auto simp: singleWriterStep_def)
  from step show ?thesis
  proof cases
    case (Advance i)
    from advance_Ret [OF this] obtain ph r s where
      run: "passStep lib env rot (rep_times (fl_replica f i)) (rep_roll (fl_replica f i))
          (rep_phase (fl_replica f i), rep_rnd (fl_replica f i), fl_cluster f) = Ret (ph, r, s)"
      and f': "fl_cluster f' = s" "rep_phase (fl_replica f' i) = ph" "\<forall>j. j \<noteq> i \<longrightarrow> fl_replica f' j = fl_replica f j" .
    have pairs: "phase_pair lib rot (rep_phase (fl_replica f i))"
      and cur: "phase_current rot caBundle (fl_cluster f) (rep_phase (fl_replica f i))"
      using assms(4) by (simp_all add: singleInv_def)
    have pair: "phase_pair lib rot ph" by (rule passStep_phase_pair [OF run pairs])
    show ?thesis
    proof (cases "writing (rep_phase (fl_replica f i))")
      case True
      then have others: "\<not> writing (rep_phase (fl_replica f' j))" if "j \<noteq> i" for j
        using that assms(4) f'(3) by (metis singleInv_def)
      have "\<not> unpublished ph" using ok f'(2) by metis
      from writing_step [OF assms(1,2) True run pairs cur this]
      have "phase_current rot caBundle s ph" "\<not> writing ph \<longrightarrow> current rot caBundle s" by simp_all
      then show ?thesis
        using pair f' one others idle_current assms(4) unfolding singleInv_def by metis
    next
      case False
      with idle_step [OF assms(1,2) False run] f' pair one show ?thesis
        by (intro quiet_singleInv [OF assms(4), of f' i]) simp_all
    qed
  next
    case (NewPass i r tm roll)
    with keep [of i] have "\<not> writing (rep_phase (fl_replica f i))" by auto
    with NewPass one show ?thesis
      by (intro quiet_singleInv [OF assms(4), of f' i]) (simp_all add: writing_def phase_pair_def)
  next
    case (Elsewhere s')
    with same_current [of rot s' "fl_cluster f" caBundle] assms(4) show ?thesis
      by (simp add: singleInv_def readSecret_def)
  qed
qed

interpretation single_writer: invariant_system
  "\<lambda>f. api_laws rot \<and> bundle_laws rot caBundle \<and> singleInv lib rot caBundle f" "singleWriterStep lib env rot caBundle"
  "\<lambda>f. api_laws rot \<and> bundle_laws rot caBundle \<and> singleInv lib rot caBundle f"
  for lib env rot caBundle
  by unfold_locales (auto intro: singleInv_step)

text \<open>C20: One writer at a time keeps the API server's trust current. If at most one replica is between its read of the Secret and its
  patch, is not interrupted there, and no write or patch is refused, then whenever no replica is writing, the CA
  that the API server was told last is the CA of the Secret: however the rest of the passes interleave, and whatever else
  happens in the cluster. This is what leader election has to provide.\<close>

theorem single_writer_keeps_bundle_current:
  assumes "client_laws (cr_client rot) (cr_secretNamespace rot)" and "write_laws (cr_client rot) (cr_secretNamespace rot)"
    and "bundle_laws rot caBundle"
    and "\<forall>i. rep_phase (fl_replica f0 i) = PassStart" and "snd (readSecret rot (fl_cluster f0)) \<noteq> None"
    and "(singleWriterStep lib env rot caBundle)\<^sup>*\<^sup>* f0 f" and "\<forall>i. \<not> writing (rep_phase (fl_replica f i))"
    and "readSecret rot (fl_cluster f) = (Some sec, None)"
  shows "caBundle (fl_cluster f) = CaBundlePatch (cr_webhookCfgName rot) (mgets (sec_Data sec) caCertKey)"
proof -
  have "api_laws rot \<and> bundle_laws rot caBundle \<and> singleInv lib rot caBundle f0"
    using assms(1-5) by (auto simp: api_laws_def singleInv_def current_def phase_pair_def phase_current_def writing_def)
  with single_writer.steps_inv [OF assms(6)] have "singleInv lib rot caBundle f" by blast
  with assms(7,8) show ?thesis by (simp add: singleInv_def current_def)
qed

subsection \<open>Two bootstraps at once\<close>

primrec schedule ::
    "('r, 'k) x509_lib \<Rightarrow> string \<Rightarrow> 's CertRotator \<Rightarrow> nat list \<Rightarrow> ('r, 's) fleet \<Rightarrow> ('r, 's) fleet outcome" where
  "schedule lib env rot [] f = Ret f"
| "schedule lib env rot (i # is) f = bindOutcome (advance lib env rot i f) (schedule lib env rot is)"

lemma schedule_steps: "schedule lib env rot is f = Ret f' \<Longrightarrow> (fleetStep lib env rot caBundle)\<^sup>*\<^sup>* f f'"
  by (induction "is" arbitrary: f) (auto simp: bindOutcome_Ret_iff intro: converse_rtranclp_into_rtranclp fleetStep.Advance)

definition demoFleet :: "(nat, demoCluster) fleet" where
  "demoFleet = \<lparr>fl_replica = (\<lambda>i. \<lparr>rep_phase = PassStart, rep_rnd = 0, rep_times = demoTimes ((int i + 1) * Hour), rep_roll = False\<rparr>),
     fl_cluster = demoCluster0 0\<rparr>"

lemma CaBundlePatch_inj:
  assumes "CaBundlePatch name x = CaBundlePatch name y"
  shows "x = y"
proof -
  have "sort_key fst [(''op'', x), (''path'', y), (''value'', z)] = [(''op'', x), (''path'', y), (''value'', z)]" for x y z :: string
    by simp
  with assms have "b64Encode x = b64Encode y"
    by (simp add: CaBundlePatch_def jsonArray_def jsonStringMap_def jsonObject_def jsonMember_def jsonString_def [of "b64Encode _"] jsonChars_b64)
  then have "b64Decode (b64Encode x) = b64Decode (b64Encode y)" by simp
  then show ?thesis by (simp add: b64_roundtrip)
qed

lemma later_CA_differs:
  assumes "x509_laws lib" and "GenerateCA lib caTTL t r = (Inr ca, r1)" and "GenerateLeaf lib ca names ttl u r2 = (Inr leaf, r3)"
    and "GenerateCA lib caTTL t' r' = (Inr ca', r1')" and "GenerateLeaf lib ca' names ttl u' r2' = (Inr leaf', r3')" and "t + Second \<le> t'"
  shows "ca_CertPEM ca \<noteq> ca_CertPEM ca'"
proof
  assume same: "ca_CertPEM ca = ca_CertPEM ca'"
  obtain d c where d: "ca_CertPEM ca = pemEncode ''CERTIFICATE'' d" "x509_ParseCertificate lib d = Inr c" "seconds_of (xc_NotAfter c) (t + caTTL)"
    using issued_pair [OF assms(1-3)] by metis
  obtain d' c' where d': "ca_CertPEM ca' = pemEncode ''CERTIFICATE'' d'" "x509_ParseCertificate lib d' = Inr c'" "seconds_of (xc_NotAfter c') (t' + caTTL)"
    using issued_pair [OF assms(1,4,5)] by metis
  from same d(1) d'(1) have "pemDecode (pemEncode ''CERTIFICATE'' d) = pemDecode (pemEncode ''CERTIFICATE'' d')" by simp
  with d(2,3) d'(2,3) assms(6) show False by (auto simp: seconds_of_def)
qed

lemma demo_race:
  obtains f and ca ca' :: CA and leaf' where
    "schedule demoLib '''' demoRotator [0, 1, 0, 1, 0, 0, 1, 1, 0] demoFleet = Ret f"
    "rep_phase (fl_replica f 0) = PassDone (True, None)" "rep_phase (fl_replica f 1) = PassDone (True, None)"
    "fl_cluster f = \<lparr>dc_secret = Some (secretToWrite '''' (Some zeroSecret) ca' leaf'),
       dc_caBundle = CaBundlePatch ''service-spread-policy-validator'' (ca_CertPEM ca), dc_annotations = None, dc_patchFails = 0\<rparr>"
    "ca_CertPEM ca \<noteq> ca_CertPEM ca'" "GenerateCA demoLib caLifeTime (2 * Hour) 0 = (Inr ca', 2)"
    "GenerateLeaf demoLib ca' (ServingCertDNSNames ''ns1'') leafLifeTime (2 * Hour) 2 = (Inr leaf', 4)"
proof -
  let ?names = "ServingCertDNSNames ''ns1''"
  obtain ca leaf where one: "GenerateCA demoLib caLifeTime Hour 0 = (Inr ca, 2)" "GenerateLeaf demoLib ca ?names leafLifeTime Hour 2 = (Inr leaf, 4)"
    using demo_pair [of Hour] by blast
  obtain ca' leaf' where two: "GenerateCA demoLib caLifeTime (2 * Hour) 0 = (Inr ca', 2)" "GenerateLeaf demoLib ca' ?names leafLifeTime (2 * Hour) 2 = (Inr leaf', 4)"
    using demo_pair [of "2 * Hour"] by (auto simp: duration_defs)
  have differ: "ca_CertPEM ca \<noteq> ca_CertPEM ca'" by (rule later_CA_differs [OF demoLib_laws one two]) (simp add: duration_defs)
  have "\<exists>f. schedule demoLib '''' demoRotator [0, 1, 0, 1, 0, 0, 1, 1, 0] demoFleet = Ret f \<and>
      rep_phase (fl_replica f 0) = PassDone (True, None) \<and> rep_phase (fl_replica f 1) = PassDone (True, None) \<and>
      fl_cluster f = \<lparr>dc_secret = Some (secretToWrite '''' (Some zeroSecret) ca' leaf'),
        dc_caBundle = CaBundlePatch ''service-spread-policy-validator'' (ca_CertPEM ca), dc_annotations = None, dc_patchFails = 0\<rparr>"
    by (simp add: advance_def passStep_def callStep_def issueStep_def readSecret_def needIssue_def demoFleet_def demoTimes_def demoRotator_def
        demoClient_def demoCluster0_def one two Let_def) (simp add: secretToWrite_def zeroSecret_def)
  then show thesis using differ two by (elim exE conjE) (rule that)
qed

text \<open>Concurrent bootstraps do not converge. Two replicas start on a fresh install; both find no Secret, both issue, the second Secret
  replaces the first, but the first CA is patched last. Both passes report success, the Secret
  and the webhook configuration disagree, and the leader's next pass finds nothing to do.\<close>

theorem racing_bootstraps_diverge:
  "\<exists>f sec. schedule demoLib '''' demoRotator [0, 1, 0, 1, 0, 0, 1, 1, 0] demoFleet = Ret f \<and>
     rep_phase (fl_replica f 0) = PassDone (True, None) \<and> rep_phase (fl_replica f 1) = PassDone (True, None) \<and>
     dc_secret (fl_cluster f) = Some sec \<and>
     dc_caBundle (fl_cluster f) \<noteq> CaBundlePatch ''service-spread-policy-validator'' (mgets (sec_Data sec) caCertKey) \<and>
     ensure demoLib '''' demoRotator (demoTimes (3 * Hour)) True (4, fl_cluster f) = Ret ((False, None), 4, fl_cluster f)"
proof -
  let ?cfg = "''service-spread-policy-validator''"
  obtain f and ca ca' :: CA and leaf' where race: "schedule demoLib '''' demoRotator [0, 1, 0, 1, 0, 0, 1, 1, 0] demoFleet = Ret f"
      "rep_phase (fl_replica f 0) = PassDone (True, None)" "rep_phase (fl_replica f 1) = PassDone (True, None)"
    and f: "fl_cluster f = \<lparr>dc_secret = Some (secretToWrite '''' (Some zeroSecret) ca' leaf'),
       dc_caBundle = CaBundlePatch ?cfg (ca_CertPEM ca), dc_annotations = None, dc_patchFails = 0\<rparr>"
    and differ: "ca_CertPEM ca \<noteq> ca_CertPEM ca'"
    and pair: "GenerateCA demoLib caLifeTime (2 * Hour) 0 = (Inr ca', 2)"
      "GenerateLeaf demoLib ca' (ServingCertDNSNames ''ns1'') leafLifeTime (2 * Hour) 2 = (Inr leaf', 4)"
    by (rule demo_race)
  let ?sec = "secretToWrite '''' (Some zeroSecret) ca' leaf'"
  have data: "sec_Data ?sec = sec_Data (SecretFromCerts '''' ca' leaf')" by (simp add: secretToWrite_simps)
  have "quiet_period (demoTimes (2 * Hour)) (demoTimes (3 * Hour))"
    by (simp add: quiet_period_def demoTimes_def caLifeTime_def duration_defs)
  then have "needIssue demoLib (demoTimes (3 * Hour)) (Some ?sec, None) = Ret False"
    using pair by (intro pair_accepted [OF demoLib_laws _ _ data, of "demoTimes (2 * Hour)"]) (simp_all add: demoTimes_def)
  then have "ensure demoLib '''' demoRotator (demoTimes (3 * Hour)) True (4, fl_cluster f) = Ret ((False, None), 4, fl_cluster f)"
    by (simp add: ensure_def readSecret_def demoRotator_def demoClient_def f)
  moreover have "mgets (sec_Data ?sec) caCertKey = ca_CertPEM ca'" by (simp add: data SecretFromCerts_def mgets_def)
  moreover have "CaBundlePatch ?cfg (ca_CertPEM ca) \<noteq> CaBundlePatch ?cfg (ca_CertPEM ca')" using CaBundlePatch_inj differ by blast
  ultimately show ?thesis using race by (auto simp: f)
qed

subsection \<open>The hypotheses can hold\<close>

lemma demo_api:
  "client_laws (cr_client demoRotator) (cr_secretNamespace demoRotator)" "write_laws (cr_client demoRotator) (cr_secretNamespace demoRotator)"
  "bundle_laws demoRotator dc_caBundle"
  by (simp add: demoRotator_def demoClient_laws)
    (auto simp: write_laws_def bundle_laws_def demoRotator_def demoClient_def split: option.splits if_splits)

lemma demo_fleet_init: "\<forall>i. rep_phase (fl_replica demoFleet i) = PassStart" "snd (readSecret demoRotator (fl_cluster demoFleet)) \<noteq> None"
  by (simp_all add: demoFleet_def readSecret_def demoRotator_def demoClient_def demoCluster0_def)


lemma singleWriter_advance:
  assumes "advance lib env rot i f = Ret f'" and "\<forall>j. j \<noteq> i \<longrightarrow> rep_phase (fl_replica f j) = PassStart"
    and "rep_phase (fl_replica f' i) \<noteq> PassStart" and "\<not> unpublished (rep_phase (fl_replica f' i))"
  shows "singleWriterStep lib env rot caBundle f f'"
proof -
  have others: "fl_replica f' j = fl_replica f j" if "j \<noteq> i" for j using advance_Ret [OF assms(1)] that by metis
  have idle: "\<not> writing PassStart" "\<not> unpublished PassStart" by (simp_all add: writing_def unpublished_def)
  show ?thesis unfolding singleWriterStep_def
    using assms others idle fleetStep.Advance [OF assms(1)] by metis
qed

text \<open>Replica 0 alone, at a phase and with a cluster.\<close>

definition demoStage :: "certPhase \<Rightarrow> nat \<Rightarrow> demoCluster \<Rightarrow> (nat, demoCluster) fleet" where
  "demoStage ph r s = \<lparr>fl_replica = (fl_replica demoFleet)(0 := (fl_replica demoFleet 0)\<lparr>rep_phase := ph, rep_rnd := r\<rparr>), fl_cluster = s\<rparr>"

lemma demoStage_step:
  assumes "passStep demoLib '''' demoRotator (demoTimes Hour) False (ph, r, s) = Ret (ph', r', s')" and "ph' \<noteq> PassStart" and "\<not> unpublished ph'"
  shows "singleWriterStep demoLib '''' demoRotator dc_caBundle (demoStage ph r s) (demoStage ph' r' s')"
  by (rule singleWriter_advance [of _ _ _ 0])
    (use assms in \<open>simp_all add: advance_def demoStage_def demoFleet_def\<close>)

lemma demo_single_writer_run:
  obtains f sec where "(singleWriterStep demoLib '''' demoRotator dc_caBundle)\<^sup>*\<^sup>* demoFleet f" and "\<forall>i. \<not> writing (rep_phase (fl_replica f i))"
    and "readSecret demoRotator (fl_cluster f) = (Some sec, None)" and "rep_phase (fl_replica f 0) = PassDone (True, None)"
proof -
  let ?step = "singleWriterStep demoLib '''' demoRotator dc_caBundle" and ?s0 = "demoCluster0 0"
  obtain ca leaf where pair: "GenerateCA demoLib caLifeTime Hour 0 = (Inr ca, 2)"
    "GenerateLeaf demoLib ca (ServingCertDNSNames ''ns1'') leafLifeTime Hour 2 = (Inr leaf, 4)"
    using demo_pair [of Hour] by blast
  let ?sec = "secretToWrite '''' (Some zeroSecret) ca leaf"
  let ?s1 = "?s0\<lparr>dc_secret := Some ?sec\<rparr>"
  let ?s2 = "?s1\<lparr>dc_caBundle := CaBundlePatch ''service-spread-policy-validator'' (ca_CertPEM ca)\<rparr>"
  note defs = passStep_def callStep_def issueStep_def readSecret_def needIssue_def demoTimes_def demoRotator_def demoClient_def demoCluster0_def
    unpublished_def pair
  have "?step (demoStage PassStart 0 ?s0) (demoStage (SecretRead (Some zeroSecret, Some ''not found'')) 0 ?s0)"
    "?step (demoStage (SecretRead (Some zeroSecret, Some ''not found'')) 0 ?s0) (demoStage (Issued ?sec ca) 4 ?s0)"
    "?step (demoStage (Issued ?sec ca) 4 ?s0) (demoStage (UpdateFailed ''not found'' ?sec ca) 4 ?s0)"
    "?step (demoStage (UpdateFailed ''not found'' ?sec ca) 4 ?s0) (demoStage (SecretWritten ca) 4 ?s1)"
    "?step (demoStage (SecretWritten ca) 4 ?s1) (demoStage (PassDone (True, None)) 4 ?s2)"
    by (rule demoStage_step; simp add: defs)+
  moreover have "demoStage PassStart 0 ?s0 = demoFleet" by (auto simp: demoStage_def demoFleet_def)
  ultimately have reach: "?step\<^sup>*\<^sup>* demoFleet (demoStage (PassDone (True, None)) 4 ?s2)"
    by (auto intro: converse_rtranclp_into_rtranclp)
  then show thesis
    by (rule that) (simp_all add: demoStage_def demoFleet_def writing_def readSecret_def demoRotator_def demoClient_def)
qed

theorem single_writer_keeps_bundle_current_witness:
  "\<exists>f sec. (singleWriterStep demoLib '''' demoRotator dc_caBundle)\<^sup>*\<^sup>* demoFleet f \<and> readSecret demoRotator (fl_cluster f) = (Some sec, None) \<and>
     rep_phase (fl_replica f 0) = PassDone (True, None) \<and>
     dc_caBundle (fl_cluster f) = CaBundlePatch ''service-spread-policy-validator'' (mgets (sec_Data sec) caCertKey)"
proof (rule demo_single_writer_run)
  fix f sec
  assume run: "(singleWriterStep demoLib '''' demoRotator dc_caBundle)\<^sup>*\<^sup>* demoFleet f" "\<forall>i. \<not> writing (rep_phase (fl_replica f i))"
    "readSecret demoRotator (fl_cluster f) = (Some sec, None)" and fin: "rep_phase (fl_replica f 0) = PassDone (True, None)"
  have "cr_webhookCfgName demoRotator = ''service-spread-policy-validator''" by (simp add: demoRotator_def)
  with single_writer_keeps_bundle_current [OF demo_api demo_fleet_init run] run fin show ?thesis by metis
qed

end
