(* ===== verification/Webhook_Main.thy ===== *)
theory Webhook_Main
  imports Self_Cert
begin

section \<open>The webhook process\<close>

text \<open>
  \<open>cmd/webhook/main.go\<close> and \<open>internal/webhook/wire.go\<close>: the command line, the cold start of the serving certificate, and the order in
  which the process adds its parts to the controller-runtime manager before it starts it. Parsing of the command line and the
  joining of paths are the standard library's. What client-go and controller-runtime answer is in the record \<open>mainEnv\<close>. The
  model returns the exit code, the steps taken and the state of randomness and cluster.
\<close>

subsection \<open>Command line\<close>

record webhookFlags =
  wf_metricsAddr :: string
  wf_probeAddr :: string
  wf_certDir :: string
  wf_certName :: string
  wf_keyName :: string
  wf_cmNamespace :: string
  wf_cmName :: string
  wf_leaderElect :: bool
  wf_selfSign :: bool

definition SharedConfigMapName :: string where "SharedConfigMapName = ''service-spread-scheduler-config''"

definition flagDefaults :: webhookFlags where
  "flagDefaults = \<lparr>wf_metricsAddr = '':8080'', wf_probeAddr = '':8081'', wf_certDir = '''', wf_certName = ''tls.crt'',
     wf_keyName = ''tls.key'', wf_cmNamespace = '''', wf_cmName = SharedConfigMapName, wf_leaderElect = False, wf_selfSign = False\<rparr>"

definition parseBool :: "string \<Rightarrow> bool option" where
  "parseBool s =
     (if s \<in> {''1'', ''t'', ''T'', ''TRUE'', ''true'', ''True''} then Some True
      else if s \<in> {''0'', ''f'', ''F'', ''FALSE'', ''false'', ''False''} then Some False else None)"

datatype flagError = BadSyntax string | NotDefined string | NeedsArgument string | InvalidValue string string | HelpRequested

text \<open>The flags the process defines itself: whether a flag is boolean, and its effect.\<close>

definition stringFlag :: "string \<Rightarrow> (string \<Rightarrow> webhookFlags \<Rightarrow> webhookFlags) option" where
  "stringFlag name =
     (if name = ''metrics-bind-address'' then Some (\<lambda>v f. f\<lparr>wf_metricsAddr := v\<rparr>)
      else if name = ''health-probe-bind-address'' then Some (\<lambda>v f. f\<lparr>wf_probeAddr := v\<rparr>)
      else if name = ''webhook-cert-dir'' then Some (\<lambda>v f. f\<lparr>wf_certDir := v\<rparr>)
      else if name = ''webhook-cert-name'' then Some (\<lambda>v f. f\<lparr>wf_certName := v\<rparr>)
      else if name = ''webhook-cert-key-name'' then Some (\<lambda>v f. f\<lparr>wf_keyName := v\<rparr>)
      else if name = ''config-map-namespace'' then Some (\<lambda>v f. f\<lparr>wf_cmNamespace := v\<rparr>)
      else if name = ''config-map-name'' then Some (\<lambda>v f. f\<lparr>wf_cmName := v\<rparr>)
      else None)"

definition boolFlag :: "string \<Rightarrow> (bool \<Rightarrow> webhookFlags \<Rightarrow> webhookFlags) option" where
  "boolFlag name =
     (if name = ''leader-elect'' then Some (\<lambda>v f. f\<lparr>wf_leaderElect := v\<rparr>)
      else if name = ''self-sign-certs'' then Some (\<lambda>v f. f\<lparr>wf_selfSign := v\<rparr>)
      else None)"

text \<open>The flags that linked packages define (logging, kubeconfig): whether they are boolean, and whether they accept a value.\<close>

type_synonym otherFlags = "string \<Rightarrow> (bool \<times> (string \<Rightarrow> bool)) option"

definition isBoolFlag :: "otherFlags \<Rightarrow> string \<Rightarrow> bool option" where
  "isBoolFlag oth name =
     (if boolFlag name \<noteq> None then Some True else if stringFlag name \<noteq> None then Some False else map_option fst (oth name))"

definition setFlag :: "otherFlags \<Rightarrow> string \<Rightarrow> string \<Rightarrow> webhookFlags \<Rightarrow> flagError + webhookFlags" where
  "setFlag oth name v f =
     (case boolFlag name of
        Some upd \<Rightarrow> (case parseBool v of None \<Rightarrow> Inl (InvalidValue name v) | Some b \<Rightarrow> Inr (upd b f))
      | None \<Rightarrow>
          (case stringFlag name of
             Some upd \<Rightarrow> Inr (upd v f)
           | None \<Rightarrow>
               (case oth name of
                  Some (_, accepts) \<Rightarrow> if accepts v then Inr f else Inl (InvalidValue name v)
                | None \<Rightarrow> Inl (NotDefined name))))"

definition splitEq :: "string \<Rightarrow> string \<times> string option" where
  "splitEq s = (case indexByte s (CHR ''='') of None \<Rightarrow> (s, None) | Some i \<Rightarrow> (take i s, Some (drop (Suc i) s)))"

text \<open>\<open>flag.Parse\<close>: one or two dashes, \<open>-name=value\<close>, \<open>-name value\<close> unless boolean; it stops at the first other argument.\<close>

fun flagParse :: "otherFlags \<Rightarrow> string list \<Rightarrow> webhookFlags \<Rightarrow> flagError + webhookFlags" where
  "flagParse oth [] f = Inr f"
| "flagParse oth (s # args) f =
     (if length s < 2 \<or> hd s \<noteq> CHR ''-'' then Inr f
      else if s = ''--'' then Inr f
      else let body = (if s ! 1 = CHR ''-'' then drop 2 s else drop 1 s)
      in if body = [] \<or> hd body = CHR ''-'' \<or> hd body = CHR ''='' then Inl (BadSyntax s)
      else let name = fst (splitEq body); val = snd (splitEq body)
      in case isBoolFlag oth name of
           None \<Rightarrow> Inl (if name = ''help'' \<or> name = ''h'' then HelpRequested else NotDefined name)
         | Some True \<Rightarrow>
             (case setFlag oth name (case val of None \<Rightarrow> ''true'' | Some v \<Rightarrow> v) f of
                Inl e \<Rightarrow> Inl e | Inr f' \<Rightarrow> flagParse oth args f')
         | Some False \<Rightarrow>
             (case val of
                Some v \<Rightarrow> (case setFlag oth name v f of Inl e \<Rightarrow> Inl e | Inr f' \<Rightarrow> flagParse oth args f')
              | None \<Rightarrow>
                  (case args of
                     [] \<Rightarrow> Inl (NeedsArgument name)
                   | v # args' \<Rightarrow> (case setFlag oth name v f of Inl e \<Rightarrow> Inl e | Inr f' \<Rightarrow> flagParse oth args' f'))))"

declare flagParse.simps(2) [simp del]

subsection \<open>Paths\<close>

fun splitSlash :: "string \<Rightarrow> string \<Rightarrow> string list" where
  "splitSlash acc [] = [rev acc]"
| "splitSlash acc (c # s) = (if c = CHR 0x2F then rev acc # splitSlash [] s else splitSlash (c # acc) s)"

text \<open>The elements of a cleaned path, last first.\<close>

fun cleanElems :: "bool \<Rightarrow> string list \<Rightarrow> string list \<Rightarrow> string list" where
  "cleanElems rooted [] out = out"
| "cleanElems rooted (e # es) out =
     (if e = '''' \<or> e = ''.'' then cleanElems rooted es out
      else if e = ''..'' then
        (case out of
           [] \<Rightarrow> cleanElems rooted es (if rooted then [] else [e])
         | o1 # out' \<Rightarrow> cleanElems rooted es (if o1 = ''..'' then e # out else out'))
      else cleanElems rooted es (e # out))"

definition filepath_Clean :: "string \<Rightarrow> string" where
  "filepath_Clean p =
     (let rooted = startsWith p [CHR 0x2F]; body = joinStrings [CHR 0x2F] (rev (cleanElems rooted (splitSlash [] p) []))
      in if p = [] then ''.'' else if rooted then CHR 0x2F # body else if body = [] then ''.'' else body)"

definition filepath_Join :: "string \<Rightarrow> string \<Rightarrow> string" where
  "filepath_Join a b =
     (if a = [] \<and> b = [] then [] else filepath_Clean (joinStrings [CHR 0x2F] (filter (\<lambda>x. x \<noteq> []) [a, b])))"

subsection \<open>The process\<close>

definition PolicyWebhookPath :: string where
  "PolicyWebhookPath = ''/validate-scheduling-soyup-top-v1alpha1-servicespreadpolicy''"

datatype runnable =
    CertWatcherRunnable string string
  | ConfigSourceRunnable string string
  | RotatorRunnable string "string list" duration

datatype mainStep =
    Bootstrapped "bool \<times> certError option"
  | AddedRunnable runnable
  | RegisteredWebhook string
  | AddedReadyz
  | AddedHealthz
  | StartedManager

record ('r, 'k, 's) mainEnv =
  me_args :: "string list"
  me_otherFlags :: otherFlags
  me_restConfig :: bool
  me_certWatcher :: "string \<Rightarrow> string \<Rightarrow> string option"
  me_client :: "string + 's kubeClient"
  me_manager :: "webhookFlags \<Rightarrow> string option"
  me_add :: "runnable \<Rightarrow> string option"
  me_readyz :: "string option"
  me_healthz :: "string option"
  me_start :: "string option"
  me_lib :: "('r, 'k) x509_lib"
  me_namespaceVar :: string
  me_coldTimes :: passTimes
  me_bootTimes :: passTimes

definition validatorName :: string where "validatorName = ''service-spread-policy-validator''"

definition leaderOnly :: "'s CertRotator \<Rightarrow> runnable" where
  "leaderOnly rot = RotatorRunnable (cr_webhookCfgName rot) (cr_dnsNames rot) (12 * Hour)"

definition rotatorOf :: "('r, 'k, 's) mainEnv \<Rightarrow> webhookFlags \<Rightarrow> string + 's CertRotator" where
  "rotatorOf env f = NewCertRotator (me_client env) (me_namespaceVar env) validatorName (ServingCertDNSNames (wf_cmNamespace f))"

text \<open>The cold start: the certificate is not mounted and the process signs its own. The Secret is issued at once, whatever the other
  flags say; then the process exits to be restarted.\<close>

definition coldStart ::
    "('r, 'k, 's) mainEnv \<Rightarrow> webhookFlags \<Rightarrow> 'r \<times> 's \<Rightarrow> (nat \<times> mainStep list \<times> 'r \<times> 's) outcome" where
  "coldStart env f w =
     (if wf_selfSign f then
        (case rotatorOf env f of
           Inl e \<Rightarrow> Ret (1, [], w)
         | Inr rot \<Rightarrow>
             bindOutcome (EnsureBootstrap (me_lib env) (me_namespaceVar env) rot (me_coldTimes env) w) (\<lambda>(res, w').
               Ret (1, [Bootstrapped res], w')))
      else Ret (1, [], w))"

text \<open>\<open>RegisterPolicyWebhook\<close> cannot fail.\<close>

definition RegisterPolicyWebhook :: "mainStep list" where
  "RegisterPolicyWebhook = [RegisteredWebhook PolicyWebhookPath]"

definition serve :: "('r, 'k, 's) mainEnv \<Rightarrow> mainStep list \<Rightarrow> 'r \<times> 's \<Rightarrow> (nat \<times> mainStep list \<times> 'r \<times> 's) outcome" where
  "serve env steps w =
     (let steps1 = steps @ RegisterPolicyWebhook
      in case me_readyz env of
           Some e \<Rightarrow> Ret (1, steps1, w)
         | None \<Rightarrow>
             (case me_healthz env of
                Some e \<Rightarrow> Ret (1, steps1 @ [AddedReadyz], w)
              | None \<Rightarrow>
                  Ret (case me_start env of None \<Rightarrow> 0 | Some e \<Rightarrow> 1, steps1 @ [AddedReadyz, AddedHealthz, StartedManager], w)))"

definition selfSign ::
    "('r, 'k, 's) mainEnv \<Rightarrow> webhookFlags \<Rightarrow> mainStep list \<Rightarrow> 'r \<times> 's \<Rightarrow> (nat \<times> mainStep list \<times> 'r \<times> 's) outcome" where
  "selfSign env f steps w =
     (if \<not> wf_selfSign f then serve env steps w
      else if \<not> wf_leaderElect f then Ret (1, steps, w)
      else case rotatorOf env f of
        Inl e \<Rightarrow> Ret (1, steps, w)
      | Inr rot \<Rightarrow>
          bindOutcome (EnsureBootstrap (me_lib env) (me_namespaceVar env) rot (me_bootTimes env) w) (\<lambda>(res, w').
            let steps1 = steps @ [Bootstrapped res]
            in case me_add env (leaderOnly rot) of
                 Some e \<Rightarrow> Ret (1, steps1, w')
               | None \<Rightarrow> serve env (steps1 @ [AddedRunnable (leaderOnly rot)]) w'))"

definition configure ::
    "('r, 'k, 's) mainEnv \<Rightarrow> webhookFlags \<Rightarrow> mainStep list \<Rightarrow> 'r \<times> 's \<Rightarrow> (nat \<times> mainStep list \<times> 'r \<times> 's) outcome" where
  "configure env f steps w =
     (case me_client env of
        Inl e \<Rightarrow> Ret (1, steps, w)
      | Inr client \<Rightarrow>
          (let src = ConfigSourceRunnable (wf_cmNamespace f) (wf_cmName f)
           in case me_add env src of
                Some e \<Rightarrow> Ret (1, steps, w)
              | None \<Rightarrow> selfSign env f (steps @ [AddedRunnable src]) w))"

definition webhook_main :: "('r, 'k, 's) mainEnv \<Rightarrow> 'r \<times> 's \<Rightarrow> (nat \<times> mainStep list \<times> 'r \<times> 's) outcome" where
  "webhook_main env w =
     (case flagParse (me_otherFlags env) (me_args env) flagDefaults of
        Inl HelpRequested \<Rightarrow> Ret (0, [], w)
      | Inl e \<Rightarrow> Ret (2, [], w)
      | Inr f \<Rightarrow>
          if wf_cmNamespace f = '''' then Ret (1, [], w)
          else if \<not> me_restConfig env then Ret (1, [], w)
          else let certPath = filepath_Join (wf_certDir f) (wf_certName f); keyPath = filepath_Join (wf_certDir f) (wf_keyName f);
                   watcher = CertWatcherRunnable certPath keyPath
          in if wf_certDir f \<noteq> '''' \<and> me_certWatcher env certPath keyPath \<noteq> None then coldStart env f w
          else if me_manager env f \<noteq> None then Ret (1, [], w)
          else if wf_certDir f = '''' then configure env f [] w
          else (case me_add env watcher of
                  Some e \<Rightarrow> Ret (1, [], w)
                | None \<Rightarrow> configure env f [AddedRunnable watcher] w))"

text \<open>The readiness check reports what the configuration source reports.\<close>

definition readyzCheck :: "ConfigMapSource \<Rightarrow> configError option" where
  "readyzCheck src = (case ConfigMapSource_Get src of Inl e \<Rightarrow> Some e | Inr cfg \<Rightarrow> None)"

subsection \<open>Start-up\<close>

text \<open>The last steps of a run that starts the manager, its exit code, and the steps of self-signing before them.\<close>

definition servingSteps :: "mainStep list" where
  "servingSteps = [RegisteredWebhook PolicyWebhookPath, AddedReadyz, AddedHealthz, StartedManager]"

definition startCode :: "('r, 'k, 's) mainEnv \<Rightarrow> nat" where
  "startCode env = (if me_start env = None then 0 else 1)"

definition rotationSteps :: "('r, 'k, 's) mainEnv \<Rightarrow> webhookFlags \<Rightarrow> mainStep list \<Rightarrow> bool" where
  "rotationSteps env f mid \<longleftrightarrow>
     (if wf_selfSign f
      then wf_leaderElect f \<and> (\<exists>rot res. rotatorOf env f = Inr rot \<and> mid = [Bootstrapped res, AddedRunnable (leaderOnly rot)])
      else mid = [])"

lemma serve_started:
  assumes "serve env steps w = Ret (code, out, w')" and "StartedManager \<notin> set steps"
  shows "w' = w \<and> (StartedManager \<in> set out \<longrightarrow> out = steps @ servingSteps \<and> code = startCode env) \<and>
    (StartedManager \<notin> set out \<longrightarrow> code = 1)"
  using assms
  by (auto simp: serve_def RegisterPolicyWebhook_def servingSteps_def startCode_def Let_def split: option.splits)

lemma selfSign_started:
  assumes "selfSign env f steps w = Ret (code, out, w')" and "StartedManager \<notin> set steps"
  shows "(StartedManager \<in> set out \<longrightarrow>
      (\<exists>mid. out = steps @ mid @ servingSteps \<and> code = startCode env \<and> rotationSteps env f mid \<and> (wf_selfSign f \<or> w' = w))) \<and>
    (StartedManager \<notin> set out \<longrightarrow> code = 1)"
proof -
  consider "code = 1" "StartedManager \<notin> set out" | "\<not> wf_selfSign f" "serve env steps w = Ret (code, out, w')"
    | rot res w1 where "wf_selfSign f" "wf_leaderElect f" "rotatorOf env f = Inr rot"
        "serve env (steps @ [Bootstrapped res, AddedRunnable (leaderOnly rot)]) w1 = Ret (code, out, w')"
    using assms
    by (auto simp: selfSign_def bindOutcome_Ret_iff Let_def split: if_splits sum.splits option.splits)
  then show ?thesis
  proof cases
    case 2
    with serve_started [OF 2(2) assms(2)] show ?thesis by (auto simp: rotationSteps_def)
  next
    case 3
    with serve_started [OF 3(4)] assms(2) show ?thesis by (auto simp: rotationSteps_def)
  qed simp
qed

lemma configure_started:
  assumes "configure env f steps w = Ret (code, out, w')" and "StartedManager \<notin> set steps"
  shows "(StartedManager \<in> set out \<longrightarrow>
      (\<exists>mid. out = steps @ AddedRunnable (ConfigSourceRunnable (wf_cmNamespace f) (wf_cmName f)) # mid @ servingSteps \<and>
        code = startCode env \<and> rotationSteps env f mid \<and> (wf_selfSign f \<or> w' = w))) \<and>
    (StartedManager \<notin> set out \<longrightarrow> code = 1)"
proof -
  let ?src = "ConfigSourceRunnable (wf_cmNamespace f) (wf_cmName f)"
  consider "code = 1" "out = steps" | "selfSign env f (steps @ [AddedRunnable ?src]) w = Ret (code, out, w')"
    using assms(1) by (auto simp: configure_def Let_def split: sum.splits option.splits)
  then show ?thesis
  proof cases
    case 2
    with selfSign_started [OF 2] assms(2) show ?thesis by simp
  qed (use assms(2) in simp)
qed

lemma webhook_main_started:
  assumes "webhook_main env w = Ret (code, steps, w')"
  shows "(StartedManager \<in> set steps \<longrightarrow>
      (\<exists>f watch mid. flagParse (me_otherFlags env) (me_args env) flagDefaults = Inr f \<and> wf_cmNamespace f \<noteq> '''' \<and>
        steps = watch @ AddedRunnable (ConfigSourceRunnable (wf_cmNamespace f) (wf_cmName f)) # mid @ servingSteps \<and>
        code = startCode env \<and> rotationSteps env f mid \<and> (wf_selfSign f \<or> w' = w) \<and>
        (if wf_certDir f = '''' then watch = []
         else me_certWatcher env (filepath_Join (wf_certDir f) (wf_certName f)) (filepath_Join (wf_certDir f) (wf_keyName f)) = None \<and>
           watch = [AddedRunnable (CertWatcherRunnable (filepath_Join (wf_certDir f) (wf_certName f))
             (filepath_Join (wf_certDir f) (wf_keyName f)))]))) \<and>
    (StartedManager \<notin> set steps \<longrightarrow> code \<noteq> 0 \<or> flagParse (me_otherFlags env) (me_args env) flagDefaults = Inl HelpRequested)"
proof (cases "flagParse (me_otherFlags env) (me_args env) flagDefaults")
  case (Inl e)
  with assms show ?thesis by (cases e) (auto simp: webhook_main_def)
next
  case (Inr f)
  let ?watch = "AddedRunnable (CertWatcherRunnable (filepath_Join (wf_certDir f) (wf_certName f)) (filepath_Join (wf_certDir f) (wf_keyName f)))"
  have cold: "code = 1 \<and> StartedManager \<notin> set steps" if "coldStart env f w = Ret (code, steps, w')"
    using that by (auto simp: coldStart_def bindOutcome_Ret_iff split: if_splits sum.splits)
  consider (exit) "code = 1" "StartedManager \<notin> set steps"
    | (plain) "wf_certDir f = ''''" "wf_cmNamespace f \<noteq> ''''" "configure env f [] w = Ret (code, steps, w')"
    | (watched) "wf_certDir f \<noteq> ''''" "wf_cmNamespace f \<noteq> ''''"
        "me_certWatcher env (filepath_Join (wf_certDir f) (wf_certName f)) (filepath_Join (wf_certDir f) (wf_keyName f)) = None"
        "configure env f [?watch] w = Ret (code, steps, w')"
    using assms cold by (auto simp: webhook_main_def Inr Let_def split: if_splits option.splits)
  then show ?thesis
  proof cases
    case plain
    with configure_started [OF plain(3)] Inr show ?thesis by auto
  next
    case watched
    with configure_started [OF watched(4)] Inr show ?thesis by auto
  qed simp
qed

text \<open>C26: A webhook process that serves is completely set up. If the manager is started, then the command line named the namespace of the
  shared configuration, and the parts were added in this order: the certificate watcher if a directory is given (and then the
  pair was readable), the configuration source, with self-signing the bootstrap and the rotator (and then
  leader election is on), the policy webhook, readiness and liveness; the exit code tells whether the manager ended with an
  error. If it is not started, the exit code is not 0, except after a request for help.\<close>

theorem webhook_startup:
  assumes "webhook_main env w = Ret (code, steps, w')"
  shows "(StartedManager \<in> set steps \<longrightarrow>
      (\<exists>f watch mid. flagParse (me_otherFlags env) (me_args env) flagDefaults = Inr f \<and> wf_cmNamespace f \<noteq> '''' \<and>
        steps = watch @ AddedRunnable (ConfigSourceRunnable (wf_cmNamespace f) (wf_cmName f)) # mid @ servingSteps \<and>
        code = startCode env \<and> rotationSteps env f mid \<and> (wf_selfSign f \<or> w' = w) \<and>
        (if wf_certDir f = '''' then watch = []
         else me_certWatcher env (filepath_Join (wf_certDir f) (wf_certName f)) (filepath_Join (wf_certDir f) (wf_keyName f)) = None \<and>
           watch = [AddedRunnable (CertWatcherRunnable (filepath_Join (wf_certDir f) (wf_certName f))
             (filepath_Join (wf_certDir f) (wf_keyName f)))]))) \<and>
    (StartedManager \<notin> set steps \<longrightarrow> code \<noteq> 0 \<or> flagParse (me_otherFlags env) (me_args env) flagDefaults = Inl HelpRequested)"
  using webhook_main_started [OF assms] .

subsection \<open>The cold start\<close>

lemma rotatorOf_client: "me_client env = Inr cl \<Longrightarrow> rotatorOf env f = Inr \<lparr>cr_client = cl,
    cr_secretNamespace = WebhookNamespace (me_namespaceVar env), cr_webhookCfgName = validatorName,
    cr_dnsNames = ServingCertDNSNames (wf_cmNamespace f)\<rparr>"
  by (simp add: rotatorOf_def NewCertRotator_def)

text \<open>A cold start ends in service. With self-signing and leader election, a process that finds no certificate issues one and exits
  with code 1; when it is restarted within sixty days onto the mounted pair, and the manager accepts its parts, it finds
  nothing to issue, leaves the cluster as it is, adds the rotator and starts serving.\<close>

theorem cold_start_then_serves:
  assumes "x509_laws (me_lib env)" and "me_client env = Inr cl" and "client_laws cl (WebhookNamespace (me_namespaceVar env))"
    and "flagParse (me_otherFlags env) (me_args env) flagDefaults = Inr f"
    and "wf_selfSign f" and "wf_leaderElect f" and "wf_cmNamespace f \<noteq> ''''" and "wf_certDir f \<noteq> ''''" and "me_restConfig env"
    and "\<forall>c k. me_certWatcher env c k \<noteq> None" and "\<forall>c k. mounted c k = None" and "\<forall>g. me_manager env g = None"
    and "\<forall>x. me_add env x = None" and "me_readyz env = None" and "me_healthz env = None"
    and "webhook_main env (r, s) = Ret (1, [Bootstrapped (True, None)], r1, s1)" and "quiet_period (me_coldTimes env) later"
  shows "webhook_main (env\<lparr>me_certWatcher := mounted, me_bootTimes := later\<rparr>) (r2, s1) =
    Ret (startCode env, [AddedRunnable (CertWatcherRunnable (filepath_Join (wf_certDir f) (wf_certName f)) (filepath_Join (wf_certDir f) (wf_keyName f))),
      AddedRunnable (ConfigSourceRunnable (wf_cmNamespace f) (wf_cmName f)), Bootstrapped (False, None),
      AddedRunnable (RotatorRunnable validatorName (ServingCertDNSNames (wf_cmNamespace f)) (12 * Hour))] @ servingSteps, r2, s1)"
proof -
  let ?env = "env\<lparr>me_certWatcher := mounted, me_bootTimes := later\<rparr>"
  obtain rot where rot: "rotatorOf env f = Inr rot" "cr_client rot = cl" "cr_secretNamespace rot = WebhookNamespace (me_namespaceVar env)"
    "leaderOnly rot = RotatorRunnable validatorName (ServingCertDNSNames (wf_cmNamespace f)) (12 * Hour)"
    by (rule that [OF rotatorOf_client [OF assms(2)]]) (simp_all add: leaderOnly_def)
  have "rotatorOf ?env f = Inr rot" using rot(1) by (simp add: rotatorOf_def)
  have issue: "ensure (me_lib env) (me_namespaceVar env) rot (me_coldTimes env) False (r, s) = Ret ((True, None), r1, s1)"
    using assms(10,16)
    by (auto simp: webhook_main_def assms(4-9) coldStart_def rot(1) bindOutcome_Ret_iff EnsureBootstrap_def Let_def)
  have later: "ensure (me_lib env) (me_namespaceVar env) rot later False (r2, s1) = Ret ((False, None), r2, s1)"
    by (rule pass_after_issue [OF assms(1) _ issue refl assms(17)]) (simp add: rot assms(3))
  show ?thesis
    by (simp add: webhook_main_def assms configure_def selfSign_def \<open>rotatorOf ?env f = Inr rot\<close> EnsureBootstrap_def later
        rot(4) serve_def RegisterPolicyWebhook_def servingSteps_def startCode_def Let_def split: option.split)
qed

definition demoMain :: "string list \<Rightarrow> string option \<Rightarrow> (nat, nat, demoCluster) mainEnv" where
  "demoMain args unmounted =
     \<lparr>me_args = args, me_otherFlags = (\<lambda>n. None), me_restConfig = True, me_certWatcher = (\<lambda>c k. unmounted), me_client = Inr demoClient,
      me_manager = (\<lambda>f. None), me_add = (\<lambda>x. None), me_readyz = None, me_healthz = None, me_start = None, me_lib = demoLib,
      me_namespaceVar = ''ns1'', me_coldTimes = demoTimes Hour, me_bootTimes = demoTimes Hour\<rparr>"

definition demoFlags :: "bool \<Rightarrow> webhookFlags" where
  "demoFlags leader = flagDefaults\<lparr>wf_cmNamespace := ''ns1'', wf_certDir := ''/certs'', wf_selfSign := True, wf_leaderElect := leader\<rparr>"

definition demoArgs :: "string list" where
  "demoArgs = [''--config-map-namespace=ns1'', ''--webhook-cert-dir'', ''/certs'', ''-self-sign-certs'']"

lemma demoArgs_parse:
  "flagParse (\<lambda>n. None) demoArgs flagDefaults = Inr (demoFlags False)"
  "flagParse (\<lambda>n. None) (demoArgs @ [''--leader-elect'']) flagDefaults = Inr (demoFlags True)"
  by code_simp+

lemma demoFlags_sel:
  "wf_cmNamespace (demoFlags b) = ''ns1''" "wf_certDir (demoFlags b) = ''/certs''" "wf_selfSign (demoFlags b)" "wf_leaderElect (demoFlags b) = b"
  by (simp_all add: demoFlags_def)

lemma demo_rotatorOf: "rotatorOf (demoMain args e) (demoFlags b) = Inr demoRotator"
  by (simp add: rotatorOf_def demoMain_def demoFlags_def NewCertRotator_def WebhookNamespace_def demoRotator_def validatorName_def)

lemma flagDefaults_sel:
  "wf_certDir flagDefaults = ''''" "wf_cmName flagDefaults = SharedConfigMapName" "\<not> wf_selfSign flagDefaults"
  by (simp_all add: flagDefaults_def)

lemma demoMain_sel:
  "me_args (demoMain args e) = args" "me_otherFlags (demoMain args e) = (\<lambda>n. None)" "me_restConfig (demoMain args e)"
  "me_certWatcher (demoMain args e) c k = e" "me_lib (demoMain args e) = demoLib" "me_namespaceVar (demoMain args e) = ''ns1''"
  "me_coldTimes (demoMain args e) = demoTimes Hour" "me_bootTimes (demoMain args e) = demoTimes Hour"
  "me_client (demoMain args e) = Inr demoClient" "me_manager (demoMain args e) f = None" "me_add (demoMain args e) x = None"
  "me_readyz (demoMain args e) = None" "me_healthz (demoMain args e) = None" "me_start (demoMain args e) = None"
  by (simp_all add: demoMain_def)

lemma demo_cold_start:
  assumes "flagParse (\<lambda>n. None) args flagDefaults = Inr (demoFlags b)"
  obtains s where "webhook_main (demoMain args (Some ''no such file'')) (0, demoCluster0 0) = Ret (1, [Bootstrapped (True, None)], 4, s)"
    and "dc_secret s \<noteq> None"
proof (rule demo_pass [of Hour "''ns1''" False 0])
  fix ca leaf
  assume pass: "ensure demoLib ''ns1'' demoRotator (demoTimes Hour) False (0, demoCluster0 0) =
       Ret (demoPublished 0, 4,
         \<lparr>dc_secret = Some (secretToWrite ''ns1'' (Some zeroSecret) ca leaf),
          dc_caBundle = (if (0::nat) = 0 then CaBundlePatch ''service-spread-policy-validator'' (ca_CertPEM ca) else ''old''),
          dc_annotations = (if (0::nat) = 0 \<and> False then Some [(''service-spread.io/cert-issued-at'', formatRFC3339 Hour)] else None),
          dc_patchFails = 0 - 1\<rparr>)"
  show thesis
    by (rule that [of "\<lparr>dc_secret = Some (secretToWrite ''ns1'' (Some zeroSecret) ca leaf),
          dc_caBundle = CaBundlePatch ''service-spread-policy-validator'' (ca_CertPEM ca), dc_annotations = None, dc_patchFails = 0\<rparr>"])
      (simp_all add: webhook_main_def demoMain_sel assms demoFlags_sel coldStart_def demo_rotatorOf EnsureBootstrap_def pass demoPublished_def)
qed simp

theorem webhook_startup_witness:
  "\<exists>f mid w'. webhook_main (demoMain [''--config-map-namespace=ns1''] None) (0, demoCluster0 0) =
       Ret (0, AddedRunnable (ConfigSourceRunnable ''ns1'' SharedConfigMapName) # servingSteps, w') \<and>
     flagParse (\<lambda>n. None) [''--config-map-namespace=ns1''] flagDefaults = Inr f \<and>
     servingSteps = mid @ servingSteps \<and> rotationSteps (demoMain [''--config-map-namespace=ns1''] None) f mid \<and> w' = (0, demoCluster0 0)"
proof -
  let ?args = "[''--config-map-namespace=ns1'']"
  have parsed: "flagParse (\<lambda>n. None) ?args flagDefaults = Inr (flagDefaults\<lparr>wf_cmNamespace := ''ns1''\<rparr>)" by code_simp
  have run: "webhook_main (demoMain ?args None) (0, demoCluster0 0) =
      Ret (0, AddedRunnable (ConfigSourceRunnable ''ns1'' SharedConfigMapName) # servingSteps, 0, demoCluster0 0)"
    by (simp add: webhook_main_def demoMain_sel parsed flagDefaults_sel configure_def selfSign_def serve_def
        RegisterPolicyWebhook_def servingSteps_def)
  have "StartedManager \<in> set (AddedRunnable (ConfigSourceRunnable ''ns1'' SharedConfigMapName) # servingSteps)"
    by (simp add: servingSteps_def)
  with webhook_startup [OF run] show ?thesis
    using run by (auto simp: demoMain_sel parsed flagDefaults_sel)
qed

theorem cold_start_then_serves_witness:
  "\<exists>s1. webhook_main (demoMain (demoArgs @ [''--leader-elect'']) (Some ''no such file'')) (0, demoCluster0 0) =
       Ret (1, [Bootstrapped (True, None)], 4, s1) \<and>
     webhook_main (demoMain (demoArgs @ [''--leader-elect'']) (Some ''no such file'')
         \<lparr>me_certWatcher := (\<lambda>c k. None), me_bootTimes := demoTimes (13 * Hour)\<rparr>) (4, s1) =
       Ret (0, [AddedRunnable (CertWatcherRunnable ''/certs/tls.crt'' ''/certs/tls.key''),
         AddedRunnable (ConfigSourceRunnable ''ns1'' SharedConfigMapName), Bootstrapped (False, None),
         AddedRunnable (RotatorRunnable validatorName (ServingCertDNSNames ''ns1'') (12 * Hour))] @ servingSteps, 4, s1)"
proof -
  let ?env = "demoMain (demoArgs @ [''--leader-elect'']) (Some ''no such file'')"
  obtain s1 where cold: "webhook_main ?env (0, demoCluster0 0) = Ret (1, [Bootstrapped (True, None)], 4, s1)"
    by (rule demo_cold_start [OF demoArgs_parse(2)])
  have quiet: "quiet_period (me_coldTimes ?env) (demoTimes (13 * Hour))"
    by (simp add: demoMain_sel quiet_period_def demoTimes_def caLifeTime_def duration_defs)
  have paths: "filepath_Join ''/certs'' ''tls.crt'' = ''/certs/tls.crt''" "filepath_Join ''/certs'' ''tls.key'' = ''/certs/tls.key''"
    by code_simp+
  have names: "wf_certName (demoFlags True) = ''tls.crt''" "wf_keyName (demoFlags True) = ''tls.key''"
    "wf_cmName (demoFlags True) = SharedConfigMapName"
    by (simp_all add: demoFlags_def flagDefaults_def)
  have "webhook_main (?env\<lparr>me_certWatcher := (\<lambda>c k. None), me_bootTimes := demoTimes (13 * Hour)\<rparr>) (4, s1) =
       Ret (startCode ?env, [AddedRunnable (CertWatcherRunnable ''/certs/tls.crt'' ''/certs/tls.key''),
         AddedRunnable (ConfigSourceRunnable ''ns1'' SharedConfigMapName), Bootstrapped (False, None),
         AddedRunnable (RotatorRunnable validatorName (ServingCertDNSNames ''ns1'') (12 * Hour))] @ servingSteps, 4, s1)"
    using cold_start_then_serves [of ?env demoClient "demoFlags True" "\<lambda>c k. None" 0 "demoCluster0 0" 4 s1 "demoTimes (13 * Hour)" 4]
    using cold quiet by (simp add: demoMain_sel demoLib_laws demoClient_laws demoArgs_parse demoFlags_sel paths names)
  with cold show ?thesis by (auto simp: startCode_def demoMain_sel)
qed

text \<open>A cold start does not require leader election. With self-signing but without leader election, a process that finds no certificate
  writes the serving Secret and patches the webhook configuration before it exits; the same command line is refused, with
  nothing written, once the pair is mounted.\<close>

theorem cold_start_ignores_leader_election:
  "(\<exists>s. webhook_main (demoMain demoArgs (Some ''no such file'')) (0, demoCluster0 0) = Ret (1, [Bootstrapped (True, None)], 4, s) \<and>
      dc_secret s \<noteq> None) \<and>
   (\<exists>steps. webhook_main (demoMain demoArgs None) (0, demoCluster0 0) = Ret (1, steps, 0, demoCluster0 0) \<and>
      StartedManager \<notin> set steps) \<and>
   dc_secret (demoCluster0 0) = None"
proof (intro conjI)
  show "\<exists>s. webhook_main (demoMain demoArgs (Some ''no such file'')) (0, demoCluster0 0) = Ret (1, [Bootstrapped (True, None)], 4, s) \<and>
      dc_secret s \<noteq> None"
    by (rule demo_cold_start [OF demoArgs_parse(1)]) blast
  show "\<exists>steps. webhook_main (demoMain demoArgs None) (0, demoCluster0 0) = Ret (1, steps, 0, demoCluster0 0) \<and> StartedManager \<notin> set steps"
    by (simp add: webhook_main_def demoMain_sel demoArgs_parse demoFlags_sel configure_def selfSign_def)
  show "dc_secret (demoCluster0 0) = None" by (simp add: demoCluster0_def)
qed

end
