(* ===== verification/Serving.thy ===== *)
theory Serving
  imports Webhook_Main
begin

section \<open>The replicas of the webhook in service\<close>

text \<open>
  What runs in a replica once its manager is started, for any number of replicas of \<open>cmd/webhook/main.go\<close> of which at most one is elected. controller-runtime
  runs a part in every replica if its \<open>NeedLeaderElection\<close> says so, and all others only while the replica is elected, or always without leader election.
  What \<open>certwatcher\<close> answers is a parameter.
\<close>

subsection \<open>What the manager runs\<close>

text \<open>\<open>ConfigMapSource\<close> has a \<open>NeedLeaderElection\<close> method; the function that \<open>leaderOnly\<close> returns has none, which the manager reads as true.\<close>

definition needLeaderElection :: "bool \<Rightarrow> runnable \<Rightarrow> bool" where
  "needLeaderElection watcherNeeds r =
     (case r of
        CertWatcherRunnable c k \<Rightarrow> watcherNeeds
      | ConfigSourceRunnable ns name \<Rightarrow> ConfigMapSource_NeedLeaderElection
      | RotatorRunnable cfg dnsNames interval \<Rightarrow> True)"

definition running :: "bool \<Rightarrow> bool \<Rightarrow> bool \<Rightarrow> mainStep list \<Rightarrow> runnable set" where
  "running watcherNeeds leaderElect elected steps =
     (if StartedManager \<in> set steps
      then {r. AddedRunnable r \<in> set steps \<and> (\<not> leaderElect \<or> elected \<or> \<not> needLeaderElection watcherNeeds r)}
      else {})"

text \<open>The configuration source of a replica after its informer has observed some events.\<close>

definition sourceOf :: "k8s_lib \<Rightarrow> webhookFlags \<Rightarrow> cmEvent list \<Rightarrow> ConfigMapSource" where
  "sourceOf lib f observed = snd (ConfigMapSource_Start lib observed (NewConfigMapSource (wf_cmNamespace f) (wf_cmName f)))"

lemma ready_iff_usable:
  "readyzCheck src = None \<longleftrightarrow> (\<forall>reader p e. validate (ConfigMapSource_Get src) reader (PolicyObj p) \<noteq> Some (ConfigNotUsable e))"
  by (cases "ConfigMapSource_Get src") (auto simp: readyzCheck_def validate_def Let_def)

lemma started_parts:
  assumes "webhook_main env w = Ret (code, steps, w')" and "StartedManager \<in> set steps"
    and "flagParse (me_otherFlags env) (me_args env) flagDefaults = Inr f"
  shows "ConfigSourceRunnable (wf_cmNamespace f) (wf_cmName f) \<in> running needs (wf_leaderElect f) elected steps"
    and "wf_selfSign f \<Longrightarrow> (\<exists>cfg dns. RotatorRunnable cfg dns (12 * Hour) \<in> running needs (wf_leaderElect f) elected steps) \<longleftrightarrow> elected"
    and "\<not> wf_selfSign f \<Longrightarrow> RotatorRunnable cfg dns interval \<notin> running needs (wf_leaderElect f) elected steps"
proof -
  obtain watch mid where steps: "steps = watch @ AddedRunnable (ConfigSourceRunnable (wf_cmNamespace f) (wf_cmName f)) # mid @ servingSteps"
    and mid: "rotationSteps env f mid" and w: "watch = [] \<or> (\<exists>c k. watch = [AddedRunnable (CertWatcherRunnable c k)])"
    using webhook_main_started [OF assms(1), THEN conjunct1, rule_format, OF assms(2)] assms(3) by (auto split: if_splits)
  have watch: "\<exists>c k. r = CertWatcherRunnable c k" if "AddedRunnable r \<in> set watch" for r using that w by auto
  have serving: "AddedRunnable r \<notin> set servingSteps" for r by (simp add: servingSteps_def)
  show "ConfigSourceRunnable (wf_cmNamespace f) (wf_cmName f) \<in> running needs (wf_leaderElect f) elected steps"
    using assms(2) by (simp add: running_def needLeaderElection_def ConfigMapSource_NeedLeaderElection_def) (simp add: steps)
  show "(\<exists>cfg dns. RotatorRunnable cfg dns (12 * Hour) \<in> running needs (wf_leaderElect f) elected steps) \<longleftrightarrow> elected" if "wf_selfSign f"
    using mid that watch assms(2) serving unfolding running_def needLeaderElection_def rotationSteps_def leaderOnly_def
    by (auto simp: steps) blast+
  show "RotatorRunnable cfg dns interval \<notin> running needs (wf_leaderElect f) elected steps" if "\<not> wf_selfSign f"
    using mid that watch serving by (auto simp: running_def rotationSteps_def steps)
qed

text \<open>C27: Every replica serves and only the leader rotates. Take any number of webhook processes that sign their own certificates and started their managers, at most one of them
  elected. Each runs the configuration source, elected or not, and reports ready exactly when its validator has a usable configuration, which is
  decided by the last event it observed; the rotator runs in the elected replica and in no other, so that no two replicas rotate.\<close>

theorem replicas_serve_leader_rotates:
  assumes "\<And>i. webhook_main (env i) (w i) = Ret (code i, steps i, w' i)" and "\<And>i. StartedManager \<in> set (steps i)"
    and "\<And>i. flagParse (me_otherFlags (env i)) (me_args (env i)) flagDefaults = Inr (f i)" and "\<And>i. wf_selfSign (f i)"
    and "\<And>i j. elected i \<Longrightarrow> elected j \<Longrightarrow> i = j"
  shows "(\<forall>i. ConfigSourceRunnable (wf_cmNamespace (f i)) (wf_cmName (f i)) \<in> running needs (wf_leaderElect (f i)) (elected i) (steps i)) \<and>
    (\<forall>i. (\<exists>cfg dns. RotatorRunnable cfg dns (12 * Hour) \<in> running needs (wf_leaderElect (f i)) (elected i) (steps i)) \<longleftrightarrow> elected i) \<and>
    (\<forall>i j. (\<exists>cfg dns. RotatorRunnable cfg dns (12 * Hour) \<in> running needs (wf_leaderElect (f i)) (elected i) (steps i)) \<and>
       (\<exists>cfg dns. RotatorRunnable cfg dns (12 * Hour) \<in> running needs (wf_leaderElect (f j)) (elected j) (steps j)) \<longrightarrow> i = j) \<and>
    (\<forall>i observed. readyzCheck (sourceOf lib (f i) observed) = None \<longleftrightarrow>
       (\<forall>reader p e. validate (ConfigMapSource_Get (sourceOf lib (f i) observed)) reader (PolicyObj p) \<noteq> Some (ConfigNotUsable e))) \<and>
    (\<forall>i observed cm. ConfigMapSource_Get (sourceOf lib (f i) (observed @ [CMAdd (CMObj cm)])) = ParseConfigMap lib cm)"
proof -
  note parts = started_parts [OF assms(1,2,3)]
  have rot: "(\<exists>cfg dns. RotatorRunnable cfg dns (12 * Hour) \<in> running needs (wf_leaderElect (f i)) (elected i) (steps i)) \<longleftrightarrow> elected i" for i
    using parts(2) [OF assms(4)] .
  have "ConfigMapSource_Get (sourceOf lib (f i) (observed @ [CMAdd (CMObj cm)])) = ParseConfigMap lib cm" for i observed cm
    by (simp add: sourceOf_def ConfigMapSource_Start_def cmHandler_def store_def ConfigMapSource_Get_def)
  then show ?thesis using parts(1) assms(5) ready_iff_usable unfolding rot by blast
qed

lemma demo_warm_start:
  obtains steps w' where "webhook_main (demoMain (demoArgs @ [''--leader-elect'']) None) (0, demoCluster0 0) = Ret (0, steps, w')"
    and "StartedManager \<in> set steps"
proof (rule demo_pass [of Hour "''ns1''" False 0])
  fix ca leaf
  assume pass: "ensure demoLib ''ns1'' demoRotator (demoTimes Hour) False (0, demoCluster0 0) =
       Ret (demoPublished 0, 4,
         \<lparr>dc_secret = Some (secretToWrite ''ns1'' (Some zeroSecret) ca leaf),
          dc_caBundle = (if (0::nat) = 0 then CaBundlePatch ''service-spread-policy-validator'' (ca_CertPEM ca) else ''old''),
          dc_annotations = (if (0::nat) = 0 \<and> False then Some [(''service-spread.io/cert-issued-at'', formatRFC3339 Hour)] else None),
          dc_patchFails = 0 - 1\<rparr>)"
  show thesis
    by (rule that, simp add: webhook_main_def demoMain_sel demoArgs_parse demoFlags_sel configure_def selfSign_def demo_rotatorOf EnsureBootstrap_def
        pass demoPublished_def serve_def RegisterPolicyWebhook_def) simp
qed simp

theorem replicas_serve_leader_rotates_witness:
  "\<exists>steps w'. webhook_main (demoMain (demoArgs @ [''--leader-elect'']) None) (0, demoCluster0 0) = Ret (0, steps, w') \<and>
     ConfigSourceRunnable ''ns1'' SharedConfigMapName \<in> running False True False steps \<and>
     (\<exists>cfg dns. RotatorRunnable cfg dns (12 * Hour) \<in> running False True True steps) \<and>
     \<not> (\<exists>cfg dns. RotatorRunnable cfg dns (12 * Hour) \<in> running False True False steps)"
proof (rule demo_warm_start)
  let ?env = "demoMain (demoArgs @ [''--leader-elect'']) None"
  fix steps w'
  assume run: "webhook_main ?env (0, demoCluster0 0) = Ret (0, steps, w')" and started: "StartedManager \<in> set steps"
  have flags: "flagParse (me_otherFlags ?env) (me_args ?env) flagDefaults = Inr (demoFlags True)" by (simp add: demoMain_sel demoArgs_parse)
  have cm: "wf_cmName (demoFlags True) = SharedConfigMapName" by (simp add: demoFlags_def flagDefaults_def)
  from replicas_serve_leader_rotates [of "\<lambda>i :: bool. ?env" "\<lambda>i. (0, demoCluster0 0)" "\<lambda>i. 0" "\<lambda>i. steps" "\<lambda>i. w'" "\<lambda>i. demoFlags True" "\<lambda>i. i" False]
  have "(\<forall>i. ConfigSourceRunnable (wf_cmNamespace (demoFlags True)) (wf_cmName (demoFlags True)) \<in> running False (wf_leaderElect (demoFlags True)) i steps) \<and>
      (\<forall>i. (\<exists>cfg dns. RotatorRunnable cfg dns (12 * Hour) \<in> running False (wf_leaderElect (demoFlags True)) i steps) \<longleftrightarrow> i)"
    using run started flags by (simp add: demoFlags_sel)
  then show ?thesis using run by (simp add: demoFlags_sel cm) blast
qed

end
