(* ===== verification/System.thy ===== *)
theory System
  imports Plugin
begin

section \<open>The scheduler in its cluster\<close>

text \<open>
  The shared state under concurrency. A step is one critical section of the program (each method of
  \<open>spreadState\<close> runs under its mutex, so executions interleave at this granularity) or one change of the
  cluster: a binding that the API server accepts or refuses, and the end of a pod. \<open>w_bound\<close> are the countable pods
  of the cluster with their references, \<open>w_flight\<close> the bindings on their way, \<open>w_ever\<close> every pod that was
  ever bound, by this scheduler or another; a binding may also end without an answer (\<open>abort\<close>). Pods keep their service and never run again once ended. Informer events may arrive late and
  in any order relative to PostBind and to each other's releases; the hypotheses of the steps say what is
  assumed of the environment, and the last section shows that two of them are needed.
\<close>

record world =
  w_state :: spreadState
  w_bound :: "uid \<Rightarrow> podRef option"
  w_flight :: "uid \<Rightarrow> podRef option"
  w_ever :: "uid \<Rightarrow> podRef option"

definition init_world :: "world \<Rightarrow> bool" where
  "init_world w \<longleftrightarrow> w = \<lparr>w_state = newSpreadState, w_bound = Map.empty, w_flight = Map.empty, w_ever = Map.empty\<rparr>"

text \<open>A reservation that stands for the seat of a reference.\<close>

definition reserved :: "spreadState \<Rightarrow> uid \<Rightarrow> podRef \<Rightarrow> bool" where
  "reserved s u ref \<longleftrightarrow> (\<exists>r. mget (st_resv s) u = Some r \<and> rsv_NodeName r = NodeNameOf ref \<and> rsv_QuotaKey r = QuotaKeyOf ref)"

inductive step :: "(string \<Rightarrow> int) \<Rightarrow> world \<Rightarrow> world \<Rightarrow> bool" for cap :: "string \<Rightarrow> int" where
  reserve: "Reserve lib pl cs p n now (w_state w) = Ret (st, s') \<Longrightarrow> st_Code st = Success \<Longrightarrow>
    getPreFilterState cs = Inr pf \<Longrightarrow> pf_policy pf = Some pol \<Longrightarrow>
    sint (pol_MaxPodsPerNode (pol_Spec pol)) \<le> cap (pf_quotaKey pf) \<Longrightarrow>
    w_flight w (pod_UID p) = None \<Longrightarrow> w_ever w (pod_UID p) = None \<Longrightarrow> state_small s' \<Longrightarrow>
    step cap w (w\<lparr>w_state := s', w_flight := (w_flight w)(pod_UID p \<mapsto> reserveRef pf n)\<rparr>)"
| bind: "w_flight w u = Some ref \<Longrightarrow>
    step cap w (w\<lparr>w_bound := (w_bound w)(u \<mapsto> ref), w_ever := (w_ever w)(u \<mapsto> ref), w_flight := (w_flight w)(u := None)\<rparr>)"
| foreign: "w_ever w u = None \<Longrightarrow> w_flight w u = None \<Longrightarrow> step cap w (w\<lparr>w_ever := (w_ever w)(u \<mapsto> ref)\<rparr>)"
| abort: "step cap w (w\<lparr>w_flight := (w_flight w)(u := None)\<rparr>)"
| bindFail: "w_bound w (pod_UID p) = None \<Longrightarrow>
    step cap w (w\<lparr>w_state := PluginUnreserve p (w_state w), w_flight := (w_flight w)(pod_UID p := None)\<rparr>)"
| postBind: "step cap w (w\<lparr>w_state := PostBind p (w_state w)\<rparr>)"
| observe: "w_ever w u = Some ref \<Longrightarrow> s' = upsertCount u ref (w_state w) \<Longrightarrow> state_small s' \<Longrightarrow>
    step cap w (w\<lparr>w_state := s'\<rparr>)"
| release: "step cap w (w\<lparr>w_state := releaseIfObserved u (w_state w)\<rparr>)"
| finish: "step cap w (w\<lparr>w_bound := (w_bound w)(u := None)\<rparr>)"
| forget: "w_bound w u = None \<Longrightarrow> step cap w (w\<lparr>w_state := removeCount u (w_state w)\<rparr>)"
| drop: "w_bound w u = None \<Longrightarrow> w_flight w u = None \<Longrightarrow>
    step cap w (w\<lparr>w_state := releaseUnverified u node (w_state w)\<rparr>)"
| reconcile: "wf_gomap counts \<Longrightarrow> (\<And>u ref. w_bound w u = Some ref \<Longrightarrow> mget counts u = Some ref \<or> reserved (w_state w) u ref) \<Longrightarrow>
    (\<And>u ref. mget counts u = Some ref \<Longrightarrow> w_ever w u = Some ref) \<Longrightarrow>
    s' = rebuild counts (w_state w) \<Longrightarrow> length counts + length (st_resv (w_state w)) < 2 ^ 31 - 1 \<Longrightarrow>
    step cap w (w\<lparr>w_state := s'\<rparr>)"

inductive_cases stepE: "step cap w w'"

subsection \<open>The invariant\<close>

text \<open>The pods that hold or will hold a seat, and the ones the scheduler's state accounts for.\<close>

definition seats :: "world \<Rightarrow> string \<Rightarrow> string \<Rightarrow> uid set" where
  "seats w n q = {u. \<exists>ref. (w_bound w u = Some ref \<or> w_flight w u = Some ref) \<and> quotaAt n q ref}"

definition accounted :: "spreadState \<Rightarrow> uid \<Rightarrow> podRef \<Rightarrow> bool" where
  "accounted s u ref \<longleftrightarrow> mget (snap_pods (st_snap s)) u = Some ref \<or> reserved s u ref"

definition world_inv :: "(string \<Rightarrow> int) \<Rightarrow> world \<Rightarrow> bool" where
  "world_inv cap w \<longleftrightarrow>
     state_ok (w_state w) \<and> state_small (w_state w) \<and>
     (\<forall>u ref. w_bound w u = Some ref \<longrightarrow> w_ever w u = Some ref) \<and>
     (\<forall>u ref. w_flight w u = Some ref \<longrightarrow> w_ever w u = None) \<and>
     (\<forall>u ref. mget (snap_pods (st_snap (w_state w))) u = Some ref \<longrightarrow> w_ever w u = Some ref) \<and>
     (\<forall>u ref. w_bound w u = Some ref \<or> w_flight w u = Some ref \<longrightarrow> accounted (w_state w) u ref) \<and>
     (\<forall>n q. seats w n q \<noteq> {} \<longrightarrow> int (card (seats w n q)) \<le> cap q)"

lemma world_invD:
  assumes "world_inv cap w"
  shows "state_ok (w_state w)" "state_small (w_state w)"
    "w_bound w u = Some ref \<Longrightarrow> w_ever w u = Some ref"
    "w_flight w u = Some ref \<Longrightarrow> w_ever w u = None"
    "mget (snap_pods (st_snap (w_state w))) u = Some ref \<Longrightarrow> w_ever w u = Some ref"
    "w_bound w u = Some ref \<or> w_flight w u = Some ref \<Longrightarrow> accounted (w_state w) u ref"
    "seats w n q \<noteq> {} \<Longrightarrow> int (card (seats w n q)) \<le> cap q"
  using assms unfolding world_inv_def by blast+

lemma seats_occupants:
  assumes "\<And>u ref. w_bound w u = Some ref \<or> w_flight w u = Some ref \<Longrightarrow> accounted (w_state w) u ref"
  shows "seats w n q \<subseteq> occupants (w_state w) n q"
  using assms by (fastforce simp: seats_def occupants_def accounted_def reserved_def)

lemma seats_mono:
  assumes "\<And>u ref. w_bound w' u = Some ref \<or> w_flight w' u = Some ref \<Longrightarrow> w_bound w u = Some ref \<or> w_flight w u = Some ref"
  shows "seats w' n q \<subseteq> seats w n q"
  using assms by (auto simp: seats_def)

lemma cap_mono:
  assumes "world_inv cap w" and "seats w' n q \<subseteq> seats w n q" and "seats w' n q \<noteq> {}"
  shows "int (card (seats w' n q)) \<le> cap q"
proof -
  have "finite (seats w n q)"
    using finite_subset [OF seats_occupants] world_invD(6) [OF assms(1)] finite_occupants by blast
  then have "card (seats w' n q) \<le> card (seats w n q)" using assms(2) by (rule card_mono)
  moreover have "int (card (seats w n q)) \<le> cap q" using world_invD(7) [OF assms(1)] assms(2,3) by blast
  ultimately show ?thesis by simp
qed

text \<open>A step that only changes the scheduler's state.\<close>

lemma world_inv_state:
  assumes "world_inv cap w" and "state_ok s'" and "state_small s'"
    and "\<And>u ref. mget (snap_pods (st_snap s')) u = Some ref \<Longrightarrow> w_ever w u = Some ref"
    and "\<And>u ref. w_bound w u = Some ref \<or> w_flight w u = Some ref \<Longrightarrow> accounted s' u ref"
  shows "world_inv cap (w\<lparr>w_state := s'\<rparr>)"
  using assms world_invD [OF assms(1)] by (simp add: world_inv_def seats_def)

subsection \<open>Every step keeps the invariant\<close>

lemma length_mput_present: "mget m k \<noteq> None \<Longrightarrow> length (mput m k v) = length m"
  by (induction m k v rule: mput.induct) auto

lemma small_methods:
  assumes "state_ok s" and "state_small s"
  shows "state_small (Unreserve u s)" "state_small (MarkBound u s)" "state_small (releaseIfObserved u s)"
    "state_small (removeCount u s)" "state_small (releaseUnverified u node s)"
  using assms length_mdel [of "st_resv s" u] length_mdel [of "snap_pods (st_snap s)" u]
    length_mput_present [of "st_resv s" u]
  by (auto simp: state_small_def Unreserve_def MarkBound_def releaseIfObserved_def removeCount_def releaseUnverified_def
      state_ok_def snapshot_clone_id pods_unapply split: option.splits)

lemma resv_releaseUnverified: "mget (st_resv (releaseUnverified u node s)) = (mget (st_resv s))(u := None)"
  by (auto simp: releaseUnverified_def fun_eq_iff split: option.splits)

lemma ok_releaseUnverified: "state_ok s \<Longrightarrow> state_ok (releaseUnverified u node s)"
  by (simp add: releaseUnverified_def state_ok_def split: option.splits)

lemma snap_releaseUnverified [simp]: "st_snap (releaseUnverified u node s) = st_snap s"
  by (simp add: releaseUnverified_def split: option.splits)

lemma accounted_MarkBound: "accounted s v ref \<Longrightarrow> accounted (MarkBound u s) v ref"
  by (cases "mget (st_resv s) v"; cases "v = u") (auto simp: accounted_def reserved_def resv_MarkBound)

lemma accounted_other:
  assumes "accounted s v ref" and "v \<noteq> u"
  shows "accounted (Unreserve u s) v ref" "accounted (releaseUnverified u node s) v ref"
    and "state_ok s \<Longrightarrow> accounted (removeCount u s) v ref"
  using assms by (auto simp: accounted_def reserved_def resv_Unreserve resv_releaseUnverified pods_remove split: option.splits)

lemma step_bind:
  assumes "world_inv cap w" and "w_flight w u = Some ref"
  shows "world_inv cap (w\<lparr>w_bound := (w_bound w)(u \<mapsto> ref), w_ever := (w_ever w)(u \<mapsto> ref), w_flight := (w_flight w)(u := None)\<rparr>)"
    (is "world_inv cap ?w'")
proof -
  note inv = world_invD [OF assms(1)]
  have sub: "seats ?w' n q \<subseteq> seats w n q" for n q
    using assms(2) by (intro seats_mono) (auto split: if_splits)
  have "mget (snap_pods (st_snap (w_state w))) u = None"
    using inv(4) [OF assms(2)] inv(5) [of u] by (cases "mget (snap_pods (st_snap (w_state w))) u") auto
  then show ?thesis
    unfolding world_inv_def using inv(1-6) assms(2) cap_mono [OF assms(1) sub]
    by (simp add: fun_upd_def) metis
qed

lemma step_bindFail:
  assumes "world_inv cap w" and free: "w_bound w (pod_UID p) = None"
  shows "world_inv cap (w\<lparr>w_state := PluginUnreserve p (w_state w), w_flight := (w_flight w)(pod_UID p := None)\<rparr>)"
    (is "world_inv cap ?w'")
proof -
  note inv = world_invD [OF assms(1)]
  have sub: "seats ?w' n q \<subseteq> seats w n q" for n q by (intro seats_mono) (auto split: if_splits)

  have acc: "accounted (PluginUnreserve p (w_state w)) v r"
    if "w_bound w v = Some r \<or> ((w_flight w)(pod_UID p := None)) v = Some r" for v r
  proof -
    have "v \<noteq> pod_UID p" using that free by auto
    moreover have "accounted (w_state w) v r" using that inv(6) by (auto split: if_splits)
    ultimately show ?thesis by (simp add: PluginUnreserve_def accounted_other(1))
  qed
  have "state_ok (PluginUnreserve p (w_state w))" "state_small (PluginUnreserve p (w_state w))"
    using state_ok_methods(4) [OF inv(1,2)] small_methods(1) [OF inv(1,2)] by (simp_all add: PluginUnreserve_def)
  moreover have "st_snap (PluginUnreserve p (w_state w)) = st_snap (w_state w)" by (simp add: PluginUnreserve_def)
  ultimately show ?thesis
    unfolding world_inv_def using inv(3-5) acc cap_mono [OF assms(1) sub] by simp blast
qed

lemma step_reserve:
  assumes "world_inv cap w" and "Reserve lib pl cs p n now (w_state w) = Ret (st, s')" and "st_Code st = Success"
    and "getPreFilterState cs = Inr pf" and "pf_policy pf = Some pol"
    and "sint (pol_MaxPodsPerNode (pol_Spec pol)) \<le> cap (pf_quotaKey pf)"
    and "w_flight w (pod_UID p) = None" and "w_ever w (pod_UID p) = None" and "state_small s'"
  shows "world_inv cap (w\<lparr>w_state := s', w_flight := (w_flight w)(pod_UID p \<mapsto> reserveRef pf n)\<rparr>)"
    (is "world_inv cap ?w'")
proof -
  note inv = world_invD [OF assms(1)]
  let ?u = "pod_UID p" and ?ref = "reserveRef pf n"
  obtain fresh: "mget (st_resv (w_state w)) ?u = None"
    and s': "s' = w_state w\<lparr>st_resv := mput (st_resv (w_state w)) ?u (newReservation ?u ?ref now)\<rparr>"
    using Reserve_Success [OF inv(1,2) assms(2,3)] assms(4) by auto
  have snap: "st_snap s' = st_snap (w_state w)" by (simp add: s')
  have ok: "state_ok s'" using inv(1) by (simp add: s' state_ok_def)
  have acc: "accounted s' v r" if "w_bound w v = Some r \<or> ((w_flight w)(?u \<mapsto> ?ref)) v = Some r" for v r
  proof (cases "v = ?u")
    case True
    then have "r = ?ref" using that inv(3) [of ?u r] assms(8) by auto
    then show ?thesis using True by (simp add: accounted_def reserved_def s' newReservation_def)
  next
    case False
    then have "accounted (w_state w) v r" using that inv(6) by simp
    then show ?thesis using False by (simp add: accounted_def reserved_def s')
  qed
  have cap': "int (card (seats ?w' m q)) \<le> cap q" if ne: "seats ?w' m q \<noteq> {}" for m q
  proof (cases "m = n \<and> q = pf_quotaKey pf")
    case True
    have "seats ?w' m q \<subseteq> occupants s' m q" using seats_occupants [of ?w' m q] acc by simp
    then have "card (seats ?w' m q) \<le> card (occupants s' m q)" by (intro card_mono) simp_all
    moreover have "int (card (occupants s' n (pf_quotaKey pf))) \<le> sint (pol_MaxPodsPerNode (pol_Spec pol))"
      by (rule Reserve_limits(2) [OF inv(1,2) assms(2-5)])
    ultimately show ?thesis using True assms(6) by simp
  next
    case False
    then have "seats ?w' m q \<subseteq> seats w m q" by (auto simp: seats_def reserveRef_def split: if_splits)
    then show ?thesis using cap_mono [OF assms(1)] ne by blast
  qed
  show ?thesis
    unfolding world_inv_def using ok assms(8,9) inv(3-5) acc cap' by (simp add: snap) metis
qed

lemma step_observe:
  assumes "world_inv cap w" and "w_ever w u = Some ref" and "state_small (upsertCount u ref (w_state w))"
  shows "world_inv cap (w\<lparr>w_state := upsertCount u ref (w_state w)\<rparr>)"
proof (rule world_inv_state [OF assms(1)])
  note inv = world_invD [OF assms(1)]
  note pods = pods_upsert [OF inv(1)]
  show "state_ok (upsertCount u ref (w_state w))" by (rule state_ok_methods(1) [OF inv(1,2)])
  show "state_small (upsertCount u ref (w_state w))" by (rule assms(3))
  show "w_ever w v = Some r" if "mget (snap_pods (st_snap (upsertCount u ref (w_state w)))) v = Some r" for v r
    using that inv(5) [of v r] assms(2) by (simp add: pods split: if_splits)
  show "accounted (upsertCount u ref (w_state w)) v r" if seat: "w_bound w v = Some r \<or> w_flight w v = Some r" for v r
  proof (cases "v = u")
    case True
    then have "r = ref" using seat inv(3) [of u r] inv(4) [of u r] assms(2) by auto
    then show ?thesis using True by (simp add: accounted_def reserved_def pods)
  next
    case False
    then show ?thesis using inv(6) [OF seat] by (simp add: accounted_def reserved_def pods)
  qed
qed

lemma step_release:
  assumes "world_inv cap w"
  shows "world_inv cap (w\<lparr>w_state := releaseIfObserved u (w_state w)\<rparr>)"
proof (rule world_inv_state [OF assms])
  note inv = world_invD [OF assms]
  show "state_ok (releaseIfObserved u (w_state w))" by (rule state_ok_methods(6) [OF inv(1,2)])
  show "state_small (releaseIfObserved u (w_state w))" by (rule small_methods(3) [OF inv(1,2)])
  show "w_ever w v = Some r" if "mget (snap_pods (st_snap (releaseIfObserved u (w_state w)))) v = Some r" for v r
    using that inv(5) by simp
  show "accounted (releaseIfObserved u (w_state w)) v r" if seat: "w_bound w v = Some r \<or> w_flight w v = Some r" for v r
  proof (cases "mget (snap_pods (st_snap (w_state w))) v")
    case None
    then show ?thesis using inv(6) [OF seat] by (auto simp: accounted_def reserved_def resv_release)
  next
    case (Some r')
    then have "r' = r" using inv(5) [OF Some] seat inv(3) [of v r] inv(4) [of v r] by auto
    then show ?thesis using Some by (simp add: accounted_def reserved_def)
  qed
qed

lemma step_forget:
  assumes "world_inv cap w" and "w_bound w u = None"
  shows "world_inv cap (w\<lparr>w_state := removeCount u (w_state w)\<rparr>)"
proof (rule world_inv_state [OF assms(1)])
  note inv = world_invD [OF assms(1)]
  note pods = pods_remove [OF inv(1)]
  show "state_ok (removeCount u (w_state w))" by (rule state_ok_methods(2) [OF inv(1,2)])
  show "state_small (removeCount u (w_state w))" by (rule small_methods(4) [OF inv(1,2)])
  show "w_ever w v = Some r" if "mget (snap_pods (st_snap (removeCount u (w_state w)))) v = Some r" for v r
    using that inv(5) [of v r] by (simp add: pods split: if_splits)
  show "accounted (removeCount u (w_state w)) v r" if seat: "w_bound w v = Some r \<or> w_flight w v = Some r" for v r
  proof (cases "v = u")
    case True
    then have "w_ever w u = None" using seat assms(2) inv(4) by auto
    then have "mget (snap_pods (st_snap (w_state w))) u = None"
      using inv(5) [of u] by (cases "mget (snap_pods (st_snap (w_state w))) u") auto
    then show ?thesis using True inv(6) [OF seat] by (simp add: accounted_def reserved_def)
  next
    case False
    then show ?thesis by (rule accounted_other(3) [OF inv(6) [OF seat] _ inv(1)])
  qed
qed

lemma step_drop:
  assumes "world_inv cap w" and "w_bound w u = None" and "w_flight w u = None"
  shows "world_inv cap (w\<lparr>w_state := releaseUnverified u node (w_state w)\<rparr>)"
proof (rule world_inv_state [OF assms(1)])
  note inv = world_invD [OF assms(1)]
  show "state_ok (releaseUnverified u node (w_state w))" by (rule ok_releaseUnverified [OF inv(1)])
  show "state_small (releaseUnverified u node (w_state w))" by (rule small_methods(5) [OF inv(1,2)])
  show "w_ever w v = Some r" if "mget (snap_pods (st_snap (releaseUnverified u node (w_state w)))) v = Some r" for v r
    using that inv(5) by simp
  show "accounted (releaseUnverified u node (w_state w)) v r" if seat: "w_bound w v = Some r \<or> w_flight w v = Some r" for v r
    using seat assms(2,3) by (intro accounted_other(2) inv(6)) auto
qed

lemma step_postBind:
  assumes "world_inv cap w"
  shows "world_inv cap (w\<lparr>w_state := PostBind p (w_state w)\<rparr>)"
  using assms world_invD [OF assms] unfolding PostBind_def
  by (intro world_inv_state) (auto simp: state_ok_methods(5) small_methods(2) intro: accounted_MarkBound)

lemma step_reconcile:
  assumes "world_inv cap w" and "wf_gomap counts"
    and "\<And>u ref. w_bound w u = Some ref \<Longrightarrow> mget counts u = Some ref \<or> reserved (w_state w) u ref"
    and "\<And>u ref. mget counts u = Some ref \<Longrightarrow> w_ever w u = Some ref"
    and "length counts + length (st_resv (w_state w)) < 2 ^ 31 - 1"
  shows "world_inv cap (w\<lparr>w_state := rebuild counts (w_state w)\<rparr>)"
proof (rule world_inv_state [OF assms(1)])
  note inv = world_invD [OF assms(1)]
  note pods = pods_rebuild [OF assms(2)]
  show "state_ok (rebuild counts (w_state w))" using assms(5) by (intro state_ok_methods(3) [OF inv(1,2)]) simp
  show "state_small (rebuild counts (w_state w))"
    using assms(5) length_rebuild_pods [of counts] by (simp add: state_small_def rebuild_def)
  show "w_ever w v = Some r" if "mget (snap_pods (st_snap (rebuild counts (w_state w)))) v = Some r" for v r
    using that assms(4) by (simp add: pods)
  show "accounted (rebuild counts (w_state w)) v r" if seat: "w_bound w v = Some r \<or> w_flight w v = Some r" for v r
  proof (cases "w_bound w v = Some r")
    case True
    then show ?thesis using assms(3) [of v r] by (auto simp: accounted_def reserved_def pods)
  next
    case False
    then have "w_ever w v = None" using seat inv(4) by auto
    then have "mget (snap_pods (st_snap (w_state w))) v = None"
      using inv(5) [of v] by (cases "mget (snap_pods (st_snap (w_state w))) v") auto
    then show ?thesis using inv(6) [OF seat] by (simp add: accounted_def reserved_def)
  qed
qed

lemma step_foreign:
  assumes "world_inv cap w" and "w_ever w u = None" and "w_flight w u = None"
  shows "world_inv cap (w\<lparr>w_ever := (w_ever w)(u \<mapsto> ref)\<rparr>)"
proof -
  note inv = world_invD [OF assms(1)]
  have "w_bound w u = None" "mget (snap_pods (st_snap (w_state w))) u = None"
    using inv(3,5) [of u] assms(2) by fastforce+
  then show ?thesis
    using inv assms(3) unfolding world_inv_def seats_def by simp metis
qed

lemma step_abort:
  assumes "world_inv cap w"
  shows "world_inv cap (w\<lparr>w_flight := (w_flight w)(u := None)\<rparr>)" (is "world_inv cap ?w'")
proof -
  have sub: "seats ?w' n q \<subseteq> seats w n q" for n q by (intro seats_mono) (auto split: if_splits)
  show ?thesis
    unfolding world_inv_def using world_invD(1-6) [OF assms] cap_mono [OF assms sub] by simp blast
qed

lemma step_finish:
  assumes "world_inv cap w"
  shows "world_inv cap (w\<lparr>w_bound := (w_bound w)(u := None)\<rparr>)" (is "world_inv cap ?w'")
proof -
  have sub: "seats ?w' n q \<subseteq> seats w n q" for n q by (intro seats_mono) (auto split: if_splits)
  show ?thesis
    unfolding world_inv_def using world_invD(1-6) [OF assms] cap_mono [OF assms sub] by simp
qed

lemma step_world_inv: "step cap w w' \<Longrightarrow> world_inv cap w \<Longrightarrow> world_inv cap w'"
proof (induction rule: step.induct)
  case (reserve lib pl cs p n now w st s' pf pol)
  from reserve(9,1-8) show ?case by (rule step_reserve)
qed (simp_all add: step_bind step_foreign step_abort step_bindFail step_postBind step_observe step_release step_finish step_forget step_drop step_reconcile)

lemma init_world_inv: "init_world w \<Longrightarrow> world_inv cap w"
  by (simp add: init_world_def world_inv_def new_state_ok seats_def)
    (simp add: newSpreadState_def emptySnapshot_def)

interpretation cluster: invariant_system init_world "step cap" "world_inv cap" for cap
  by unfold_locales (rule init_world_inv, assumption, rule step_world_inv)


definition world0 :: world where
  "world0 = \<lparr>w_state = newSpreadState, w_bound = Map.empty, w_flight = Map.empty, w_ever = Map.empty\<rparr>"

lemma example_run:
  "\<exists>w. (step (\<lambda>q. 2))\<^sup>*\<^sup>* world0 w \<and> w_bound w (pod_UID example_pod) = Some (reserveRef examplePreFilter ''n1'')"
proof -
  let ?cs = "[(preFilterStateKey, PreFilterData (Some examplePreFilter))]"
  let ?ref = "reserveRef examplePreFilter ''n1''" and ?u = "pod_UID example_pod"
  let ?s = "newSpreadState\<lparr>st_resv := [(?u, newReservation ?u (reserveRef examplePreFilter ''n1'') 0)]\<rparr>"
  let ?w1 = "world0\<lparr>w_state := ?s, w_flight := (w_flight world0)(?u \<mapsto> ?ref)\<rparr>"
  have pol: "pf_policy examplePreFilter = Some examplePolicy" by (simp add: examplePreFilter_def)
  have run: "Reserve example_lib examplePlugin ?cs example_pod ''n1'' 0 (w_state world0) = Ret (NewStatus Success [], ?s)"
    using Reserve_cases [OF new_state_ok example_getPreFilterState pol, of example_lib examplePlugin example_pod "''n1''" 0]
      example_fits [of "pf_schedKey examplePreFilter" "pf_quotaKey examplePreFilter"]
    by (simp add: example_domain Let_def newSpreadState_def world0_def)
  have "step (\<lambda>q. 2) world0 ?w1"
    by (rule reserve [OF run _ example_getPreFilterState pol])
      (simp_all add: NewStatus_def examplePolicy_def world0_def state_small_def newSpreadState_def emptySnapshot_def)
  moreover have "step (\<lambda>q. 2) ?w1 (?w1\<lparr>w_bound := (w_bound ?w1)(?u \<mapsto> ?ref), w_ever := (w_ever ?w1)(?u \<mapsto> ?ref),
      w_flight := (w_flight ?w1)(?u := None)\<rparr>)"
    by (rule bind) simp
  ultimately have "(step (\<lambda>q. 2))\<^sup>*\<^sup>* world0 (?w1\<lparr>w_bound := (w_bound ?w1)(?u \<mapsto> ?ref), w_ever := (w_ever ?w1)(?u \<mapsto> ?ref),
      w_flight := (w_flight ?w1)(?u := None)\<rparr>)"
    by (meson r_into_rtranclp rtranclp.rtrancl_into_rtrancl)
  then show ?thesis by (intro exI conjI) (assumption, simp)
qed


subsection \<open>Why the hypotheses are needed\<close>

text \<open>The janitor can release a seat that is being taken. When a binding takes longer than the TTL, its pod is not yet
  bound in the listing, so a pass of the janitor drops the reservation although the comment says that the
  seat is definitely free; then the next pod gets the seat, and both bindings are in flight on a node
  with room for one.\<close>

theorem janitor_releases_binding_in_flight:
  "\<exists>s1 s2 s3. TryReserve ''u1'' (exampleRef ''n1'') (\<lambda>domainN quotaN. sint quotaN < 1) 0 newSpreadState = Ret (True, s1) \<and>
     janitorOnce DefaultReservationTTL (Inr []) (6 * Minute) s1 = ([], s2) \<and>
     TryReserve ''u2'' (exampleRef ''n1'') (\<lambda>domainN quotaN. sint quotaN < 1) (6 * Minute) s2 = Ret (True, s3)"
  by (simp add: TryReserve_def TryReserveChecked_def guard_EffCount_def guardOf_def snapshot_count_def newSpreadState_def
      emptySnapshot_def exampleRef_def janitorOnce_def expiredReservations_def timeSub_def duration_defs
      janitorStep_def releaseUnverified_def)

text \<open>A rebuild from an old listing forgets pods. A listing taken before a pod is bound, used after its binding was
  observed and its reservation released, removes the pod from the counts, and its seat is given away: the
  periodic reconciler and the janitor read the listing outside the mutex.\<close>

theorem stale_rebuild_forgets_bound_pod:
  "\<exists>listing s1 s2 s3. ListCountable ''s'' ''app'' (Inr []) = Inr listing \<and>
     TryReserve ''u1'' (exampleRef ''n1'') (\<lambda>domainN quotaN. sint quotaN < 1) 0 newSpreadState = Ret (True, s1) \<and>
     s2 = rebuild listing (releaseIfObserved ''u1'' (upsertCount ''u1'' (exampleRef ''n1'') s1)) \<and>
     TryReserve ''u2'' (exampleRef ''n1'') (\<lambda>domainN quotaN. sint quotaN < 1) 1 s2 = Ret (True, s3)"
proof -
  have reserve: "TryReserve u ref (\<lambda>domainN quotaN. sint quotaN < 1) now newSpreadState =
      Ret (True, newSpreadState\<lparr>st_resv := [(u, newReservation u ref now)]\<rparr>)" for u ref now
    by (simp add: TryReserve_def TryReserveChecked_def guard_EffCount_def guardOf_def snapshot_count_def newSpreadState_def
        emptySnapshot_def newReservation_def)
  have "rebuild [] observedState = newSpreadState"
    using observed_state(2) by (cases observedState) (simp add: rebuild_def rebuildSnapshot_def newSpreadState_def)
  then have again: "TryReserve ''u2'' (exampleRef ''n1'') (\<lambda>domainN quotaN. sint quotaN < 1) 1 (rebuild [] observedState) =
      Ret (True, newSpreadState\<lparr>st_resv := [(''u2'', newReservation ''u2'' (exampleRef ''n1'') 1)]\<rparr>)"
    using reserve by simp
  have "ListCountable ''s'' ''app'' (Inr []) = Inr []" by (simp add: ListCountable_def)
  with again reserve [of "''u1''" "exampleRef ''n1''" 0] show ?thesis
    unfolding observedState_def reservedState_def by blast
qed

end
