(* ===== verification/Informer.thy ===== *)
theory Informer
  imports System Seats
begin

section \<open>The scheduler behind a lagging informer\<close>

text \<open>
  \<open>System\<close> lets pod events arrive at any time, with hypotheses on what they say. This theory adds what lies between the API
  server and the handlers of \<open>internal/spread/plugins_api.go\<close>: the watch, the informer's cache, which the lister reads, and the queue of
  the event handlers. All three lag behind, watches miss intermediate versions, resyncs repeat old ones, and deletions may
  arrive as \<open>DeletedFinalStateUnknown\<close>. The handlers are \<^const>\<open>podHandler\<close> itself, the listing is \<^const>\<open>ListCountable\<close> of the cache. The
  detailed system simulates \<open>System\<close> (interpretation \<open>lagging\<close>), so that its hypotheses on events are discharged.
\<close>

subsection \<open>Pods as the API server and the informer see them\<close>

datatype life = Unborn | Live pod | Dead

definition isBound :: "pod \<Rightarrow> bool" where
  "isBound p \<longleftrightarrow> ps_NodeName (pod_Spec p) \<noteq> ''''"

definition bindTo :: "string \<Rightarrow> pod \<Rightarrow> pod" where
  "bindTo n p = p\<lparr>pod_Spec := (pod_Spec p)\<lparr>ps_NodeName := n\<rparr>\<rparr>"

text \<open>A pod only moves forward: not bound, bound and countable, ended, deleted.\<close>

definition stage :: "life \<Rightarrow> nat" where
  "stage l = (case l of Unborn \<Rightarrow> 0 | Live p \<Rightarrow> if \<not> isBound p then 0 else if countablePod p then 1 else 2 | Dead \<Rightarrow> 3)"

text \<open>\<open>inf_pods\<close> is the API server, \<open>inf_watch\<close> the changes that the informer has not seen, \<open>inf_cache\<close> its cache and
  \<open>inf_queue\<close> the notifications that the handler has not seen, oldest first.\<close>

record informed =
  inf_state :: spreadState
  inf_pods :: "uid \<Rightarrow> life"
  inf_flight :: "uid \<Rightarrow> podRef option"
  inf_ever :: "uid \<Rightarrow> podRef option"
  inf_watch :: "(uid \<times> life) list"
  inf_cache :: "uid \<Rightarrow> life"
  inf_queue :: "(uid \<times> life) list"

definition informed0 :: informed where
  "informed0 = \<lparr>inf_state = newSpreadState, inf_pods = (\<lambda>u. Unborn), inf_flight = Map.empty, inf_ever = Map.empty,
     inf_watch = [], inf_cache = (\<lambda>u. Unborn), inf_queue = []\<rparr>"

definition modified :: "uid \<Rightarrow> life \<Rightarrow> informed \<Rightarrow> informed" where
  "modified u l i = i\<lparr>inf_pods := (inf_pods i)(u := l), inf_watch := inf_watch i @ [(u, l)]\<rparr>"

abbreviation counted :: "ServiceSpreadArgs \<Rightarrow> pod \<Rightarrow> podRef option" where
  "counted args p \<equiv> countedRef (ManagedSchedulerName args) (ServiceLabelKey args) p"

text \<open>The notifications that tell of a version: an Add, or an Update from any older object; for a deletion the object or its last known
  state.\<close>

definition delivers :: "podInformerEvent \<Rightarrow> uid \<Rightarrow> life \<Rightarrow> bool" where
  "delivers ev u l =
     (case l of
        Live p \<Rightarrow> ev = AddFunc (PodObj p) \<or> (\<exists>old. ev = UpdateFunc old (PodObj p))
      | Dead \<Rightarrow> (\<exists>p. pod_UID p = u \<and> (ev = DeleteFunc (PodObj p) \<or> ev = DeleteFunc (DeletedFinalStateUnknown (PodObj p))))
      | Unborn \<Rightarrow> False)"

definition lists :: "pod list \<Rightarrow> (uid \<Rightarrow> life) \<Rightarrow> bool" where
  "lists ps cache \<longleftrightarrow> distinct (map pod_UID ps) \<and> (\<forall>p. p \<in> set ps \<longleftrightarrow> cache (pod_UID p) = Live p)"

text \<open>One step of the API server, the informer or the scheduler. Of the cluster it is assumed that a pod of a service is bound only through
  the scheduler's own reservation, and keeps its service once it is bound. Of the program it is assumed that the
  listing is taken and applied in one step while no notification is pending, and that the janitor drops
  no reservation of a binding in flight.\<close>

inductive istep :: "ServiceSpreadArgs \<Rightarrow> (string \<Rightarrow> int) \<Rightarrow> informed \<Rightarrow> informed \<Rightarrow> bool"
  for args :: ServiceSpreadArgs and cap :: "string \<Rightarrow> int" where
  create: "inf_pods i (pod_UID p) = Unborn \<Longrightarrow> \<not> isBound p \<Longrightarrow> istep args cap i (modified (pod_UID p) (Live p) i)"
| reserve: "Reserve lib pl cs p n now (inf_state i) = Ret (st, s') \<Longrightarrow> st_Code st = Success \<Longrightarrow>
    getPreFilterState cs = Inr pf \<Longrightarrow> pf_policy pf = Some pol \<Longrightarrow>
    sint (pol_MaxPodsPerNode (pol_Spec pol)) \<le> cap (pf_quotaKey pf) \<Longrightarrow>
    inf_flight i (pod_UID p) = None \<Longrightarrow> inf_ever i (pod_UID p) = None \<Longrightarrow> inf_pods i (pod_UID p) \<noteq> Unborn \<Longrightarrow> state_small s' \<Longrightarrow>
    istep args cap i (i\<lparr>inf_state := s', inf_flight := (inf_flight i)(pod_UID p \<mapsto> reserveRef pf n)\<rparr>)"
| bind: "inf_pods i u = Live p \<Longrightarrow> inf_flight i u = Some ref \<Longrightarrow> counted args (bindTo (NodeNameOf ref) p) = Some ref \<Longrightarrow>
    istep args cap i ((modified u (Live (bindTo (NodeNameOf ref) p)) i)
      \<lparr>inf_flight := (inf_flight i)(u := None), inf_ever := (inf_ever i)(u \<mapsto> ref)\<rparr>)"
| bindForeign: "inf_pods i u = Live p \<Longrightarrow> inf_flight i u = None \<Longrightarrow> inf_ever i u = None \<Longrightarrow> n \<noteq> '''' \<Longrightarrow> countablePod (bindTo n p) \<Longrightarrow>
    counted args (bindTo n p) = None \<Longrightarrow>
    istep args cap i ((modified u (Live (bindTo n p)) i)\<lparr>inf_ever := (inf_ever i)(u \<mapsto> emptyRef)\<rparr>)"
| bindFail: "inf_flight i (pod_UID p) = Some ref \<Longrightarrow>
    istep args cap i (i\<lparr>inf_state := PluginUnreserve p (inf_state i), inf_flight := (inf_flight i)(pod_UID p := None)\<rparr>)"
| change: "inf_pods i (pod_UID p') = Live p \<Longrightarrow> stage (Live p) \<le> stage (Live p') \<Longrightarrow> isBound p' = isBound p \<Longrightarrow>
    (countablePod p' \<Longrightarrow> counted args p' = counted args p) \<Longrightarrow> istep args cap i (modified (pod_UID p') (Live p') i)"
| delete: "inf_pods i u = Live p \<Longrightarrow> istep args cap i (modified u Dead i)"
| sync: "inf_watch i = (u, l) # ws \<Longrightarrow>
    istep args cap i (i\<lparr>inf_watch := ws, inf_cache := (inf_cache i)(u := l), inf_queue := inf_queue i @ [(u, l)]\<rparr>)"
| missed: "inf_watch i = xs @ (u, l) # ys \<Longrightarrow> u \<in> fst ` set ys \<Longrightarrow> istep args cap i (i\<lparr>inf_watch := xs @ ys\<rparr>)"
| resync: "inf_cache i u = Live p \<Longrightarrow> istep args cap i (i\<lparr>inf_queue := inf_queue i @ [(u, Live p)]\<rparr>)"
| deliver: "inf_queue i = (u, l) # qs \<Longrightarrow> delivers ev u l \<Longrightarrow> stateSize (inf_state i) < 2 ^ 31 - 2 \<Longrightarrow>
    istep args cap i (i\<lparr>inf_queue := qs, inf_state := podHandler args ev (inf_state i)\<rparr>)"
| postBind: "istep args cap i (i\<lparr>inf_state := PostBind p (inf_state i)\<rparr>)"
| release: "istep args cap i (i\<lparr>inf_state := releaseIfObserved u (inf_state i)\<rparr>)"
| reconcile: "inf_queue i = [] \<Longrightarrow> lists ps (inf_cache i) \<Longrightarrow>
    ListCountable (ManagedSchedulerName args) (ServiceLabelKey args) (Inr ps) = Inr counts \<Longrightarrow>
    length counts + length (st_resv (inf_state i)) < 2 ^ 31 - 1 \<Longrightarrow>
    istep args cap i (i\<lparr>inf_state := rebuild counts (inf_state i)\<rparr>)"
| drop: "(\<And>p. inf_pods i u = Live p \<Longrightarrow> counted args p = None) \<Longrightarrow> inf_flight i u = None \<Longrightarrow>
    istep args cap i (i\<lparr>inf_state := releaseUnverified u node (inf_state i)\<rparr>)"

subsection \<open>The abstraction and the invariant\<close>

definition worldOf :: "ServiceSpreadArgs \<Rightarrow> informed \<Rightarrow> world" where
  "worldOf args i =
     \<lparr>w_state = inf_state i,
      w_bound = (\<lambda>u. case inf_pods i u of Live p \<Rightarrow> counted args p | _ \<Rightarrow> None),
      w_flight = (\<lambda>u. case inf_pods i u of Live p \<Rightarrow> inf_flight i u | _ \<Rightarrow> None),
      w_ever = inf_ever i\<rparr>"

definition versions :: "(uid \<times> life) list \<Rightarrow> uid \<Rightarrow> nat list" where
  "versions xs u = map (\<lambda>(v, l). stage l) (filter (\<lambda>(v, l). v = u) xs)"

definition pipeline :: "informed \<Rightarrow> uid \<Rightarrow> nat list" where
  "pipeline i u = versions (inf_queue i) u @ stage (inf_cache i u) # versions (inf_watch i) u @ [stage (inf_pods i u)]"

definition version_ok :: "ServiceSpreadArgs \<Rightarrow> (uid \<Rightarrow> podRef option) \<Rightarrow> uid \<Rightarrow> life \<Rightarrow> bool" where
  "version_ok args ever u l = (case l of Live p \<Rightarrow> pod_UID p = u \<and> (countablePod p \<longrightarrow> ever u = Some (eventRef args p)) | _ \<Rightarrow> True)"

definition versions_ok :: "ServiceSpreadArgs \<Rightarrow> informed \<Rightarrow> bool" where
  "versions_ok args i \<longleftrightarrow>
     (\<forall>u. version_ok args (inf_ever i) u (inf_pods i u) \<and> version_ok args (inf_ever i) u (inf_cache i u)) \<and>
     (\<forall>(u, l) \<in> set (inf_watch i) \<union> set (inf_queue i). version_ok args (inf_ever i) u l)"

text \<open>A pod in the snapshot was seen bound by the cache, and no notification from before that is pending.\<close>

definition seen_ok :: "informed \<Rightarrow> bool" where
  "seen_ok i \<longleftrightarrow> (\<forall>u. mget (snap_pods (st_snap (inf_state i))) u \<noteq> None \<longrightarrow>
     1 \<le> stage (inf_cache i u) \<and> (\<forall>n \<in> set (versions (inf_queue i) u). 1 \<le> n))"

definition inf_inv :: "ServiceSpreadArgs \<Rightarrow> informed \<Rightarrow> bool" where
  "inf_inv args i \<longleftrightarrow>
     (\<forall>u. sorted (pipeline i u)) \<and> versions_ok args i \<and> seen_ok i \<and>
     (\<forall>u. inf_flight i u \<noteq> None \<longrightarrow> inf_ever i u = None \<and> inf_pods i u \<noteq> Unborn) \<and>
     (\<forall>u. inf_ever i u \<noteq> None \<longrightarrow> 1 \<le> stage (inf_pods i u)) \<and>
     (\<forall>u p. inf_pods i u = Live p \<and> isBound p \<longrightarrow> inf_ever i u \<noteq> None)"

subsection \<open>Versions\<close>

lemma versions_simps [simp]:
  "versions [] u = []"
  "versions ((v, l) # xs) u = (if v = u then stage l # versions xs u else versions xs u)"
  "versions (xs @ ys) u = versions xs u @ versions ys u"
  by (simp_all add: versions_def)

lemma set_versions: "n \<in> set (versions xs u) \<longleftrightarrow> (\<exists>l. (u, l) \<in> set xs \<and> stage l = n)"
  by (auto simp: versions_def)

lemma stage_simps [simp]: "stage Unborn = 0" "stage Dead = 3" "countablePod p \<Longrightarrow> stage (Live p) = 1" "\<not> isBound p \<Longrightarrow> stage (Live p) = 0"
  by (auto simp: stage_def countablePod_def isBound_def)

lemma stage_Live: "stage (Live p) \<le> 2" "stage (Live p) = 1 \<longleftrightarrow> countablePod p" "stage (Live p) = 0 \<longleftrightarrow> \<not> isBound p"
  by (auto simp: stage_def countablePod_def isBound_def)

lemma counted_countable: "counted args p = Some ref \<Longrightarrow> countablePod p \<and> eventRef args p = ref \<and> NodeNameOf ref \<noteq> ''''"
  by (auto simp: countedRef_def eventRef_def countablePod_def PodRefFor_def Let_def split: if_splits sum.splits option.splits)

lemma eventRef_counted: "countablePod p \<Longrightarrow> eventRef args p = ref \<Longrightarrow> NodeNameOf ref \<noteq> '''' \<Longrightarrow> counted args p = Some ref"
  by (auto simp: eventRef_def emptyRef_def split: option.splits)

lemma counted_unbound: "\<not> isBound p \<Longrightarrow> counted args p = None"
  by (simp add: countedRef_def countablePod_def isBound_def)

lemma inf_invD:
  assumes "inf_inv args i"
  shows "sorted (pipeline i u)" "version_ok args (inf_ever i) u (inf_pods i u)" "version_ok args (inf_ever i) u (inf_cache i u)"
    "(u, l) \<in> set (inf_watch i) \<Longrightarrow> version_ok args (inf_ever i) u l" "(u, l) \<in> set (inf_queue i) \<Longrightarrow> version_ok args (inf_ever i) u l"
    "inf_flight i u \<noteq> None \<Longrightarrow> inf_ever i u = None \<and> inf_pods i u \<noteq> Unborn"
    "inf_ever i u \<noteq> None \<Longrightarrow> 1 \<le> stage (inf_pods i u)" "inf_pods i u = Live p \<Longrightarrow> isBound p \<Longrightarrow> inf_ever i u \<noteq> None"
    "mget (snap_pods (st_snap (inf_state i))) u \<noteq> None \<Longrightarrow> 1 \<le> stage (inf_cache i u)"
    "mget (snap_pods (st_snap (inf_state i))) u \<noteq> None \<Longrightarrow> n \<in> set (versions (inf_queue i) u) \<Longrightarrow> 1 \<le> n"
  using assms unfolding inf_inv_def versions_ok_def seen_ok_def by blast+

lemma versionsI:
  assumes "\<And>u. version_ok args (inf_ever i) u (inf_pods i u)" "\<And>u. version_ok args (inf_ever i) u (inf_cache i u)"
    "\<And>u l. (u, l) \<in> set (inf_watch i) \<Longrightarrow> version_ok args (inf_ever i) u l" "\<And>u l. (u, l) \<in> set (inf_queue i) \<Longrightarrow> version_ok args (inf_ever i) u l"
  shows "versions_ok args i"
  using assms by (auto simp: versions_ok_def)

text \<open>A later version: the bound on the stage of anything earlier in the pipeline.\<close>

lemma stage_queue: "inf_inv args i \<Longrightarrow> (u, l) \<in> set (inf_queue i) \<Longrightarrow> stage l \<le> stage (inf_cache i u)"
  using inf_invD(1) [of args i u] set_versions [of "stage l" "inf_queue i" u] by (fastforce simp: pipeline_def sorted_append)

lemma stage_cache: "inf_inv args i \<Longrightarrow> stage (inf_cache i u) \<le> stage (inf_pods i u)"
  using inf_invD(1) [of args i u] by (simp add: pipeline_def sorted_append)

lemma version_ok_ever: "version_ok args ever v l \<Longrightarrow> ever u = None \<Longrightarrow> version_ok args (ever(u \<mapsto> ref)) v l"
  by (auto simp: version_ok_def split: life.splits)

subsection \<open>Steps of the API server\<close>

lemma modified_inv:
  assumes "inf_inv args i" and "stage (inf_pods i u) \<le> stage l" and "l \<noteq> Unborn"
    and ever: "ever' = inf_ever i \<or> inf_ever i u = None \<and> ever' = (inf_ever i)(u \<mapsto> ref)"
    and "version_ok args ever' u l" and "ever' u \<noteq> None \<longrightarrow> 1 \<le> stage l" and "\<And>p. l = Live p \<Longrightarrow> isBound p \<Longrightarrow> ever' u \<noteq> None"
    and flight: "\<And>v. flight' v \<noteq> None \<Longrightarrow> inf_flight i v \<noteq> None \<and> ever' v = None"
  shows "inf_inv args ((modified u l i)\<lparr>inf_flight := flight', inf_ever := ever'\<rparr>)" (is "inf_inv args ?i'")
proof -
  note inv = inf_invD [OF assms(1)]
  have keep: "version_ok args ever' v m" if "version_ok args (inf_ever i) v m" for v m
    using that ever version_ok_ever by blast
  have "sorted (pipeline ?i' v)" for v
    using inv(1) [of v] assms(2) by (auto simp: pipeline_def modified_def sorted_append)
  moreover have "versions_ok args ?i'"
    by (rule versionsI) (use inv(2-5) keep assms(5) in \<open>auto simp: modified_def\<close>)
  moreover have "seen_ok ?i'" using inv(9,10) by (auto simp: seen_ok_def modified_def)
  moreover have "ever' v = None \<and> inf_pods ?i' v \<noteq> Unborn" if "flight' v \<noteq> None" for v
    using flight [OF that] inv(6) [of v] assms(3) by (auto simp: modified_def)
  moreover have "1 \<le> stage (inf_pods ?i' v)" if "ever' v \<noteq> None" for v
    using that ever assms(6) inv(7) [of v] by (auto simp: modified_def split: if_splits)
  moreover have "ever' v \<noteq> None" if "inf_pods ?i' v = Live p" "isBound p" for v p
    using that ever assms(7) inv(8) [of v p] by (auto simp: modified_def split: if_splits)
  ultimately show ?thesis unfolding inf_inv_def by (simp add: modified_def)
qed

lemma worldOf_modified:
  "worldOf args (modified u l i) = (worldOf args i)
     \<lparr>w_bound := (w_bound (worldOf args i))(u := case l of Live p \<Rightarrow> counted args p | _ \<Rightarrow> None),
      w_flight := (w_flight (worldOf args i))(u := case l of Live p \<Rightarrow> inf_flight i u | _ \<Rightarrow> None)\<rparr>"
  by (auto simp: worldOf_def modified_def fun_eq_iff split: life.split)

lemma worldOf_sel [simp]:
  "w_state (worldOf args i) = inf_state i" "w_ever (worldOf args i) = inf_ever i"
  "w_bound (worldOf args i) u = (case inf_pods i u of Live p \<Rightarrow> counted args p | _ \<Rightarrow> None)"
  "w_flight (worldOf args i) u = (case inf_pods i u of Live p \<Rightarrow> inf_flight i u | _ \<Rightarrow> None)"
  by (simp_all add: worldOf_def)

lemma world_eqI:
  "w_state w = w_state v \<Longrightarrow> w_ever w = w_ever v \<Longrightarrow> (\<And>u. w_bound w u = w_bound v u) \<Longrightarrow> (\<And>u. w_flight w u = w_flight v u) \<Longrightarrow> w = (v :: world)"
  by (cases w, cases v) (simp add: fun_eq_iff)

text \<open>The steps of the API server and of the scheduler, in \<open>System\<close>.\<close>

lemma abs_create:
  assumes "inf_inv args i" and "inf_pods i (pod_UID p) = Unborn" and "\<not> isBound p"
  shows "worldOf args (modified (pod_UID p) (Live p) i) = worldOf args i"
proof -
  have "inf_flight i (pod_UID p) = None" using inf_invD(6) [OF assms(1)] assms(2) by blast
  with assms(2,3) show ?thesis by (intro world_eqI) (auto simp: worldOf_modified counted_unbound)
qed

lemma abs_bind:
  assumes "inf_pods i u = Live p" and "inf_flight i u = Some ref" and "counted args (bindTo (NodeNameOf ref) p) = Some ref"
  shows "step cap (worldOf args i) (worldOf args ((modified u (Live (bindTo (NodeNameOf ref) p)) i)
      \<lparr>inf_flight := (inf_flight i)(u := None), inf_ever := (inf_ever i)(u \<mapsto> ref)\<rparr>))" (is "step cap ?w ?w'")
proof -
  have "step cap ?w (?w\<lparr>w_bound := (w_bound ?w)(u \<mapsto> ref), w_ever := (w_ever ?w)(u \<mapsto> ref), w_flight := (w_flight ?w)(u := None)\<rparr>)"
    by (rule step.bind) (simp add: assms)
  moreover have "?w' = ?w\<lparr>w_bound := (w_bound ?w)(u \<mapsto> ref), w_ever := (w_ever ?w)(u \<mapsto> ref), w_flight := (w_flight ?w)(u := None)\<rparr>"
    using assms by (intro world_eqI) (auto simp: modified_def split: life.split)
  ultimately show ?thesis by simp
qed

lemma abs_bindForeign:
  assumes "inf_inv args i" and "inf_pods i u = Live p" and "inf_flight i u = None" and "inf_ever i u = None" and "counted args (bindTo n p) = None"
  shows "step cap (worldOf args i) (worldOf args ((modified u (Live (bindTo n p)) i)\<lparr>inf_ever := (inf_ever i)(u \<mapsto> emptyRef)\<rparr>))"
    (is "step cap ?w ?w'")
proof -
  have "counted args p = None" using inf_invD(8) [OF assms(1,2)] assms(4) counted_unbound by blast
  then have "?w' = ?w\<lparr>w_ever := (w_ever ?w)(u \<mapsto> emptyRef)\<rparr>"
    using assms by (intro world_eqI) (auto simp: modified_def split: life.split)
  moreover have "step cap ?w (?w\<lparr>w_ever := (w_ever ?w)(u \<mapsto> emptyRef)\<rparr>)" by (rule step.foreign) (simp_all add: assms)
  ultimately show ?thesis by simp
qed

lemma abs_change:
  assumes "inf_pods i (pod_UID p') = Live p" and "countablePod p' \<Longrightarrow> counted args p' = counted args p"
  shows "(step cap)\<^sup>*\<^sup>* (worldOf args i) (worldOf args (modified (pod_UID p') (Live p') i))" (is "(step cap)\<^sup>*\<^sup>* ?w ?w'")
proof (cases "countablePod p'")
  case True
  with assms have "?w' = ?w" by (intro world_eqI) (auto simp: worldOf_modified)
  then show ?thesis by simp
next
  case False
  then have "counted args p' = None" by (simp add: countedRef_def)
  with assms(1) have "?w' = ?w\<lparr>w_bound := (w_bound ?w)(pod_UID p' := None)\<rparr>" by (intro world_eqI) (auto simp: worldOf_modified)
  with step.finish [of cap ?w "pod_UID p'"] show ?thesis by auto
qed

lemma abs_delete: "(step cap)\<^sup>*\<^sup>* (worldOf args i) (worldOf args (modified u Dead i))" (is "(step cap)\<^sup>*\<^sup>* ?w ?w'")
proof -
  let ?w1 = "?w\<lparr>w_bound := (w_bound ?w)(u := None)\<rparr>"
  have "step cap ?w ?w1" by (rule step.finish)
  moreover have "step cap ?w1 (?w1\<lparr>w_flight := (w_flight ?w1)(u := None)\<rparr>)" by (rule step.abort)
  moreover have "?w' = ?w1\<lparr>w_flight := (w_flight ?w1)(u := None)\<rparr>" by (intro world_eqI) (auto simp: worldOf_modified)
  ultimately show ?thesis by (simp add: rtranclp.rtrancl_into_rtrancl r_into_rtranclp)
qed

lemma abs_reserve:
  assumes "Reserve lib pl cs p n now (inf_state i) = Ret (st, s')" and "st_Code st = Success"
    and "getPreFilterState cs = Inr pf" and "pf_policy pf = Some pol" and "sint (pol_MaxPodsPerNode (pol_Spec pol)) \<le> cap (pf_quotaKey pf)"
    and "inf_flight i (pod_UID p) = None" and "inf_ever i (pod_UID p) = None" and "state_small s'"
  shows "(step cap)\<^sup>*\<^sup>* (worldOf args i) (worldOf args (i\<lparr>inf_state := s', inf_flight := (inf_flight i)(pod_UID p \<mapsto> reserveRef pf n)\<rparr>))"
    (is "(step cap)\<^sup>*\<^sup>* ?w ?w'")
proof -
  let ?u = "pod_UID p"
  let ?w1 = "?w\<lparr>w_state := s', w_flight := (w_flight ?w)(?u \<mapsto> reserveRef pf n)\<rparr>"
  have res: "step cap ?w ?w1"
    by (rule step.reserve [of lib pl cs p n now ?w st s' pf pol cap]) (use assms in \<open>simp_all split: life.split\<close>)
  show ?thesis
  proof (cases "\<exists>q. inf_pods i ?u = Live q")
    case True
    then have "?w' = ?w1" by (intro world_eqI) (auto split: life.split)
    with res show ?thesis by auto
  next
    case False
    then have "?w' = ?w1\<lparr>w_flight := (w_flight ?w1)(?u := None)\<rparr>" by (intro world_eqI) (auto split: life.split)
    with res step.abort [of cap ?w1 ?u] show ?thesis by (simp add: rtranclp.rtrancl_into_rtrancl r_into_rtranclp)
  qed
qed

lemma abs_bindFail:
  assumes "inf_inv args i" and "inf_flight i (pod_UID p) = Some ref"
  shows "step cap (worldOf args i)
    (worldOf args (i\<lparr>inf_state := PluginUnreserve p (inf_state i), inf_flight := (inf_flight i)(pod_UID p := None)\<rparr>))" (is "step cap ?w ?w'")
proof -
  have "inf_ever i (pod_UID p) = None" using inf_invD(6) [OF assms(1), of "pod_UID p"] assms(2) by simp
  then have "counted args q = None" if "inf_pods i (pod_UID p) = Live q" for q
    using that inf_invD(8) [OF assms(1) that] counted_unbound by blast
  then have "w_bound ?w (pod_UID p) = None" by (simp split: life.split)
  then have "step cap ?w (?w\<lparr>w_state := PluginUnreserve p (w_state ?w), w_flight := (w_flight ?w)(pod_UID p := None)\<rparr>)" by (rule step.bindFail)
  moreover have "?w' = ?w\<lparr>w_state := PluginUnreserve p (w_state ?w), w_flight := (w_flight ?w)(pod_UID p := None)\<rparr>"
    by (intro world_eqI) (auto split: life.split)
  ultimately show ?thesis by simp
qed

subsection \<open>Notifications and listings\<close>


lemma removeCount_absent: "state_ok s \<Longrightarrow> mget (snap_pods (st_snap s)) u = None \<Longrightarrow> removeCount u s = s"
  by (cases s) (simp add: removeCount_def state_ok_def snapshot_clone_id unapplyCount_def)

lemma podHandler_Live: "delivers ev u (Live p) \<Longrightarrow> podHandler args ev s = OnPodAddOrUpdate p (eventRef args p) s"
  by (auto simp: delivers_def podHandler_def onPodEvent_eventRef)

lemma podHandler_Dead: "delivers ev u Dead \<Longrightarrow> podHandler args ev s = OnPodDelete u s"
  by (auto simp: delivers_def podHandler_def)

lemma steps_state:
  assumes "step cap w (w\<lparr>w_state := s1\<rparr>)" and "step cap (w\<lparr>w_state := s1\<rparr>) (w\<lparr>w_state := s1, w_state := s2\<rparr>)"
  shows "(step cap)\<^sup>*\<^sup>* w (w\<lparr>w_state := s2\<rparr>)"
  using assms by (simp add: rtranclp.rtrancl_into_rtrancl r_into_rtranclp)

lemma abs_delete_event:
  assumes "w_bound w u = None" and "w_flight w u = None"
  shows "(step cap)\<^sup>*\<^sup>* w (w\<lparr>w_state := OnPodDelete u (w_state w)\<rparr>)"
proof -
  have "OnPodDelete u (w_state w) = releaseUnverified u '''' (removeCount u (w_state w))"
    by (cases "mget (st_resv (w_state w)) u") (simp_all add: OnPodDelete_def releaseUnverified_def removeCount_def mdel_absent)
  then show ?thesis
    using step.forget [of w u cap] step.drop [of "w\<lparr>w_state := removeCount u (w_state w)\<rparr>" u cap "''''"] assms
    by (intro steps_state [of cap w "removeCount u (w_state w)"]) simp_all
qed

lemma abs_pod_event:
  assumes "state_ok (w_state w)" and "stateSize (w_state w) < 2 ^ 31 - 2" and "pod_UID p = u"
    and "countablePod p \<Longrightarrow> w_ever w u = Some ref"
    and "\<not> countablePod p \<Longrightarrow> w_bound w u = None \<or> mget (snap_pods (st_snap (w_state w))) u = None"
  shows "(step cap)\<^sup>*\<^sup>* w (w\<lparr>w_state := OnPodAddOrUpdate p ref (w_state w)\<rparr>)"
proof (cases "countablePod p")
  case True
  let ?s = "upsertCount u ref (w_state w)"
  have "step cap w (w\<lparr>w_state := ?s\<rparr>)"
    using assms(4) [OF True] state_small_upsert [OF assms(1,2)] by (rule step.observe [OF _ refl])
  with step.release [of cap "w\<lparr>w_state := ?s\<rparr>" u] True assms(3) show ?thesis
    by (intro steps_state [of cap w ?s]) (simp_all add: OnPodAddOrUpdate_def)
next
  case False
  show ?thesis
  proof (cases "mget (snap_pods (st_snap (w_state w))) u")
    case None
    with step.release [of cap w u] False assms(1,3) show ?thesis by (simp add: OnPodAddOrUpdate_def removeCount_absent r_into_rtranclp)
  next
    case (Some r)
    let ?s = "removeCount u (w_state w)"
    have "step cap w (w\<lparr>w_state := ?s\<rparr>)" using assms(5) False Some by (intro step.forget) simp
    with step.release [of cap "w\<lparr>w_state := ?s\<rparr>" u] False assms(3) show ?thesis
      by (intro steps_state [of cap w ?s]) (simp_all add: OnPodAddOrUpdate_def)
  qed
qed

lemma abs_deliver:
  assumes "inf_inv args i" and "state_ok (inf_state i)" and "inf_queue i = (u, l) # qs" and "delivers ev u l"
    and "stateSize (inf_state i) < 2 ^ 31 - 2"
  shows "(step cap)\<^sup>*\<^sup>* (worldOf args i) (worldOf args (i\<lparr>inf_queue := qs, inf_state := podHandler args ev (inf_state i)\<rparr>))"
proof -
  have late: "stage l \<le> stage (inf_pods i u)"
    using stage_queue [OF assms(1), of u l] stage_cache [OF assms(1), of u] assms(3) by simp
  have world: "worldOf args (i\<lparr>inf_queue := qs, inf_state := s\<rparr>) = (worldOf args i)\<lparr>w_state := s\<rparr>" for s
    by (intro world_eqI) (simp_all split: life.split)
  show ?thesis
  proof (cases l)
    case Dead
    have "inf_pods i u \<noteq> Live q" for q using late Dead stage_Live(1) [of q] by auto
    then have "w_bound (worldOf args i) u = None" "w_flight (worldOf args i) u = None" by (simp_all split: life.split)
    with abs_delete_event [of "worldOf args i" u cap] Dead assms(4) show ?thesis by (simp add: world podHandler_Dead)
  next
    case (Live p)
    have p: "pod_UID p = u" "countablePod p \<Longrightarrow> inf_ever i u = Some (eventRef args p)"
      using inf_invD(5) [OF assms(1), of u l] assms(3) Live by (simp_all add: version_ok_def)
    have "w_bound (worldOf args i) u = None \<or> mget (snap_pods (st_snap (inf_state i))) u = None" if "\<not> countablePod p"
    proof (cases "isBound p")
      case True
      with that have "stage (Live p) = 2" by (simp add: stage_def)
      with late Live have "\<not> countablePod q" if "inf_pods i u = Live q" for q using that stage_Live(2) [of q] by auto
      then show ?thesis by (simp add: countedRef_def split: life.split)
    next
      case False
      with inf_invD(10) [OF assms(1), of u 0] assms(3) Live show ?thesis by auto
    qed
    then have "(step cap)\<^sup>*\<^sup>* (worldOf args i) ((worldOf args i)\<lparr>w_state := OnPodAddOrUpdate p (eventRef args p) (w_state (worldOf args i))\<rparr>)"
      using assms(2,5) p by (intro abs_pod_event [where u = u]) simp_all
    then show ?thesis using assms(4) Live by (simp add: world podHandler_Live)
  qed (use assms(4) in \<open>simp add: delivers_def\<close>)
qed

text \<open>A bound pod is in the listing unless its reservation still stands for it.\<close>

lemma cache_covers:
  assumes "inf_inv args i" and "world_inv cap (worldOf args i)" and "lists ps (inf_cache i)" and "w_bound (worldOf args i) u = Some ref"
  shows "mget (countableLoop (ManagedSchedulerName args) (ServiceLabelKey args) ps []) u = Some ref \<or> reserved (inf_state i) u ref"
proof (cases "mget (snap_pods (st_snap (inf_state i))) u")
  case None
  then show ?thesis using world_invD(6) [OF assms(2), of u ref] assms(4) by (simp add: accounted_def)
next
  case (Some r)
  obtain p where p: "inf_pods i u = Live p" "counted args p = Some ref" using assms(4) by (auto split: life.splits)
  note c = counted_countable [OF p(2)]
  have "stage (inf_cache i u) = 1" using inf_invD(9) [OF assms(1), of u] stage_cache [OF assms(1), of u] Some p(1) c by simp
  then obtain q where q: "inf_cache i u = Live q" "countablePod q" using stage_Live(2) by (cases "inf_cache i u") auto
  have "pod_UID q = u" "eventRef args q = eventRef args p"
    using inf_invD(2,3) [OF assms(1), of u] p(1) q c by (auto simp: version_ok_def)
  moreover from this q c have "counted args q = Some ref" by (intro eventRef_counted) auto
  moreover have "q \<in> set ps" "distinct (map pod_UID ps)" using assms(3) q(1) calculation(1) by (auto simp: lists_def)
  ultimately show ?thesis using lps.listing_covers [of ps q "ManagedSchedulerName args" "ServiceLabelKey args"] by simp
qed

lemma listing_cached:
  assumes "inf_inv args i" and "lists ps (inf_cache i)"
    and "mget (countableLoop (ManagedSchedulerName args) (ServiceLabelKey args) ps []) u = Some ref"
  shows "inf_ever i u = Some ref \<and> stage (inf_cache i u) = 1"
proof -
  obtain p where "p \<in> set ps" "pod_UID p = u" "counted args p = Some ref" using lps.listing_sound [OF assms(3)] by blast
  then have "inf_cache i u = Live p" "counted args p = Some ref" using assms(2) by (auto simp: lists_def)
  with counted_countable [of args p ref] inf_invD(3) [OF assms(1), of u] show ?thesis by (simp add: version_ok_def)
qed

lemma abs_reconcile:
  assumes "inf_inv args i" and "world_inv cap (worldOf args i)" and "lists ps (inf_cache i)"
    and "ListCountable (ManagedSchedulerName args) (ServiceLabelKey args) (Inr ps) = Inr counts"
    and "length counts + length (st_resv (inf_state i)) < 2 ^ 31 - 1"
  shows "step cap (worldOf args i) (worldOf args (i\<lparr>inf_state := rebuild counts (inf_state i)\<rparr>))"
proof -
  let ?w = "worldOf args i"
  have counts: "counts = countableLoop (ManagedSchedulerName args) (ServiceLabelKey args) ps []"
    using assms(4) by (simp add: ListCountable_def)
  have "worldOf args (i\<lparr>inf_state := rebuild counts (inf_state i)\<rparr>) = ?w\<lparr>w_state := rebuild counts (inf_state i)\<rparr>"
    by (intro world_eqI) (simp_all split: life.split)
  moreover have "step cap ?w (?w\<lparr>w_state := rebuild counts (inf_state i)\<rparr>)"
  proof (rule step.reconcile [of counts])
    show "wf_gomap counts" unfolding counts by (rule lps.wf_listing)
    show "mget counts u = Some ref \<or> reserved (w_state ?w) u ref" if "w_bound ?w u = Some ref" for u ref
      using cache_covers [OF assms(1,2,3) that] by (simp add: counts)
    show "w_ever ?w u = Some ref" if "mget counts u = Some ref" for u ref
      using listing_cached [OF assms(1,3)] that by (simp add: counts)
  qed (use assms(5) in simp_all)
  ultimately show ?thesis by simp
qed

subsection \<open>The invariant is kept\<close>

lemma inf_inv_state:
  assumes "inf_inv args i" and "\<And>u. mget (snap_pods (st_snap s')) u \<noteq> None \<Longrightarrow> mget (snap_pods (st_snap (inf_state i))) u \<noteq> None"
    and "\<And>u. flight' u \<noteq> None \<Longrightarrow> inf_ever i u = None \<and> inf_pods i u \<noteq> Unborn"
  shows "inf_inv args (i\<lparr>inf_state := s', inf_flight := flight'\<rparr>)"
proof -
  have "seen_ok (i\<lparr>inf_state := s', inf_flight := flight'\<rparr>)" using inf_invD(9,10) [OF assms(1)] assms(2) unfolding seen_ok_def by fastforce
  with assms(1,3) show ?thesis by (simp add: inf_inv_def pipeline_def versions_ok_def)
qed

lemma sync_inv:
  assumes "inf_inv args i" and "inf_watch i = (u, l) # ws"
  shows "inf_inv args (i\<lparr>inf_watch := ws, inf_cache := (inf_cache i)(u := l), inf_queue := inf_queue i @ [(u, l)]\<rparr>)" (is "inf_inv args ?i'")
proof -
  note inv = inf_invD [OF assms(1)]
  have later: "stage (inf_cache i u) \<le> stage l" using inv(1) [of u] assms(2) by (simp add: pipeline_def sorted_append)
  have "sorted (pipeline ?i' v)" for v
    using inv(1) [of v] assms(2) by (auto simp: pipeline_def sorted_append)
  moreover have "versions_ok args ?i'"
    by (rule versionsI) (use inv(2-5) assms(2) in auto)
  moreover have "seen_ok ?i'" using inv(9,10) later by (fastforce simp: seen_ok_def)
  ultimately show ?thesis using assms(1) by (simp add: inf_inv_def)
qed

lemma missed_inv:
  assumes "inf_inv args i" and "inf_watch i = xs @ (u, l) # ys"
  shows "inf_inv args (i\<lparr>inf_watch := xs @ ys\<rparr>)" (is "inf_inv args ?i'")
proof -
  note inv = inf_invD [OF assms(1)]
  have "sorted (pipeline ?i' v)" for v
    using inv(1) [of v] assms(2) by (auto simp: pipeline_def sorted_append split: if_splits)
  moreover have "versions_ok args ?i'" by (rule versionsI) (use inv(2-5) assms(2) in auto)
  moreover have "seen_ok ?i'" using inv(9,10) by (simp add: seen_ok_def)
  ultimately show ?thesis using assms(1) by (simp add: inf_inv_def)
qed

lemma resync_inv:
  assumes "inf_inv args i" and "inf_cache i u = Live p"
  shows "inf_inv args (i\<lparr>inf_queue := inf_queue i @ [(u, Live p)]\<rparr>)" (is "inf_inv args ?i'")
proof -
  note inv = inf_invD [OF assms(1)]
  have "sorted (pipeline ?i' v)" for v
    using inv(1) [of v] assms(2) by (auto simp: pipeline_def sorted_append)
  moreover have "versions_ok args ?i'" by (rule versionsI) (use inv(2-5) inv(3) [of u] assms(2) in auto)
  moreover have "seen_ok ?i'" using inv(9,10) assms(2) by (fastforce simp: seen_ok_def)
  ultimately show ?thesis using assms(1) by (simp add: inf_inv_def)
qed

lemma deliver_inv:
  assumes "inf_inv args i" and "state_ok (inf_state i)" and "inf_queue i = (u, l) # qs" and "delivers ev u l"
  shows "inf_inv args (i\<lparr>inf_queue := qs, inf_state := podHandler args ev (inf_state i)\<rparr>)" (is "inf_inv args ?i'")
proof -
  note inv = inf_invD [OF assms(1)]
  have later: "stage l \<le> stage (inf_cache i u)" "n \<in> set (versions qs u) \<Longrightarrow> stage l \<le> n" for n
    using inv(1) [of u] assms(3) by (auto simp: pipeline_def sorted_append)
  have "mget (snap_pods (st_snap (inf_state ?i'))) v \<noteq> None \<Longrightarrow>
      mget (snap_pods (st_snap (inf_state i))) v \<noteq> None \<or> v = u \<and> stage l = 1" for v
    using assms(4) inv(5) [of u l] assms(3)
    by (cases l) (auto simp: podHandler_Live podHandler_Dead pods_OnPodAddOrUpdate [OF assms(2)] pods_OnPodDelete [OF assms(2)]
        version_ok_def delivers_def split: if_splits)
  then have "seen_ok ?i'" using inv(9,10) later assms(3) by (fastforce simp: seen_ok_def)
  moreover have "sorted (pipeline ?i' v)" for v using inv(1) [of v] assms(3) by (auto simp: pipeline_def split: if_splits)
  moreover have "versions_ok args ?i'" by (rule versionsI) (use inv(2-5) assms(3) in auto)
  ultimately show ?thesis using assms(1) by (simp add: inf_inv_def)
qed

lemma reconcile_inv:
  assumes "inf_inv args i" and "inf_queue i = []" and "lists ps (inf_cache i)"
    and "ListCountable (ManagedSchedulerName args) (ServiceLabelKey args) (Inr ps) = Inr counts"
  shows "inf_inv args (i\<lparr>inf_state := rebuild counts (inf_state i)\<rparr>)"
proof -
  have counts: "counts = countableLoop (ManagedSchedulerName args) (ServiceLabelKey args) ps []"
    using assms(4) by (simp add: ListCountable_def)
  then have "wf_gomap counts" by (simp add: lps.wf_listing)
  then have "seen_ok (i\<lparr>inf_state := rebuild counts (inf_state i)\<rparr>)"
    using listing_cached [OF assms(1,3)] assms(2) by (auto simp: seen_ok_def pods_rebuild counts)
  with assms(1) show ?thesis by (simp add: inf_inv_def pipeline_def versions_ok_def)
qed

lemma inf_inv_keeps:
  assumes "inf_inv args i"
  shows "inf_pods i (pod_UID p) = Unborn \<Longrightarrow> \<not> isBound p \<Longrightarrow> inf_inv args (modified (pod_UID p) (Live p) i)"
    "inf_pods i u = Live q \<Longrightarrow> inf_inv args (modified u Dead i)"
    "inf_pods i (pod_UID p) = Live q \<Longrightarrow> stage (Live q) \<le> stage (Live p) \<Longrightarrow> isBound p = isBound q \<Longrightarrow>
     (countablePod p \<Longrightarrow> counted args p = counted args q) \<Longrightarrow> inf_inv args (modified (pod_UID p) (Live p) i)"
proof -
  note inv = inf_invD [OF assms]
  have same: "(modified v l i)\<lparr>inf_flight := inf_flight i, inf_ever := inf_ever i\<rparr> = modified v l i" for v l by (simp add: modified_def)
  note keep = modified_inv [OF assms, where flight' = "inf_flight i" and ever' = "inf_ever i", unfolded same]
  show "inf_inv args (modified (pod_UID p) (Live p) i)" if "inf_pods i (pod_UID p) = Unborn" "\<not> isBound p"
  proof -
    have "inf_ever i (pod_UID p) = None" using that(1) inv(7) [of "pod_UID p"] by force
    then show ?thesis using that inv(6) by (intro keep) (auto simp: version_ok_def countablePod_def isBound_def)
  qed
  show "inf_inv args (modified u Dead i)" if "inf_pods i u = Live q"
    using that inv(6) stage_Live(1) [of q] by (intro keep) (auto simp: version_ok_def)
  show "inf_inv args (modified (pod_UID p) (Live p) i)" if q: "inf_pods i (pod_UID p) = Live q" "stage (Live q) \<le> stage (Live p)"
    "isBound p = isBound q" "countablePod p \<Longrightarrow> counted args p = counted args q"
  proof (rule keep)
    have "version_ok args (inf_ever i) (pod_UID p) (Live q)" using inv(2) [of "pod_UID p"] q(1) by simp
    moreover have "countablePod q" if "countablePod p"
      using that q(2,3) stage_Live(2,3) [of q] by (simp add: stage_def countablePod_def isBound_def split: if_splits)
    ultimately show "version_ok args (inf_ever i) (pod_UID p) (Live p)"
      using q(4) by (auto simp: version_ok_def eventRef_def)
    show "inf_ever i (pod_UID p) \<noteq> None" if "Live p = Live r" "isBound r" for r
      using that inv(8) [OF q(1)] q(3) by simp
    show "inf_ever i (pod_UID p) \<noteq> None \<longrightarrow> 1 \<le> stage (Live p)" using q(1,2) inv(7) [of "pod_UID p"] by force
  qed (use q inv(6) in auto)
qed

lemma bind_inv:
  assumes "inf_inv args i" and "inf_pods i u = Live p" and "inf_ever i u = None" and "countablePod (bindTo n p)" and "eventRef args (bindTo n p) = ref"
  shows "inf_inv args ((modified u (Live (bindTo n p)) i)\<lparr>inf_flight := (inf_flight i)(u := None), inf_ever := (inf_ever i)(u \<mapsto> ref)\<rparr>)"
proof (rule modified_inv [OF assms(1), where ref = ref])
  have "pod_UID p = u" using inf_invD(2) [OF assms(1), of u] assms(2) by (simp add: version_ok_def)
  with assms(4,5) show "version_ok args ((inf_ever i)(u \<mapsto> ref)) u (Live (bindTo n p))" by (simp add: version_ok_def bindTo_def)
  have "\<not> isBound p" using inf_invD(8) [OF assms(1,2)] assms(3) by blast
  with assms(2) show "stage (inf_pods i u) \<le> stage (Live (bindTo n p))" by simp
  show "inf_flight i v \<noteq> None \<and> ((inf_ever i)(u \<mapsto> ref)) v = None" if "((inf_flight i)(u := None)) v \<noteq> None" for v
    using that inf_invD(6) [OF assms(1), of v] by (auto split: if_splits)
qed (use assms in auto)

lemma istep_inv:
  assumes "istep args cap i i'" and "inf_inv args i" and "world_inv cap (worldOf args i)"
  shows "inf_inv args i'"
proof -
  have ok: "state_ok (inf_state i)" "state_small (inf_state i)" using world_invD(1,2) [OF assms(3)] by simp_all
  note state = inf_inv_state [OF assms(2)] and inv = inf_invD [OF assms(2)]
  have only: "inf_inv args (i\<lparr>inf_state := s'\<rparr>)" if "\<And>u. mget (snap_pods (st_snap s')) u \<noteq> None \<Longrightarrow> mget (snap_pods (st_snap (inf_state i))) u \<noteq> None" for s'
    using state [where s' = s' and flight' = "inf_flight i"] that inv(6) by simp
  from assms(1) show ?thesis
  proof cases
    case (create p) then show ?thesis using inf_inv_keeps(1) [OF assms(2)] by simp
  next
    case (reserve lib pl cs p n now st s' pf pol)
    have "st_snap s' = st_snap (inf_state i)" using Reserve_Success [OF ok reserve(2,3)] by auto
    with reserve show ?thesis using inv(6) by (auto intro!: state split: if_splits)
  next
    case (bind u p ref)
    then show ?thesis using bind_inv [OF assms(2) bind(2)] inv(6) [of u] counted_countable [OF bind(4)] by simp
  next
    case (bindForeign u p n)
    then have "eventRef args (bindTo n p) = emptyRef" by (simp add: eventRef_def)
    moreover have "(inf_flight i)(u := None) = inf_flight i" using bindForeign(3) by auto
    ultimately show ?thesis using bind_inv [OF assms(2) bindForeign(2,4,6)] bindForeign(1) by (simp add: modified_def)
  next
    case (bindFail p ref) then show ?thesis using inv(6) by (auto intro!: state simp: PluginUnreserve_def split: if_splits)
  next
    case (change p' p) then show ?thesis using inf_inv_keeps(3) [OF assms(2)] by simp
  next
    case (delete u p) then show ?thesis using inf_inv_keeps(2) [OF assms(2)] by simp
  next
    case (sync u l ws) then show ?thesis using sync_inv [OF assms(2)] by simp
  next
    case (missed xs u l ys) then show ?thesis using missed_inv [OF assms(2)] by simp
  next
    case (resync u p) then show ?thesis using resync_inv [OF assms(2)] by simp
  next
    case (deliver u l qs ev) then show ?thesis using deliver_inv [OF assms(2) ok(1)] by simp
  next
    case (reconcile ps counts) then show ?thesis using reconcile_inv [OF assms(2)] by simp
  qed (auto intro!: only simp: PostBind_def)
qed

lemma abs_state: "worldOf args (i\<lparr>inf_state := s\<rparr>) = (worldOf args i)\<lparr>w_state := s\<rparr>"
  by (intro world_eqI) (simp_all split: life.split)

lemma abs_pipes:
  "worldOf args (i\<lparr>inf_watch := ws\<rparr>) = worldOf args i" "worldOf args (i\<lparr>inf_cache := c\<rparr>) = worldOf args i"
  "worldOf args (i\<lparr>inf_queue := qs\<rparr>) = worldOf args i"
  by (intro world_eqI; simp split: life.split)+

lemma istep_simulates:
  assumes "istep args cap i i'" and "inf_inv args i" and "world_inv cap (worldOf args i)"
  shows "(step cap)\<^sup>*\<^sup>* (worldOf args i) (worldOf args i')"
proof -
  have ok: "state_ok (inf_state i)" using world_invD(1) [OF assms(3)] by simp
  from assms(1) show ?thesis
  proof cases
    case (create p) then show ?thesis using abs_create [OF assms(2)] by simp
  next
    case (reserve lib pl cs p n now st s' pf pol) then show ?thesis using abs_reserve [where cap = cap, OF reserve(2-8,10)] by simp
  next
    case (bind u p ref) then show ?thesis using abs_bind [OF bind(2-4)] by blast
  next
    case (bindForeign u p n) then show ?thesis using abs_bindForeign [OF assms(2) bindForeign(2-4,7)] by blast
  next
    case (bindFail p ref) then show ?thesis using abs_bindFail [OF assms(2) bindFail(2)] by blast
  next
    case (change p' p) then show ?thesis using abs_change [OF change(2,5)] by simp
  next
    case (delete u p) then show ?thesis using abs_delete by simp
  next
    case (deliver u l qs ev) then show ?thesis using abs_deliver [OF assms(2) ok] by simp
  next
    case (postBind p) then show ?thesis using step.postBind [of cap "worldOf args i" p] by (auto simp: abs_state)
  next
    case (release u) then show ?thesis using step.release [of cap "worldOf args i" u] by (auto simp: abs_state)
  next
    case (reconcile ps counts) then show ?thesis using abs_reconcile [OF assms(2,3)] by blast
  next
    case (drop u node)
    then have "w_bound (worldOf args i) u = None" "w_flight (worldOf args i) u = None" by (simp_all split: life.split)
    from step.drop [OF this, of cap node] drop(1) show ?thesis by (auto simp: abs_state)
  qed (simp_all add: abs_pipes)
qed

interpretation lagging: simulation init_world "step cap" "world_inv cap" "\<lambda>i. i = informed0" "istep args cap" "inf_inv args" "worldOf args"
  for cap args
proof
  show "inf_inv args c" if "c = informed0" for c
    using that by (simp add: inf_inv_def informed0_def pipeline_def versions_ok_def version_ok_def seen_ok_def newSpreadState_def emptySnapshot_def)
  show "init_world (worldOf args c)" if "c = informed0" for c
    using that by (simp add: init_world_def worldOf_def informed0_def)
qed (rule istep_inv istep_simulates; assumption)+

subsection \<open>The limit on the API server\<close>


abbreviation exampleArgs :: ServiceSpreadArgs where
  "exampleArgs \<equiv> sp_args examplePlugin"

lemma DomainHash_bindTo: "DomainHash (bindTo n p) = DomainHash p"
  by (simp add: DomainHash_def domainSpecOf_def requiredTerms_def bindTo_def)

lemma example_counted:
  "counted exampleArgs (bindTo ''n1'' example_pod) =
     Some (reserveRef (preFilterOf example_lib examplePlugin newSpreadState example_pod ''web'' (Some examplePolicy)) ''n1'')"
proof -
  have "mget (pod_Labels example_pod) (ServiceLabelKey exampleArgs) = Some ''web''" by (simp add: example_pod_def examplePlugin_def example_args_def)
  moreover have "countablePod (bindTo ''n1'' example_pod)" by (simp add: countablePod_def bindTo_def example_pod_def)
  moreover obtain h where "DomainHash example_pod = Inr h" by (simp add: DomainHash_Inr)
  ultimately show ?thesis
    using example_managed DomainHash_bindTo [of "''n1''" example_pod]
    by (simp add: countedRef_def PodRefFor_def preFilterOf_def reserveRef_def Let_def bindTo_def)
qed

lemma example_informed_run:
  "\<exists>i. (istep exampleArgs (\<lambda>q. 2))\<^sup>*\<^sup>* informed0 i \<and> inf_pods i ''u1'' = Live (bindTo ''n1'' example_pod)"
proof (rule example_Filter_Reserve_facts)
  let ?pf = "preFilterOf example_lib examplePlugin newSpreadState example_pod ''web'' (Some examplePolicy)"
  let ?ref = "reserveRef ?pf ''n1''" and ?step = "istep exampleArgs (\<lambda>q. 2)"
  fix cs
  assume pf: "getPreFilterState cs = Inr ?pf" and pol: "pf_policy ?pf = Some examplePolicy"
  let ?s = "newSpreadState\<lparr>st_resv := [(''u1'', newReservation ''u1'' ?ref 0)]\<rparr>"
  let ?i1 = "modified ''u1'' (Live example_pod) informed0"
  let ?i2 = "?i1\<lparr>inf_state := ?s, inf_flight := (inf_flight ?i1)(''u1'' \<mapsto> ?ref)\<rparr>"
  let ?i3 = "(modified ''u1'' (Live (bindTo (NodeNameOf ?ref) example_pod)) ?i2)
      \<lparr>inf_flight := (inf_flight ?i2)(''u1'' := None), inf_ever := (inf_ever ?i2)(''u1'' \<mapsto> ?ref)\<rparr>"
  have uid: "pod_UID example_pod = ''u1''" "\<not> isBound example_pod" by (simp_all add: example_pod_def example_spec_def isBound_def)
  have "?step informed0 ?i1" using istep.create [of informed0 example_pod] uid by (simp add: informed0_def)
  moreover have "Reserve example_lib examplePlugin cs example_pod ''n1'' 0 newSpreadState = Ret (NewStatus Success [], ?s)"
    using Reserve_cases [OF new_state_ok pf pol, of example_lib examplePlugin example_pod "''n1''" 0]
      example_fits [of "pf_schedKey ?pf" "pf_quotaKey ?pf"]
    by (simp add: example_domain Let_def newSpreadState_def uid)
  then have run: "Reserve example_lib examplePlugin cs example_pod ''n1'' 0 (inf_state ?i1) = Ret (NewStatus Success [], ?s)"
    by (simp add: modified_def informed0_def)
  have "state_small ?s" by (simp add: state_small_def newSpreadState_def emptySnapshot_def)
  then have "?step ?i1 ?i2"
    using istep.reserve [OF run _ pf pol, where cap = "\<lambda>q. 2" and args = exampleArgs] uid
    by (simp add: modified_def informed0_def NewStatus_def) (simp add: examplePolicy_def)
  moreover have "?step ?i2 ?i3"
    by (rule istep.bind) (simp_all add: modified_def, use example_counted in \<open>simp add: reserveRef_def\<close>)
  ultimately have "?step\<^sup>*\<^sup>* informed0 ?i3" by (meson r_into_rtranclp rtranclp.rtrancl_into_rtrancl)
  moreover have "inf_pods ?i3 ''u1'' = Live (bindTo ''n1'' example_pod)" by (simp add: modified_def reserveRef_def)
  ultimately show ?thesis by blast
qed


subsection \<open>Why the listing must not be ahead of the handler\<close>


end
