(* ===== verification/Metrics.thy ===== *)
theory Metrics
  imports Replica_Target
begin

section \<open>The metrics\<close>

text \<open>
  The metric vectors of \<open>internal/spread/plugin.go\<close> and \<open>internal/spread/replicatarget.go\<close>, their registration when the package is initialised, and their use. Prometheus panics
  on a registration with an invalid or taken name and on a vector with the wrong number of label values; neither
  happens. The registry is a parameter with the documented behaviour of \<open>Registerer.Register\<close> (\<open>registry_laws\<close>).
\<close>

record metricDesc =
  md_Name :: string
  md_Help :: string
  md_Labels :: "string list"

definition filterRejectionsVec :: metricDesc where
  "filterRejectionsVec = \<lparr>md_Name = ''service_spread_filter_rejections_total'',
     md_Help = ''Filter rejections by the ServiceSpread plugin, by canonical reason.'', md_Labels = [''reason'']\<rparr>"

definition policyResolutionFailuresVec :: metricDesc where
  "policyResolutionFailuresVec = \<lparr>md_Name = ''service_spread_policy_resolution_failures_total'',
     md_Help = ''PreFilter policy-resolution failures by canonical reason.'', md_Labels = [''reason'']\<rparr>"

definition replicaTarget :: metricDesc where
  "replicaTarget = \<lparr>md_Name = ''service_spread_replica_target'',
     md_Help = ''reportedReplicaTarget per (namespace,service,domain) with protective floor applied'',
     md_Labels = [''namespace'', ''service'', ''domain'']\<rparr>"

definition observedPodsGauge :: metricDesc where
  "observedPodsGauge = \<lparr>md_Name = ''service_spread_observed_pods'',
     md_Help = ''Pending+Running pods (incl. unbound) per service domain'', md_Labels = [''namespace'', ''service'', ''domain'']\<rparr>"

definition boundPodsGauge :: metricDesc where
  "boundPodsGauge = \<lparr>md_Name = ''service_spread_bound_pods'',
     md_Help = ''pods bound to nodes per service domain'', md_Labels = [''namespace'', ''service'', ''domain'']\<rparr>"

definition fallbackActive :: metricDesc where
  "fallbackActive = \<lparr>md_Name = ''service_spread_fallback_active'',
     md_Help = ''1 when any replica-target component fell back (ReplicaTargetFallback or lastGood)'',
     md_Labels = [''namespace'', ''service'', ''domain'']\<rparr>"

definition reservationsGauge :: metricDesc where
  "reservationsGauge = \<lparr>md_Name = ''service_spread_reservations'',
     md_Help = ''live pre-bind reservations per (namespace,service,domain): pods that passed Reserve but whose binding is not yet observed by the informer'',
     md_Labels = [''namespace'', ''service'', ''domain'']\<rparr>"

definition nodePodsGauge :: metricDesc where
  "nodePodsGauge = \<lparr>md_Name = ''service_spread_node_pods'',
     md_Help = ''per-node pod counts of the service domain (DEBUG: high-cardinality node label; enable via ServiceSpreadArgs.exportNodePods)'',
     md_Labels = [''namespace'', ''service'', ''domain'', ''node'']\<rparr>"

definition targetDetailGauge :: metricDesc where
  "targetDetailGauge = \<lparr>md_Name = ''service_spread_replica_target_detail'',
     md_Help = ''per-deployment replica target and its source (DEBUG; enable via ServiceSpreadArgs.exportTargetDetail)'',
     md_Labels = [''namespace'', ''service'', ''domain'', ''deployment'', ''source'']\<rparr>"

definition capacityDeficitGauge :: metricDesc where
  "capacityDeficitGauge = \<lparr>md_Name = ''service_spread_capacity_deficit'',
     md_Help = ''HPA maxReplicas minus eligible-node count times maxPodsPerNode, floored at 0'', md_Labels = [''namespace'', ''service'']\<rparr>"

lemmas vec_defs = filterRejectionsVec_def policyResolutionFailuresVec_def replicaTarget_def observedPodsGauge_def boundPodsGauge_def
  fallbackActive_def reservationsGauge_def nodePodsGauge_def targetDetailGauge_def capacityDeficitGauge_def

subsection \<open>Registration\<close>

text \<open>\<open>MustRegister\<close> registers one collector after the other and panics on the first error. The two \<open>init\<close> functions run in the order of their file names.\<close>

primrec MustRegister :: "('r \<Rightarrow> metricDesc \<Rightarrow> string + 'r) \<Rightarrow> metricDesc list \<Rightarrow> 'r \<Rightarrow> 'r outcome" where
  "MustRegister register [] r = Ret r"
| "MustRegister register (d # ds) r = (case register r d of Inl err \<Rightarrow> Panic err | Inr r' \<Rightarrow> MustRegister register ds r')"

definition plugin_init :: "('r \<Rightarrow> metricDesc \<Rightarrow> string + 'r) \<Rightarrow> 'r \<Rightarrow> 'r outcome" where
  "plugin_init register = MustRegister register [filterRejectionsVec, policyResolutionFailuresVec]"

definition observer_init :: "('r \<Rightarrow> metricDesc \<Rightarrow> string + 'r) \<Rightarrow> 'r \<Rightarrow> 'r outcome" where
  "observer_init register = MustRegister register
     [replicaTarget, observedPodsGauge, boundPodsGauge, fallbackActive, reservationsGauge, nodePodsGauge, targetDetailGauge, capacityDeficitGauge]"

definition packageInit :: "('r \<Rightarrow> metricDesc \<Rightarrow> string + 'r) \<Rightarrow> 'r \<Rightarrow> 'r outcome" where
  "packageInit register r = bindOutcome (plugin_init register r) (observer_init register)"

definition spreadMetrics :: "metricDesc list" where
  "spreadMetrics = [filterRejectionsVec, policyResolutionFailuresVec, replicaTarget, observedPodsGauge, boundPodsGauge, fallbackActive,
     reservationsGauge, nodePodsGauge, targetDetailGauge, capacityDeficitGauge]"

text \<open>The data model of Prometheus: names of metrics are made of letters, digits, underscores and colons and do not start with a digit; label names have no
  colons, do not start with two underscores and are distinct.\<close>

definition nameStart :: "char \<Rightarrow> bool" where
  "nameStart c \<longleftrightarrow> c = CHR ''_'' \<or> c \<in> set ''abcdefghijklmnopqrstuvwxyzABCDEFGHIJKLMNOPQRSTUVWXYZ''"

definition validName :: "string \<Rightarrow> bool" where
  "validName s \<longleftrightarrow> s \<noteq> '''' \<and> nameStart (hd s) \<and> list_all (\<lambda>c. nameStart c \<or> c \<in> set ''0123456789'') s"

definition validDesc :: "metricDesc \<Rightarrow> bool" where
  "validDesc d \<longleftrightarrow> validName (md_Name d) \<and> distinct (md_Labels d) \<and> list_all (\<lambda>l. validName l \<and> take 2 l \<noteq> ''__'') (md_Labels d)"

definition registry_laws :: "('r \<Rightarrow> metricDesc \<Rightarrow> string + 'r) \<Rightarrow> ('r \<Rightarrow> string set) \<Rightarrow> bool" where
  "registry_laws register names \<longleftrightarrow>
     (\<forall>r d. validDesc d \<and> md_Name d \<notin> names r \<longrightarrow> (\<exists>r'. register r d = Inr r' \<and> names r' = insert (md_Name d) (names r)))"

lemma MustRegister_Ret:
  assumes "registry_laws register names" and "list_all validDesc ds" and "distinct (map md_Name ds)" and "names r \<inter> md_Name ` set ds = {}"
  shows "\<exists>r'. MustRegister register ds r = Ret r' \<and> names r' = names r \<union> md_Name ` set ds"
  using assms(2-4)
proof (induction ds arbitrary: r)
  case (Cons d ds)
  have d: "validDesc d" "md_Name d \<notin> names r" using Cons.prems by auto
  with assms(1) obtain r1 where r1: "register r d = Inr r1" "names r1 = insert (md_Name d) (names r)"
    unfolding registry_laws_def by blast
  have "names r1 \<inter> md_Name ` set ds = {}" using Cons.prems r1(2) by auto
  then obtain r2 where "MustRegister register ds r1 = Ret r2" "names r2 = names r1 \<union> md_Name ` set ds"
    using Cons.IH [of r1] Cons.prems(1,2) by auto
  with r1 show ?case by auto
qed simp

lemma spreadMetrics_valid: "list_all validDesc spreadMetrics" "distinct (map md_Name spreadMetrics)"
  by (simp_all add: spreadMetrics_def vec_defs validDesc_def validName_def nameStart_def)

lemma MustRegister_append:
  "MustRegister register (ds @ es) r = bindOutcome (MustRegister register ds r) (MustRegister register es)"
  by (induction ds arbitrary: r) (simp_all split: sum.split)

lemma packageInit_eq: "packageInit register r = MustRegister register spreadMetrics r"
proof -
  have split: "spreadMetrics = [filterRejectionsVec, policyResolutionFailuresVec] @
      [replicaTarget, observedPodsGauge, boundPodsGauge, fallbackActive, reservationsGauge, nodePodsGauge, targetDetailGauge, capacityDeficitGauge]"
    by (simp add: spreadMetrics_def)
  show ?thesis by (simp only: split packageInit_def plugin_init_def observer_init_def MustRegister_append)
qed

subsection \<open>Use\<close>

text \<open>A use of a vector that does not panic: the vector exists and has as many labels as there are values.\<close>

definition declared :: "string \<times> string list \<Rightarrow> bool" where
  "declared k \<longleftrightarrow> (\<exists>d \<in> set spreadMetrics. md_Name d = fst k \<and> length (md_Labels d) = length (snd k))"

lemma declared_names:
  "declared (''service_spread_filter_rejections_total'', [reason])" "declared (''service_spread_policy_resolution_failures_total'', [reason])"
  "declared (''service_spread_replica_target'', [ns, svc, d])" "declared (''service_spread_observed_pods'', [ns, svc, d])"
  "declared (''service_spread_bound_pods'', [ns, svc, d])" "declared (''service_spread_fallback_active'', [ns, svc, d])"
  "declared (''service_spread_reservations'', [ns, svc, d])" "declared (''service_spread_node_pods'', [ns, svc, d, node])"
  "declared (''service_spread_replica_target_detail'', [ns, svc, d, dep, src])" "declared (''service_spread_capacity_deficit'', [ns, svc])"
  unfolding declared_def by (simp_all add: spreadMetrics_def vec_defs)

definition gauges_declared :: "gauges \<Rightarrow> bool" where
  "gauges_declared g \<longleftrightarrow> (\<forall>k \<in> set (map fst g). declared k)"

lemma setGauge_declared: "gauges_declared g \<Longrightarrow> declared (name, l) \<Longrightarrow> gauges_declared (setGauge name l v g)"
  by (simp only: gauges_declared_def setGauge_def keys_mput ball_simps)

lemma fold_declared: "gauges_declared g \<Longrightarrow> (\<And>x g. gauges_declared g \<Longrightarrow> gauges_declared (f x g)) \<Longrightarrow> gauges_declared (fold f xs g)"
  by (induction xs arbitrary: g) simp_all

lemma exportOne_declared: "gauges_declared g \<Longrightarrow> gauges_declared (exportOne s g)"
  unfolding exportOne_def Let_def
  by (auto intro!: fold_declared setGauge_declared simp: declared_names)

lemma exportCycle_declared: "gauges_declared (snd st) \<Longrightarrow> gauges_declared (snd (exportCycle lib deps t st))"
  by (auto simp: exportCycle_def ExportReservations_def ExportSeries_def Let_def split: sum.splits prod.splits option.splits
      intro!: fold_declared exportOne_declared setGauge_declared declared_names)

lemma RunObserverLoop_declared: "gauges_declared g \<Longrightarrow> gauges_declared (snd (RunObserverLoop lib deps first ticks g))"
proof -
  have "gauges_declared (snd st) \<Longrightarrow> gauges_declared (snd (fold (exportCycle lib deps) ts st))" for ts st
    by (induction ts arbitrary: st) (simp_all add: exportCycle_declared)
  then show "gauges_declared g \<Longrightarrow> gauges_declared (snd (RunObserverLoop lib deps first ticks g))"
    by (simp add: RunObserverLoop_def exportCycle_declared)
qed

lemma resolvePolicy_increments: "resolvePolicy pl ns v = (r, inc) \<Longrightarrow> (name, reason) \<in> set inc \<Longrightarrow> declared (name, [reason])"
  by (auto simp: resolvePolicy_def policyResolutionFailures_def declared_names Let_def split: sum.splits if_splits)

lemma PreFilter_increments: "PreFilter lib pl s cs p = Ret (st, cs', inc) \<Longrightarrow> (name, reason) \<in> set inc \<Longrightarrow> declared (name, [reason])"
  by (auto simp: PreFilter_def policyResolutionFailures_def declared_names Let_def dest: resolvePolicy_increments
      split: option.splits if_splits prod.splits sum.splits)

lemma Filter_increments: "Filter cs p nd = Ret (st, inc) \<Longrightarrow> (name, reason) \<in> set inc \<Longrightarrow> declared (name, [reason])"
  by (auto simp: Filter_def policySpecOf_def filterRejections_def declared_names Let_def split: option.splits if_splits sum.splits)

text \<open>C37: The metrics never panic. On a registry without these names the \<open>init\<close> functions of the package register all ten vectors; whatever the observation loop exports and
  whatever PreFilter and Filter count belongs to a registered vector and has exactly as many label values as the vector has labels.\<close>

theorem metrics_never_panic:
  assumes "registry_laws register names" and "names r \<inter> md_Name ` set spreadMetrics = {}"
  shows "(\<exists>r'. packageInit register r = Ret r' \<and> names r' = names r \<union> md_Name ` set spreadMetrics) \<and>
    (\<forall>k v. mget (snd (RunObserverLoop lib deps first ticks [])) k = Some v \<longrightarrow> declared k) \<and>
    (\<forall>st cs' inc name reason. PreFilter lib pl s cs p = Ret (st, cs', inc) \<and> (name, reason) \<in> set inc \<longrightarrow> declared (name, [reason])) \<and>
    (\<forall>st inc name reason. Filter cs p nd = Ret (st, inc) \<and> (name, reason) \<in> set inc \<longrightarrow> declared (name, [reason]))"
proof -
  have "gauges_declared (snd (RunObserverLoop lib deps first ticks []))" by (rule RunObserverLoop_declared) (simp add: gauges_declared_def)
  then have "declared k" if "mget (snd (RunObserverLoop lib deps first ticks [])) k = Some v" for k v
  proof -
    have "k \<in> set (map fst (snd (RunObserverLoop lib deps first ticks [])))" using imageI [OF map_of_SomeD [OF that], of fst] by simp
    with \<open>gauges_declared _\<close> show ?thesis by (simp only: gauges_declared_def)
  qed
  moreover have "\<exists>r'. packageInit register r = Ret r' \<and> names r' = names r \<union> md_Name ` set spreadMetrics"
    unfolding packageInit_eq by (rule MustRegister_Ret [OF assms(1) spreadMetrics_valid assms(2)])
  ultimately show ?thesis using PreFilter_increments Filter_increments by (intro conjI allI impI) auto
qed

text \<open>A registry that refuses invalid descriptors and names that are taken.\<close>

definition simpleRegister :: "metricDesc list \<Rightarrow> metricDesc \<Rightarrow> string + metricDesc list" where
  "simpleRegister r d =
     (if \<not> validDesc d then Inl ''descriptor is invalid''
      else if md_Name d \<in> md_Name ` set r then Inl ''duplicate metrics collector registration attempted'' else Inr (d # r))"

lemma simpleRegister_laws: "registry_laws simpleRegister (\<lambda>r. md_Name ` set r)"
  by (simp add: registry_laws_def simpleRegister_def)

theorem metrics_never_panic_witness:
  "\<exists>r'. packageInit simpleRegister [] = Ret r' \<and> ''service_spread_node_pods'' \<in> md_Name ` set r'"
proof -
  have "md_Name ` set [] \<inter> md_Name ` set spreadMetrics = {}" by simp
  from metrics_never_panic [OF simpleRegister_laws this, THEN conjunct1] obtain r'
    where "packageInit simpleRegister [] = Ret r'" "md_Name ` set r' = md_Name ` set spreadMetrics" by auto
  then show ?thesis by (auto simp: spreadMetrics_def nodePodsGauge_def)
qed

text \<open>A node that lost its last pod of a service stays on display: the debug gauge of a node is set only while the node has pods, and
  no label values are ever removed.\<close>

theorem node_pods_gauge_never_drains:
  assumes "node \<notin> fst ` set (se_NodePods s)"
  shows "mget (exportOne s g) (''service_spread_node_pods'', [ns, svc, d, node]) = mget g (''service_spread_node_pods'', [ns, svc, d, node])"
proof -
  let ?k = "(''service_spread_node_pods'', [ns, svc, d, node])"
  have "mget (fold (\<lambda>e. setGauge ''service_spread_node_pods'' (l @ [fst e]) (v e)) es h) ?k = mget h ?k"
    if "node \<notin> fst ` set es" and "length l = 3" for l es and v :: "string \<times> int32 \<Rightarrow> int" and h
    using that by (induction es arbitrary: h) (auto simp: setGauge_def)
  from this [of "se_NodePods s" "[se_Namespace s, se_Service s, se_Domain s]"] assms show ?thesis
    by (simp add: exportOne_def Let_def fold_setGauge_other setGauge_other)
qed

end
