(* ===== verification/Deep_Copy.thy ===== *)
theory Deep_Copy
  imports K8s_Api
begin

section \<open>Generated deep copies\<close>

text \<open>
  The two \<open>zz_generated.deepcopy.go\<close> files over an explicit heap, because what they promise is about aliasing: a copy has the same value and shares no
  memory with its original. Pointers are addresses of one address space; a slice of policies is a range of addresses. The structs
  of \<open>k8s.io/apimachinery\<close> (\<open>ObjectMeta\<close>, \<open>ListMeta\<close>, \<open>LabelSelector\<close>) and the memory they refer to are type parameters, and their \<open>DeepCopyInto\<close> functions are the
  record \<open>copyLib\<close>; that they are deep copies themselves is the hypothesis \<open>deep_copier\<close>, the contract that the generated functions are
  shown to fulfil in turn.
\<close>

subsection \<open>The contract of a deep copy\<close>

text \<open>\<open>free\<close> is the first address that was never allocated, \<open>same A\<close> says that two heaps have the same contents at the addresses in \<open>A\<close>,
  \<open>view\<close> is the value that a representation stands for in a heap, and \<open>foot\<close> are the addresses it depends on.\<close>

type_synonym addr = nat

locale address_space =
  fixes free :: "'h \<Rightarrow> addr"
    and same :: "addr set \<Rightarrow> 'h \<Rightarrow> 'h \<Rightarrow> bool"
  assumes same_refl: "same A h h"
    and same_mono: "same B h h' \<Longrightarrow> A \<subseteq> B \<Longrightarrow> same A h h'"
    and same_trans: "same A h h' \<Longrightarrow> same A h' h'' \<Longrightarrow> same A h h''"

locale deep_copier = address_space free same
  for free :: "'h \<Rightarrow> addr" and same :: "addr set \<Rightarrow> 'h \<Rightarrow> 'h \<Rightarrow> bool" +
  fixes copy :: "'v \<Rightarrow> 'h \<Rightarrow> 'v \<times> 'h"
    and view :: "'h \<Rightarrow> 'v \<Rightarrow> 'a"
    and foot :: "'h \<Rightarrow> 'v \<Rightarrow> addr set"
  assumes copied: "foot h v \<subseteq> {..<free h} \<Longrightarrow> copy v h = (v', h') \<Longrightarrow>
      view h' v' = view h v \<and> foot h' v' \<subseteq> {free h..<free h'} \<and> free h \<le> free h' \<and> same {..<free h} h h'"
    and framed: "same (foot h v) h h' \<Longrightarrow> view h' v = view h v \<and> foot h' v = foot h v"
begin

text \<open>A copy is equal to its original, shares nothing with it, and neither can be changed through the other.\<close>

lemma independent:
  assumes "foot h v \<subseteq> {..<free h}" and "copy v h = (v', h')"
  shows "view h' v' = view h v" and "view h' v = view h v" and "foot h' v' \<inter> foot h' v = {}"
    and "same (- foot h' v') h' h'' \<Longrightarrow> view h'' v = view h v"
    and "same (- foot h' v) h' h'' \<Longrightarrow> view h'' v' = view h v"
proof -
  have c: "view h' v' = view h v" "foot h' v' \<subseteq> {free h..<free h'}" "same {..<free h} h h'" using copied [OF assms] by simp_all
  have old: "view h' v = view h v" "foot h' v = foot h v" using framed [OF same_mono [OF c(3) assms(1)]] by simp_all
  have disj: "foot h' v' \<inter> foot h' v = {}" using c(2) assms(1) old(2) by force
  show "view h' v' = view h v" "view h' v = view h v" "foot h' v' \<inter> foot h' v = {}" by (fact c old disj)+
  show "view h'' v = view h v" if "same (- foot h' v') h' h''"
  proof -
    have "foot h' v \<subseteq> - foot h' v'" using disj by blast
    with framed [OF same_mono [OF that this]] old show ?thesis by simp
  qed
  show "view h'' v' = view h v" if "same (- foot h' v) h' h''"
  proof -
    have "foot h' v' \<subseteq> - foot h' v" using disj by blast
    with framed [OF same_mono [OF that this]] c show ?thesis by simp
  qed
qed

end

subsection \<open>Deep copies of composed data\<close>

text \<open>Data without pointers, pairs copied one after the other, structs with parts that need copying, and pointers that may be nil.\<close>

definition copyFlat :: "'v \<Rightarrow> 'h \<Rightarrow> 'v \<times> 'h" where
  "copyFlat v h = (v, h)"

definition copyPair :: "('v \<Rightarrow> 'h \<Rightarrow> 'v \<times> 'h) \<Rightarrow> ('w \<Rightarrow> 'h \<Rightarrow> 'w \<times> 'h) \<Rightarrow> 'v \<times> 'w \<Rightarrow> 'h \<Rightarrow> ('v \<times> 'w) \<times> 'h" where
  "copyPair f g p h = (let (v, h1) = f (fst p) h; (w, h2) = g (snd p) h1 in ((v, w), h2))"

definition copyStruct :: "('v \<Rightarrow> 'w) \<Rightarrow> ('w \<Rightarrow> 'v \<Rightarrow> 'v) \<Rightarrow> ('w \<Rightarrow> 'h \<Rightarrow> 'w \<times> 'h) \<Rightarrow> 'v \<Rightarrow> 'h \<Rightarrow> 'v \<times> 'h" where
  "copyStruct get put f v h = (let (w, h') = f (get v) h in (put w v, h'))"

definition copyNil :: "('v \<Rightarrow> 'h \<Rightarrow> 'v \<times> 'h) \<Rightarrow> 'v option \<Rightarrow> 'h \<Rightarrow> 'v option \<times> 'h" where
  "copyNil f p h = (case p of None \<Rightarrow> (None, h) | Some v \<Rightarrow> (let (v', h') = f v h in (Some v', h')))"

context address_space begin

lemma flat_copier: "deep_copier free same copyFlat (\<lambda>h v. v) (\<lambda>h v. {})"
  by unfold_locales (auto simp: copyFlat_def same_refl)

lemma pair_copier:
  assumes "deep_copier free same f vf ff" and "deep_copier free same g vg fg"
  shows "deep_copier free same (copyPair f g) (\<lambda>h p. (vf h (fst p), vg h (snd p))) (\<lambda>h p. ff h (fst p) \<union> fg h (snd p))"
proof unfold_locales
  note F = deep_copier.copied [OF assms(1)] deep_copier.framed [OF assms(1)]
  note G = deep_copier.copied [OF assms(2)] deep_copier.framed [OF assms(2)]
  show "(vf h' (fst p), vg h' (snd p)) = (vf h (fst p), vg h (snd p)) \<and> ff h' (fst p) \<union> fg h' (snd p) = ff h (fst p) \<union> fg h (snd p)"
    if "same (ff h (fst p) \<union> fg h (snd p)) h h'" for h h' p
    using F(2) [of h "fst p" h'] G(2) [of h "snd p" h'] same_mono [OF that] by simp
  show "(vf h2 (fst p'), vg h2 (snd p')) = (vf h (fst p), vg h (snd p)) \<and> ff h2 (fst p') \<union> fg h2 (snd p') \<subseteq> {free h..<free h2} \<and>
      free h \<le> free h2 \<and> same {..<free h} h h2"
    if foot: "ff h (fst p) \<union> fg h (snd p) \<subseteq> {..<free h}" and run: "copyPair f g p h = (p', h2)" for h p p' h2
  proof -
    obtain v w h1 where f: "f (fst p) h = (v, h1)" and g: "g (snd p) h1 = (w, h2)" and p': "p' = (v, w)"
      using run by (auto simp: copyPair_def split: prod.splits)
    have f': "vf h1 v = vf h (fst p)" "ff h1 v \<subseteq> {free h..<free h1}" "free h \<le> free h1" "same {..<free h} h h1"
      using F(1) [OF _ f] foot by simp_all
    have w: "vg h1 (snd p) = vg h (snd p)" "fg h1 (snd p) = fg h (snd p)" using G(2) [of h "snd p" h1] same_mono [OF f'(4)] foot by blast+
    have g': "vg h2 w = vg h1 (snd p)" "fg h2 w \<subseteq> {free h1..<free h2}" "free h1 \<le> free h2" "same {..<free h1} h1 h2"
      using G(1) [OF _ g] foot w(2) f'(3) by fastforce+
    have "same (ff h1 v) h1 h2" using f'(2) by (intro same_mono [OF g'(4)]) auto
    then have v: "vf h2 v = vf h1 v" "ff h2 v = ff h1 v" using F(2) by blast+
    have "same {..<free h} h1 h2" using f'(3) by (intro same_mono [OF g'(4)]) auto
    then have "same {..<free h} h h2" by (rule same_trans [OF f'(4)])
    with f' g' v w p' show ?thesis by fastforce
  qed
qed

lemma struct_copier:
  assumes "deep_copier free same f vf ff" and "\<And>w v. get (put w v) = w" and "\<And>w v a. build (put w v) a = build v a"
  shows "deep_copier free same (copyStruct get put f) (\<lambda>h v. build v (vf h (get v))) (\<lambda>h v. ff h (get v))"
proof unfold_locales
  note F = deep_copier.copied [OF assms(1)] deep_copier.framed [OF assms(1)]
  show "build v (vf h' (get v)) = build v (vf h (get v)) \<and> ff h' (get v) = ff h (get v)" if "same (ff h (get v)) h h'" for h h' v
    using F(2) [OF that] by simp
  show "build v' (vf h' (get v')) = build v (vf h (get v)) \<and> ff h' (get v') \<subseteq> {free h..<free h'} \<and> free h \<le> free h' \<and> same {..<free h} h h'"
    if foot: "ff h (get v) \<subseteq> {..<free h}" and run: "copyStruct get put f v h = (v', h')" for h v v' h'
  proof -
    obtain w where "f (get v) h = (w, h')" "v' = put w v" using run by (auto simp: copyStruct_def split: prod.splits)
    with F(1) [OF foot] show ?thesis by (simp add: assms(2,3))
  qed
qed

lemma nil_copier:
  assumes "deep_copier free same f vf ff"
  shows "deep_copier free same (copyNil f) (\<lambda>h. map_option (vf h)) (\<lambda>h p. case p of None \<Rightarrow> {} | Some v \<Rightarrow> ff h v)"
proof unfold_locales
  note F = deep_copier.copied [OF assms] deep_copier.framed [OF assms]
  show "map_option (vf h') p = map_option (vf h) p \<and> (case p of None \<Rightarrow> {} | Some v \<Rightarrow> ff h' v) = (case p of None \<Rightarrow> {} | Some v \<Rightarrow> ff h v)"
    if "same (case p of None \<Rightarrow> {} | Some v \<Rightarrow> ff h v) h h'" for h h' p
    using that F(2) by (cases p) auto
  show "map_option (vf h') p' = map_option (vf h) p \<and> (case p' of None \<Rightarrow> {} | Some v \<Rightarrow> ff h' v) \<subseteq> {free h..<free h'} \<and>
      free h \<le> free h' \<and> same {..<free h} h h'"
    if foot: "(case p of None \<Rightarrow> {} | Some v \<Rightarrow> ff h v) \<subseteq> {..<free h}" and run: "copyNil f p h = (p', h')" for h p p' h'
  proof (cases p)
    case None
    with run show ?thesis by (simp add: copyNil_def same_refl)
  next
    case (Some v)
    obtain v' where "f v h = (v', h')" "p' = Some v'" using run Some by (auto simp: copyNil_def split: prod.splits)
    with F(1) [of h v v' h'] foot Some show ?thesis by simp
  qed
qed

end

subsection \<open>Pointers and slices\<close>

text \<open>Cells of one type: allocation, reading and writing. \<open>copyNew\<close> is \<open>new\<close> and a copy into it, \<open>copySlice\<close> is \<open>make\<close> and a copy of every element.\<close>

definition copyNew :: "('h \<Rightarrow> addr) \<Rightarrow> (nat \<Rightarrow> 'h \<Rightarrow> 'h) \<Rightarrow> ('h \<Rightarrow> addr \<Rightarrow> 'v) \<Rightarrow> (addr \<Rightarrow> 'v \<Rightarrow> 'h \<Rightarrow> 'h) \<Rightarrow> ('v \<Rightarrow> 'h \<Rightarrow> 'v \<times> 'h) \<Rightarrow>
    addr \<Rightarrow> 'h \<Rightarrow> addr \<times> 'h" where
  "copyNew free alloc load store f a h = (let (v, h') = f (load h a) (alloc 1 h) in (free h, store (free h) v h'))"

primrec copyLoop :: "('h \<Rightarrow> addr \<Rightarrow> 'v) \<Rightarrow> (addr \<Rightarrow> 'v \<Rightarrow> 'h \<Rightarrow> 'h) \<Rightarrow> ('v \<Rightarrow> 'h \<Rightarrow> 'v \<times> 'h) \<Rightarrow> addr \<Rightarrow> addr \<Rightarrow> nat list \<Rightarrow> 'h \<Rightarrow> 'h" where
  "copyLoop load store f a b [] h = h"
| "copyLoop load store f a b (i # is) h = (let (v, h') = f (load h (a + i)) h in copyLoop load store f a b is (store (b + i) v h'))"

definition copySlice :: "('h \<Rightarrow> addr) \<Rightarrow> (nat \<Rightarrow> 'h \<Rightarrow> 'h) \<Rightarrow> ('h \<Rightarrow> addr \<Rightarrow> 'v) \<Rightarrow> (addr \<Rightarrow> 'v \<Rightarrow> 'h \<Rightarrow> 'h) \<Rightarrow> ('v \<Rightarrow> 'h \<Rightarrow> 'v \<times> 'h) \<Rightarrow>
    addr \<times> nat \<Rightarrow> 'h \<Rightarrow> (addr \<times> nat) \<times> 'h" where
  "copySlice free alloc load store f s h = ((free h, snd s), copyLoop load store f (fst s) (free h) [0..<snd s] (alloc (snd s) h))"

lemma copyLoop_append: "copyLoop load store f a b (is @ js) h = copyLoop load store f a b js (copyLoop load store f a b is h)"
  by (induction "is" arbitrary: h) (simp_all split: prod.split)

locale typed_memory = address_space free same
  for free :: "'h \<Rightarrow> addr" and same :: "addr set \<Rightarrow> 'h \<Rightarrow> 'h \<Rightarrow> bool" +
  fixes alloc :: "nat \<Rightarrow> 'h \<Rightarrow> 'h"
    and load :: "'h \<Rightarrow> addr \<Rightarrow> 'v"
    and store :: "addr \<Rightarrow> 'v \<Rightarrow> 'h \<Rightarrow> 'h"
  assumes free_alloc: "free (alloc n h) = free h + n"
    and same_alloc: "same A h (alloc n h)"
    and free_store: "free (store a v h) = free h"
    and same_store: "a \<notin> A \<Longrightarrow> same A h (store a v h)"
    and load_store: "load (store a v h) a = v"
    and load_same: "same A h h' \<Longrightarrow> a \<in> A \<Longrightarrow> load h' a = load h a"
begin

lemma new_copier:
  assumes "deep_copier free same f vf ff"
  shows "deep_copier free same (copyNew free alloc load store f) (\<lambda>h a. vf h (load h a)) (\<lambda>h a. insert a (ff h (load h a)))"
proof unfold_locales
  note F = deep_copier.copied [OF assms] deep_copier.framed [OF assms]
  show "vf h' (load h' a) = vf h (load h a) \<and> insert a (ff h' (load h' a)) = insert a (ff h (load h a))"
    if "same (insert a (ff h (load h a))) h h'" for h h' a
    using F(2) [of h "load h a" h'] same_mono [OF that] load_same [OF that, of a] by (simp add: subset_insertI)
  show "vf h' (load h' b) = vf h (load h a) \<and> insert b (ff h' (load h' b)) \<subseteq> {free h..<free h'} \<and> free h \<le> free h' \<and> same {..<free h} h h'"
    if foot: "insert a (ff h (load h a)) \<subseteq> {..<free h}" and run: "copyNew free alloc load store f a h = (b, h')" for h a b h'
  proof -
    obtain v h1 where f: "f (load h a) (alloc 1 h) = (v, h1)" and b: "b = free h" and h': "h' = store b v h1"
      using run by (auto simp: copyNew_def split: prod.splits)
    have a: "vf (alloc 1 h) w = vf h w" "ff (alloc 1 h) w = ff h w" for w using F(2) [OF same_alloc] by blast+
    have "ff (alloc 1 h) (load h a) \<subseteq> {..<free (alloc 1 h)}" using foot a(2) by (auto simp: free_alloc)
    from F(1) [OF this f] have f': "vf h1 v = vf h (load h a)" "ff h1 v \<subseteq> {Suc (free h)..<free h1}" "Suc (free h) \<le> free h1"
      "same {..<Suc (free h)} (alloc 1 h) h1" by (simp_all add: a [simplified] free_alloc)
    have "same (ff h1 v) h1 h'" unfolding h' b using f'(2) by (intro same_store) auto
    then have v: "vf h' v = vf h1 v" "ff h' v = ff h1 v" using F(2) by blast+
    have "same {..<free h} (alloc 1 h) h1" by (rule same_mono [OF f'(4)]) auto
    moreover have "same {..<free h} h1 h'" unfolding h' b by (intro same_store) auto
    ultimately have "same {..<free h} h h'" using same_trans same_alloc by blast
    moreover have "load h' b = v" "free h' = free h1" unfolding h' by (simp_all add: load_store free_store)
    ultimately show ?thesis using f' v b by auto
  qed
qed

lemma loop_copies:
  assumes "deep_copier free same f vf ff" and "free h = b + n" and "\<And>i. i < n \<Longrightarrow> a + i < b \<and> ff h (load h (a + i)) \<subseteq> {..<b}"
    and "k \<le> n" and "hk = copyLoop load store f a b [0..<k] h"
  shows "free h \<le> free hk \<and> same {..<b} h hk \<and>
    (\<forall>i<k. vf hk (load hk (b + i)) = vf h (load h (a + i)) \<and> ff hk (load hk (b + i)) \<subseteq> {free h..<free hk})"
  using assms(4,5)
proof (induction k arbitrary: hk)
  case 0
  then show ?case by (simp add: same_refl)
next
  case (Suc k)
  note F = deep_copier.copied [OF assms(1)] deep_copier.framed [OF assms(1)]
  define hj where "hj = copyLoop load store f a b [0..<k] h"
  have IH: "free h \<le> free hj" "same {..<b} h hj"
    "\<And>i. i < k \<Longrightarrow> vf hj (load hj (b + i)) = vf h (load h (a + i)) \<and> ff hj (load hj (b + i)) \<subseteq> {free h..<free hj}"
    using Suc.IH [OF _ hj_def] Suc.prems(1) by simp_all
  have k: "a + k < b" "ff h (load h (a + k)) \<subseteq> {..<b}" "k < n" using assms(3) [of k] Suc.prems(1) by simp_all
  have src: "load hj (a + k) = load h (a + k)" using load_same [OF IH(2)] k by simp
  have foot: "vf hj (load hj (a + k)) = vf h (load h (a + k))" "ff hj (load hj (a + k)) \<subseteq> {..<b}"
    using F(2) [OF same_mono [OF IH(2) k(2)]] k(2) src by simp_all
  obtain v h1 where f: "f (load hj (a + k)) hj = (v, h1)" by fastforce
  have hk: "hk = store (b + k) v h1" unfolding Suc.prems(2) by (simp add: copyLoop_append hj_def [symmetric] f)
  have "ff hj (load hj (a + k)) \<subseteq> {..<free hj}" using foot(2) IH(1) assms(2) by auto
  from F(1) [OF this f] have f': "vf h1 v = vf h (load h (a + k))" "ff h1 v \<subseteq> {free hj..<free h1}" "free hj \<le> free h1" "same {..<free hj} hj h1"
    by (simp_all add: foot)
  have free: "free hk = free h1" by (simp add: hk free_store)
  have step: "same (A - {b + k}) hj hk" if "A \<subseteq> {..<free hj}" for A
  proof (rule same_trans)
    show "same (A - {b + k}) hj h1" using that by (intro same_mono [OF f'(4)]) auto
    show "same (A - {b + k}) h1 hk" unfolding hk by (rule same_store) simp
  qed
  have "{..<b} - {b + k} = {..<b}" "{..<b} \<subseteq> {..<free hj}" using IH(1) assms(2) by auto
  with step [of "{..<b}"] have "same {..<b} hj hk" by simp
  then have "same {..<b} h hk" by (rule same_trans [OF IH(2)])
  moreover have "vf hk (load hk (b + i)) = vf h (load h (a + i)) \<and> ff hk (load hk (b + i)) \<subseteq> {free h..<free hk}" if "i < Suc k" for i
  proof (cases "i = k")
    case True
    have "b + k \<notin> ff h1 v" using f'(2) IH(1) assms(2) k by auto
    then have "same (ff h1 v) h1 hk" unfolding hk by (rule same_store)
    with F(2) have "vf hk v = vf h1 v" "ff hk v = ff h1 v" by blast+
    moreover have "load hk (b + k) = v" unfolding hk by (rule load_store)
    ultimately show ?thesis using True f' IH(1) free by auto
  next
    case False
    with that have i: "i < k" by simp
    have "same ({b + i} - {b + k}) hj hk" using i k IH(1) assms(2) by (intro step) auto
    then have l: "load hk (b + i) = load hj (b + i)" using i by (intro load_same) auto
    have "ff hj (load hj (b + i)) - {b + k} = ff hj (load hj (b + i))" using IH(3) [OF i] k assms(2) by auto
    moreover have "ff hj (load hj (b + i)) \<subseteq> {..<free hj}" using IH(3) [OF i] by auto
    ultimately have "same (ff hj (load hj (b + i))) hj hk" using step [of "ff hj (load hj (b + i))"] by simp
    with F(2) l IH(3) [OF i] f'(3) free show ?thesis by fastforce
  qed
  ultimately show ?case using IH(1) f'(3) free by simp
qed

lemma slice_copier:
  assumes "deep_copier free same f vf ff"
  shows "deep_copier free same (copySlice free alloc load store f) (\<lambda>h s. map (\<lambda>i. vf h (load h (fst s + i))) [0..<snd s])
    (\<lambda>h s. {fst s..<fst s + snd s} \<union> (\<Union>i\<in>{..<snd s}. ff h (load h (fst s + i))))"
    (is "deep_copier free same _ ?view ?foot")
proof unfold_locales
  note F = deep_copier.copied [OF assms] deep_copier.framed [OF assms]
  show "?view h' s = ?view h s \<and> ?foot h' s = ?foot h s" if "same (?foot h s) h h'" for h h' s
  proof -
    have "load h' (fst s + i) = load h (fst s + i) \<and> vf h' (load h (fst s + i)) = vf h (load h (fst s + i)) \<and>
        ff h' (load h (fst s + i)) = ff h (load h (fst s + i))" if "i < snd s" for i
    proof -
      have "ff h (load h (fst s + i)) \<subseteq> ?foot h s" using that by blast
      with F(2) [OF same_mono [OF \<open>same (?foot h s) h h'\<close> this]] load_same [OF \<open>same (?foot h s) h h'\<close>, of "fst s + i"] that
      show ?thesis by simp
    qed
    then show ?thesis by auto
  qed
  show "?view h' s' = ?view h s \<and> ?foot h' s' \<subseteq> {free h..<free h'} \<and> free h \<le> free h' \<and> same {..<free h} h h'"
    if foot: "?foot h s \<subseteq> {..<free h}" and run: "copySlice free alloc load store f s h = (s', h')" for h s s' h'
  proof -
    let ?h = "alloc (snd s) h"
    have s': "s' = (free h, snd s)" and h': "h' = copyLoop load store f (fst s) (free h) [0..<snd s] ?h" using run by (simp_all add: copySlice_def)
    have src: "load ?h (fst s + i) = load h (fst s + i)" for i by (rule load_same [OF same_alloc UNIV_I])
    have old: "vf ?h v = vf h v" "ff ?h v = ff h v" for v using F(2) [OF same_alloc] by blast+
    have elems: "fst s + i < free h \<and> ff ?h (load ?h (fst s + i)) \<subseteq> {..<free h}" if "i < snd s" for i
    proof -
      have "fst s + i \<in> ?foot h s" using that by simp
      then have "fst s + i < free h" using foot by blast
      moreover have "ff h (load h (fst s + i)) \<subseteq> {..<free h}" using foot that by blast
      ultimately show ?thesis by (simp add: src old)
    qed
    note loop = loop_copies [OF assms free_alloc elems order_refl h']
    moreover have "same {..<free h} h h'" using same_trans [OF same_alloc] loop by blast
    ultimately show ?thesis by (fastforce simp: s' src old free_alloc)
  qed
qed

end

subsection \<open>The structs and the heap\<close>

text \<open>The structs as they lie in memory. \<open>'m\<close>, \<open>'l\<close> and \<open>'s\<close> stand for \<open>metav1.ObjectMeta\<close>, \<open>metav1.ListMeta\<close> and \<open>metav1.LabelSelector\<close>; the same records with the values that
  these stand for are the values of the structs. A nil slice is \<open>None\<close>.\<close>

record 's specStruct =
  spec_SchedulerName :: string
  spec_ServiceSelector :: 's
  spec_MaxSkew :: int32
  spec_MaxPodsPerNode :: int32

record ('m, 's) policyStruct =
  policy_TypeMeta :: "string \<times> string"
  policy_ObjectMeta :: 'm
  policy_Spec :: "'s specStruct"

record ('l, 'i) ServiceSpreadPolicyList =
  list_TypeMeta :: "string \<times> string"
  list_ListMeta :: 'l
  list_Items :: "'i option"

record 'b argsStruct =
  ags_TypeMeta :: "string \<times> string"
  ags_ServiceLabelKey :: string
  ags_RequirePolicy :: "'b option"
  ags_ManagedSchedulerName :: string
  ags_FallbackCacheTTL :: duration
  ags_ReservationTTL :: duration
  ags_ReconcilePeriod :: duration
  ags_ExportNodePods :: "'b option"
  ags_ExportTargetDetail :: "'b option"

text \<open>The heap has cells of the program's types and, in \<open>h_cell\<close>, the memory of the library's structs.\<close>

record ('m, 'l, 's, 'c) heap =
  h_free :: addr
  h_bool :: "addr \<Rightarrow> bool"
  h_spec :: "addr \<Rightarrow> 's specStruct"
  h_policy :: "addr \<Rightarrow> ('m, 's) policyStruct"
  h_list :: "addr \<Rightarrow> ('l, addr \<times> nat) ServiceSpreadPolicyList"
  h_args :: "addr \<Rightarrow> addr argsStruct"
  h_cell :: "addr \<Rightarrow> 'c"

definition sameHeap :: "addr set \<Rightarrow> ('m, 'l, 's, 'c) heap \<Rightarrow> ('m, 'l, 's, 'c) heap \<Rightarrow> bool" where
  "sameHeap A h h' \<longleftrightarrow> (\<forall>a\<in>A. h_bool h' a = h_bool h a \<and> h_spec h' a = h_spec h a \<and> h_policy h' a = h_policy h a \<and>
     h_list h' a = h_list h a \<and> h_args h' a = h_args h a \<and> h_cell h' a = h_cell h a)"

text \<open>\<open>new\<close> and \<open>make\<close>. The zero values are not written, because every allocation of these functions is overwritten at once.\<close>

definition allocate :: "nat \<Rightarrow> ('m, 'l, 's, 'c) heap \<Rightarrow> ('m, 'l, 's, 'c) heap" where
  "allocate n h = h\<lparr>h_free := h_free h + n\<rparr>"

definition setBool :: "addr \<Rightarrow> bool \<Rightarrow> ('m, 'l, 's, 'c) heap \<Rightarrow> ('m, 'l, 's, 'c) heap" where
  "setBool a v h = h\<lparr>h_bool := (h_bool h)(a := v)\<rparr>"

definition setSpec :: "addr \<Rightarrow> 's specStruct \<Rightarrow> ('m, 'l, 's, 'c) heap \<Rightarrow> ('m, 'l, 's, 'c) heap" where
  "setSpec a v h = h\<lparr>h_spec := (h_spec h)(a := v)\<rparr>"

definition setPolicy :: "addr \<Rightarrow> ('m, 's) policyStruct \<Rightarrow> ('m, 'l, 's, 'c) heap \<Rightarrow> ('m, 'l, 's, 'c) heap" where
  "setPolicy a v h = h\<lparr>h_policy := (h_policy h)(a := v)\<rparr>"

definition setList :: "addr \<Rightarrow> ('l, addr \<times> nat) ServiceSpreadPolicyList \<Rightarrow> ('m, 'l, 's, 'c) heap \<Rightarrow> ('m, 'l, 's, 'c) heap" where
  "setList a v h = h\<lparr>h_list := (h_list h)(a := v)\<rparr>"

definition setArgs :: "addr \<Rightarrow> addr argsStruct \<Rightarrow> ('m, 'l, 's, 'c) heap \<Rightarrow> ('m, 'l, 's, 'c) heap" where
  "setArgs a v h = h\<lparr>h_args := (h_args h)(a := v)\<rparr>"

interpretation heap: address_space h_free sameHeap
  by unfold_locales (auto simp: sameHeap_def)

interpretation bool_cells: typed_memory h_free sameHeap allocate h_bool setBool
  by unfold_locales (auto simp: sameHeap_def allocate_def setBool_def)

interpretation spec_cells: typed_memory h_free sameHeap allocate h_spec setSpec
  by unfold_locales (auto simp: sameHeap_def allocate_def setSpec_def)

interpretation policy_cells: typed_memory h_free sameHeap allocate h_policy setPolicy
  by unfold_locales (auto simp: sameHeap_def allocate_def setPolicy_def)

interpretation list_cells: typed_memory h_free sameHeap allocate h_list setList
  by unfold_locales (auto simp: sameHeap_def allocate_def setList_def)

interpretation args_cells: typed_memory h_free sameHeap allocate h_args setArgs
  by unfold_locales (auto simp: sameHeap_def allocate_def setArgs_def)

subsection \<open>The library's copies\<close>

text \<open>\<open>DeepCopyInto\<close> of a library struct, from a representation and the library's memory (with the first address never allocated) to the
  representation that is written and the new memory.\<close>

type_synonym 'c cells = "addr \<times> (addr \<Rightarrow> 'c)"

record ('m, 'l, 's, 'c) copyLib =
  cl_ObjectMeta :: "'m \<Rightarrow> 'c cells \<Rightarrow> 'm \<times> 'c cells"
  cl_ListMeta :: "'l \<Rightarrow> 'c cells \<Rightarrow> 'l \<times> 'c cells"
  cl_LabelSelector :: "'s \<Rightarrow> 'c cells \<Rightarrow> 's \<times> 'c cells"

definition sameCells :: "addr set \<Rightarrow> 'c cells \<Rightarrow> 'c cells \<Rightarrow> bool" where
  "sameCells A m m' \<longleftrightarrow> (\<forall>a\<in>A. snd m' a = snd m a)"

definition cellsOf :: "('m, 'l, 's, 'c) heap \<Rightarrow> 'c cells" where
  "cellsOf h = (h_free h, h_cell h)"

definition onCells :: "('v \<Rightarrow> 'c cells \<Rightarrow> 'v \<times> 'c cells) \<Rightarrow> 'v \<Rightarrow> ('m, 'l, 's, 'c) heap \<Rightarrow> 'v \<times> ('m, 'l, 's, 'c) heap" where
  "onCells f v h = (let (v', m) = f v (cellsOf h) in (v', h\<lparr>h_free := fst m, h_cell := snd m\<rparr>))"

interpretation cells: address_space fst sameCells
  by unfold_locales (auto simp: sameCells_def)

lemma onCells_copier:
  fixes ff :: "'c cells \<Rightarrow> 'v \<Rightarrow> addr set"
  assumes "deep_copier fst sameCells f vf ff"
  shows "deep_copier (h_free :: ('m, 'l, 's, 'c) heap \<Rightarrow> addr) sameHeap (onCells f) (\<lambda>h. vf (cellsOf h)) (\<lambda>h. ff (cellsOf h))"
proof unfold_locales
  note F = deep_copier.copied [OF assms] deep_copier.framed [OF assms]
  show "vf (cellsOf h') v = vf (cellsOf h) v \<and> ff (cellsOf h') v = ff (cellsOf h) v" if "sameHeap (ff (cellsOf h) v) h h'" for h h' :: "('m, 'l, 's, 'c) heap" and v
    using that by (intro F(2)) (simp add: sameHeap_def sameCells_def cellsOf_def)
  show "vf (cellsOf h') v' = vf (cellsOf h) v \<and> ff (cellsOf h') v' \<subseteq> {h_free h..<h_free h'} \<and> h_free h \<le> h_free h' \<and> sameHeap {..<h_free h} h h'"
    if foot: "ff (cellsOf h) v \<subseteq> {..<h_free h}" and run: "onCells f v h = (v', h')" for h h' :: "('m, 'l, 's, 'c) heap" and v v'
  proof -
    obtain m where f: "f v (cellsOf h) = (v', m)" and h': "h' = h\<lparr>h_free := fst m, h_cell := snd m\<rparr>"
      using run by (auto simp: onCells_def split: prod.splits)
    have "cellsOf h' = m" "fst (cellsOf h) = h_free h" by (simp_all add: h' cellsOf_def)
    with F(1) [OF _ f] foot h' show ?thesis by (simp add: sameHeap_def sameCells_def cellsOf_def)
  qed
qed

subsection \<open>The generated functions\<close>

text \<open>A \<open>*ServiceSpreadPolicySpec\<close> points to a spec of its own or to the field of a policy. The receivers and targets of \<open>DeepCopyInto\<close> are not nil.\<close>

datatype specPtr = SpecAt addr | SpecOf addr

definition loadSpec :: "specPtr \<Rightarrow> ('m, 'l, 's, 'c) heap \<Rightarrow> 's specStruct" where
  "loadSpec p h = (case p of SpecAt a \<Rightarrow> h_spec h a | SpecOf a \<Rightarrow> policy_Spec (h_policy h a))"

definition storeSpec :: "specPtr \<Rightarrow> 's specStruct \<Rightarrow> ('m, 'l, 's, 'c) heap \<Rightarrow> ('m, 'l, 's, 'c) heap" where
  "storeSpec p v h = (case p of SpecAt a \<Rightarrow> setSpec a v h | SpecOf a \<Rightarrow> setPolicy a ((h_policy h a)\<lparr>policy_Spec := v\<rparr>) h)"

definition ServiceSpreadPolicySpec_DeepCopyInto ::
    "('m, 'l, 's, 'c) copyLib \<Rightarrow> specPtr \<Rightarrow> specPtr \<Rightarrow> ('m, 'l, 's, 'c) heap \<Rightarrow> ('m, 'l, 's, 'c) heap" where
  "ServiceSpreadPolicySpec_DeepCopyInto L inp out h =
     (let h1 = storeSpec out (loadSpec inp h) h;
          (s, h2) = onCells (cl_LabelSelector L) (spec_ServiceSelector (loadSpec inp h1)) h1
      in storeSpec out ((loadSpec out h2)\<lparr>spec_ServiceSelector := s\<rparr>) h2)"

definition ServiceSpreadPolicySpec_DeepCopy ::
    "('m, 'l, 's, 'c) copyLib \<Rightarrow> addr option \<Rightarrow> ('m, 'l, 's, 'c) heap \<Rightarrow> addr option \<times> ('m, 'l, 's, 'c) heap" where
  "ServiceSpreadPolicySpec_DeepCopy L p h =
     (case p of
        None \<Rightarrow> (None, h)
      | Some a \<Rightarrow> (Some (h_free h), ServiceSpreadPolicySpec_DeepCopyInto L (SpecAt a) (SpecAt (h_free h)) (allocate 1 h)))"

definition ServiceSpreadPolicy_DeepCopyInto ::
    "('m, 'l, 's, 'c) copyLib \<Rightarrow> addr \<Rightarrow> addr \<Rightarrow> ('m, 'l, 's, 'c) heap \<Rightarrow> ('m, 'l, 's, 'c) heap" where
  "ServiceSpreadPolicy_DeepCopyInto L inp out h =
     (let h1 = setPolicy out (h_policy h inp) h;
          h2 = setPolicy out ((h_policy h1 out)\<lparr>policy_TypeMeta := policy_TypeMeta (h_policy h1 inp)\<rparr>) h1;
          (m, h3) = onCells (cl_ObjectMeta L) (policy_ObjectMeta (h_policy h2 inp)) h2;
          h4 = setPolicy out ((h_policy h3 out)\<lparr>policy_ObjectMeta := m\<rparr>) h3
      in ServiceSpreadPolicySpec_DeepCopyInto L (SpecOf inp) (SpecOf out) h4)"

definition ServiceSpreadPolicy_DeepCopy ::
    "('m, 'l, 's, 'c) copyLib \<Rightarrow> addr option \<Rightarrow> ('m, 'l, 's, 'c) heap \<Rightarrow> addr option \<times> ('m, 'l, 's, 'c) heap" where
  "ServiceSpreadPolicy_DeepCopy L p h =
     (case p of
        None \<Rightarrow> (None, h)
      | Some a \<Rightarrow> (Some (h_free h), ServiceSpreadPolicy_DeepCopyInto L a (h_free h) (allocate 1 h)))"

text \<open>A \<open>runtime.Object\<close> is nil or holds a pointer with its type; the pointer inside may be nil.\<close>

datatype runtimeObject = PolicyObject "addr option" | PolicyListObject "addr option" | ArgsObject "addr option"

definition ServiceSpreadPolicy_DeepCopyObject ::
    "('m, 'l, 's, 'c) copyLib \<Rightarrow> addr option \<Rightarrow> ('m, 'l, 's, 'c) heap \<Rightarrow> runtimeObject option \<times> ('m, 'l, 's, 'c) heap" where
  "ServiceSpreadPolicy_DeepCopyObject L p h =
     (let (c, h') = ServiceSpreadPolicy_DeepCopy L p h in (if c \<noteq> None then Some (PolicyObject c) else None, h'))"

primrec itemsLoop :: "('m, 'l, 's, 'c) copyLib \<Rightarrow> addr \<Rightarrow> addr \<Rightarrow> nat list \<Rightarrow> ('m, 'l, 's, 'c) heap \<Rightarrow> ('m, 'l, 's, 'c) heap" where
  "itemsLoop L inp out [] h = h"
| "itemsLoop L inp out (i # is) h = itemsLoop L inp out is (ServiceSpreadPolicy_DeepCopyInto L (inp + i) (out + i) h)"

definition ServiceSpreadPolicyList_DeepCopyInto ::
    "('m, 'l, 's, 'c) copyLib \<Rightarrow> addr \<Rightarrow> addr \<Rightarrow> ('m, 'l, 's, 'c) heap \<Rightarrow> ('m, 'l, 's, 'c) heap" where
  "ServiceSpreadPolicyList_DeepCopyInto L inp out h =
     (let h1 = setList out (h_list h inp) h;
          h2 = setList out ((h_list h1 out)\<lparr>list_TypeMeta := list_TypeMeta (h_list h1 inp)\<rparr>) h1;
          (m, h3) = onCells (cl_ListMeta L) (list_ListMeta (h_list h2 inp)) h2;
          h4 = setList out ((h_list h3 out)\<lparr>list_ListMeta := m\<rparr>) h3
      in case list_Items (h_list h4 inp) of
           None \<Rightarrow> h4
         | Some (items, n) \<Rightarrow>
             (let h5 = allocate n h4;
                  h6 = setList out ((h_list h5 out)\<lparr>list_Items := Some (h_free h4, n)\<rparr>) h5
              in itemsLoop L items (h_free h4) [0..<n] h6))"

definition ServiceSpreadPolicyList_DeepCopy ::
    "('m, 'l, 's, 'c) copyLib \<Rightarrow> addr option \<Rightarrow> ('m, 'l, 's, 'c) heap \<Rightarrow> addr option \<times> ('m, 'l, 's, 'c) heap" where
  "ServiceSpreadPolicyList_DeepCopy L p h =
     (case p of
        None \<Rightarrow> (None, h)
      | Some a \<Rightarrow> (Some (h_free h), ServiceSpreadPolicyList_DeepCopyInto L a (h_free h) (allocate 1 h)))"

definition ServiceSpreadPolicyList_DeepCopyObject ::
    "('m, 'l, 's, 'c) copyLib \<Rightarrow> addr option \<Rightarrow> ('m, 'l, 's, 'c) heap \<Rightarrow> runtimeObject option \<times> ('m, 'l, 's, 'c) heap" where
  "ServiceSpreadPolicyList_DeepCopyObject L p h =
     (let (c, h') = ServiceSpreadPolicyList_DeepCopy L p h in (if c \<noteq> None then Some (PolicyListObject c) else None, h'))"

text \<open>The block of one switch: \<open>if in.X != nil { *out = new(bool); **out = **in }\<close>.\<close>

definition copySwitch :: "(addr argsStruct \<Rightarrow> addr option) \<Rightarrow> (addr option \<Rightarrow> addr argsStruct \<Rightarrow> addr argsStruct) \<Rightarrow> addr \<Rightarrow> addr \<Rightarrow>
    ('m, 'l, 's, 'c) heap \<Rightarrow> ('m, 'l, 's, 'c) heap" where
  "copySwitch get put inp out h =
     (case get (h_args h inp) of
        None \<Rightarrow> h
      | Some p \<Rightarrow>
          (let h1 = allocate 1 h;
               h2 = setArgs out (put (Some (h_free h)) (h_args h1 out)) h1
           in setBool (h_free h) (h_bool h2 p) h2))"

definition ServiceSpreadArgs_DeepCopyInto :: "addr \<Rightarrow> addr \<Rightarrow> ('m, 'l, 's, 'c) heap \<Rightarrow> ('m, 'l, 's, 'c) heap" where
  "ServiceSpreadArgs_DeepCopyInto inp out h =
     (let h1 = setArgs out (h_args h inp) h;
          h2 = setArgs out ((h_args h1 out)\<lparr>ags_TypeMeta := ags_TypeMeta (h_args h1 inp)\<rparr>) h1;
          h3 = copySwitch ags_RequirePolicy (\<lambda>p v. v\<lparr>ags_RequirePolicy := p\<rparr>) inp out h2;
          h4 = copySwitch ags_ExportNodePods (\<lambda>p v. v\<lparr>ags_ExportNodePods := p\<rparr>) inp out h3;
          h5 = copySwitch ags_ExportTargetDetail (\<lambda>p v. v\<lparr>ags_ExportTargetDetail := p\<rparr>) inp out h4
      in setArgs out ((h_args h5 out)\<lparr>ags_FallbackCacheTTL := ags_FallbackCacheTTL (h_args h5 inp),
           ags_ReservationTTL := ags_ReservationTTL (h_args h5 inp), ags_ReconcilePeriod := ags_ReconcilePeriod (h_args h5 inp)\<rparr>) h5)"

definition ServiceSpreadArgs_DeepCopy :: "addr option \<Rightarrow> ('m, 'l, 's, 'c) heap \<Rightarrow> addr option \<times> ('m, 'l, 's, 'c) heap" where
  "ServiceSpreadArgs_DeepCopy p h =
     (case p of
        None \<Rightarrow> (None, h)
      | Some a \<Rightarrow> (Some (h_free h), ServiceSpreadArgs_DeepCopyInto a (h_free h) (allocate 1 h)))"

definition ServiceSpreadArgs_DeepCopyObject :: "addr option \<Rightarrow> ('m, 'l, 's, 'c) heap \<Rightarrow> runtimeObject option \<times> ('m, 'l, 's, 'c) heap" where
  "ServiceSpreadArgs_DeepCopyObject p h =
     (let (c, h') = ServiceSpreadArgs_DeepCopy p h in (if c \<noteq> None then Some (ArgsObject c) else None, h'))"

subsection \<open>What they copy\<close>

text \<open>The values of the structs and the addresses they depend on, given those of the library's structs.\<close>

definition specValue :: "'s specStruct \<Rightarrow> 't \<Rightarrow> 't specStruct" where
  "specValue v s = \<lparr>spec_SchedulerName = spec_SchedulerName v, spec_ServiceSelector = s, spec_MaxSkew = spec_MaxSkew v,
     spec_MaxPodsPerNode = spec_MaxPodsPerNode v\<rparr>"

definition policyValue :: "('m, 's) policyStruct \<Rightarrow> 'n \<times> 't specStruct \<Rightarrow> ('n, 't) policyStruct" where
  "policyValue v p = \<lparr>policy_TypeMeta = policy_TypeMeta v, policy_ObjectMeta = fst p, policy_Spec = snd p\<rparr>"

definition listValue :: "('l, 'i) ServiceSpreadPolicyList \<Rightarrow> 'k \<times> 'j option \<Rightarrow> ('k, 'j) ServiceSpreadPolicyList" where
  "listValue v p = \<lparr>list_TypeMeta = list_TypeMeta v, list_ListMeta = fst p, list_Items = snd p\<rparr>"

definition argsValue :: "'b argsStruct \<Rightarrow> 'd option \<times> 'd option \<times> 'd option \<Rightarrow> 'd argsStruct" where
  "argsValue v p = \<lparr>ags_TypeMeta = ags_TypeMeta v, ags_ServiceLabelKey = ags_ServiceLabelKey v, ags_RequirePolicy = fst p,
     ags_ManagedSchedulerName = ags_ManagedSchedulerName v, ags_FallbackCacheTTL = ags_FallbackCacheTTL v,
     ags_ReservationTTL = ags_ReservationTTL v, ags_ReconcilePeriod = ags_ReconcilePeriod v, ags_ExportNodePods = fst (snd p),
     ags_ExportTargetDetail = snd (snd p)\<rparr>"

definition viewSpec :: "('c cells \<Rightarrow> 's \<Rightarrow> 't) \<Rightarrow> ('m, 'l, 's, 'c) heap \<Rightarrow> 's specStruct \<Rightarrow> 't specStruct" where
  "viewSpec vs h v = specValue v (vs (cellsOf h) (spec_ServiceSelector v))"

definition footSpec :: "('c cells \<Rightarrow> 's \<Rightarrow> addr set) \<Rightarrow> ('m, 'l, 's, 'c) heap \<Rightarrow> 's specStruct \<Rightarrow> addr set" where
  "footSpec fs h v = fs (cellsOf h) (spec_ServiceSelector v)"

definition viewPolicy :: "('c cells \<Rightarrow> 'm \<Rightarrow> 'n) \<Rightarrow> ('c cells \<Rightarrow> 's \<Rightarrow> 't) \<Rightarrow> ('m, 'l, 's, 'c) heap \<Rightarrow> ('m, 's) policyStruct \<Rightarrow> ('n, 't) policyStruct" where
  "viewPolicy vm vs h v = policyValue v (vm (cellsOf h) (policy_ObjectMeta v), viewSpec vs h (policy_Spec v))"

definition footPolicy :: "('c cells \<Rightarrow> 'm \<Rightarrow> addr set) \<Rightarrow> ('c cells \<Rightarrow> 's \<Rightarrow> addr set) \<Rightarrow> ('m, 'l, 's, 'c) heap \<Rightarrow> ('m, 's) policyStruct \<Rightarrow> addr set" where
  "footPolicy fm fs h v = fm (cellsOf h) (policy_ObjectMeta v) \<union> footSpec fs h (policy_Spec v)"

definition viewItems :: "('c cells \<Rightarrow> 'm \<Rightarrow> 'n) \<Rightarrow> ('c cells \<Rightarrow> 's \<Rightarrow> 't) \<Rightarrow> ('m, 'l, 's, 'c) heap \<Rightarrow> addr \<times> nat \<Rightarrow> ('n, 't) policyStruct list" where
  "viewItems vm vs h s = map (\<lambda>i. viewPolicy vm vs h (h_policy h (fst s + i))) [0..<snd s]"

definition footItems :: "('c cells \<Rightarrow> 'm \<Rightarrow> addr set) \<Rightarrow> ('c cells \<Rightarrow> 's \<Rightarrow> addr set) \<Rightarrow> ('m, 'l, 's, 'c) heap \<Rightarrow> addr \<times> nat \<Rightarrow> addr set" where
  "footItems fm fs h s = {fst s..<fst s + snd s} \<union> (\<Union>i\<in>{..<snd s}. footPolicy fm fs h (h_policy h (fst s + i)))"

definition viewList :: "('c cells \<Rightarrow> 'm \<Rightarrow> 'n) \<Rightarrow> ('c cells \<Rightarrow> 'l \<Rightarrow> 'k) \<Rightarrow> ('c cells \<Rightarrow> 's \<Rightarrow> 't) \<Rightarrow> ('m, 'l, 's, 'c) heap \<Rightarrow>
    ('l, addr \<times> nat) ServiceSpreadPolicyList \<Rightarrow> ('k, ('n, 't) policyStruct list) ServiceSpreadPolicyList" where
  "viewList vm vl vs h v = listValue v (vl (cellsOf h) (list_ListMeta v), map_option (viewItems vm vs h) (list_Items v))"

definition footList :: "('c cells \<Rightarrow> 'm \<Rightarrow> addr set) \<Rightarrow> ('c cells \<Rightarrow> 'l \<Rightarrow> addr set) \<Rightarrow> ('c cells \<Rightarrow> 's \<Rightarrow> addr set) \<Rightarrow> ('m, 'l, 's, 'c) heap \<Rightarrow>
    ('l, addr \<times> nat) ServiceSpreadPolicyList \<Rightarrow> addr set" where
  "footList fm fl fs h v = fl (cellsOf h) (list_ListMeta v) \<union> (case list_Items v of None \<Rightarrow> {} | Some s \<Rightarrow> footItems fm fs h s)"

definition viewArgs :: "('m, 'l, 's, 'c) heap \<Rightarrow> addr argsStruct \<Rightarrow> bool argsStruct" where
  "viewArgs h v = argsValue v (map_option (h_bool h) (ags_RequirePolicy v), map_option (h_bool h) (ags_ExportNodePods v),
     map_option (h_bool h) (ags_ExportTargetDetail v))"

definition footArgs :: "('m, 'l, 's, 'c) heap \<Rightarrow> addr argsStruct \<Rightarrow> addr set" where
  "footArgs h v = set_option (ags_RequirePolicy v) \<union> set_option (ags_ExportNodePods v) \<union> set_option (ags_ExportTargetDetail v)"

text \<open>The generated functions as compositions of the copies above.\<close>

definition specCopier :: "('m, 'l, 's, 'c) copyLib \<Rightarrow> 's specStruct \<Rightarrow> ('m, 'l, 's, 'c) heap \<Rightarrow> 's specStruct \<times> ('m, 'l, 's, 'c) heap" where
  "specCopier L = copyStruct spec_ServiceSelector (\<lambda>s v. v\<lparr>spec_ServiceSelector := s\<rparr>) (onCells (cl_LabelSelector L))"

definition policyCopier :: "('m, 'l, 's, 'c) copyLib \<Rightarrow> ('m, 's) policyStruct \<Rightarrow> ('m, 'l, 's, 'c) heap \<Rightarrow> ('m, 's) policyStruct \<times> ('m, 'l, 's, 'c) heap" where
  "policyCopier L = copyStruct (\<lambda>v. (policy_ObjectMeta v, policy_Spec v)) (\<lambda>p v. v\<lparr>policy_ObjectMeta := fst p, policy_Spec := snd p\<rparr>)
     (copyPair (onCells (cl_ObjectMeta L)) (specCopier L))"

definition listCopier :: "('m, 'l, 's, 'c) copyLib \<Rightarrow> ('l, addr \<times> nat) ServiceSpreadPolicyList \<Rightarrow> ('m, 'l, 's, 'c) heap \<Rightarrow>
    ('l, addr \<times> nat) ServiceSpreadPolicyList \<times> ('m, 'l, 's, 'c) heap" where
  "listCopier L = copyStruct (\<lambda>v. (list_ListMeta v, list_Items v)) (\<lambda>p v. v\<lparr>list_ListMeta := fst p, list_Items := snd p\<rparr>)
     (copyPair (onCells (cl_ListMeta L)) (copyNil (copySlice h_free allocate h_policy setPolicy (policyCopier L))))"

definition boolCopier :: "addr option \<Rightarrow> ('m, 'l, 's, 'c) heap \<Rightarrow> addr option \<times> ('m, 'l, 's, 'c) heap" where
  "boolCopier = copyNil (copyNew h_free allocate h_bool setBool copyFlat)"

definition argsCopier :: "addr argsStruct \<Rightarrow> ('m, 'l, 's, 'c) heap \<Rightarrow> addr argsStruct \<times> ('m, 'l, 's, 'c) heap" where
  "argsCopier = copyStruct (\<lambda>v. (ags_RequirePolicy v, ags_ExportNodePods v, ags_ExportTargetDetail v))
     (\<lambda>p v. v\<lparr>ags_RequirePolicy := fst p, ags_ExportNodePods := fst (snd p), ags_ExportTargetDetail := snd (snd p)\<rparr>)
     (copyPair boolCopier (copyPair boolCopier boolCopier))"

lemma spec_copier:
  assumes "deep_copier fst sameCells (cl_LabelSelector L) vs fs"
  shows "deep_copier h_free sameHeap (specCopier L) (viewSpec vs) (footSpec fs)"
  unfolding specCopier_def viewSpec_def [abs_def] footSpec_def [abs_def]
  by (rule heap.struct_copier [OF onCells_copier [OF assms]]) (simp_all add: specValue_def)

lemma policy_copier:
  assumes "deep_copier fst sameCells (cl_ObjectMeta L) vm fm" and "deep_copier fst sameCells (cl_LabelSelector L) vs fs"
  shows "deep_copier h_free sameHeap (policyCopier L) (viewPolicy vm vs) (footPolicy fm fs)"
  using heap.struct_copier [OF heap.pair_copier [OF onCells_copier [OF assms(1)] spec_copier [OF assms(2)]],
      of "\<lambda>v. (policy_ObjectMeta v, policy_Spec v)" "\<lambda>p v. v\<lparr>policy_ObjectMeta := fst p, policy_Spec := snd p\<rparr>" policyValue]
  by (simp add: policyCopier_def viewPolicy_def [abs_def] footPolicy_def [abs_def] policyValue_def)

lemma list_copier:
  assumes "deep_copier fst sameCells (cl_ObjectMeta L) vm fm" and "deep_copier fst sameCells (cl_ListMeta L) vl fl"
    and "deep_copier fst sameCells (cl_LabelSelector L) vs fs"
  shows "deep_copier h_free sameHeap (listCopier L) (viewList vm vl vs) (footList fm fl fs)"
  using heap.struct_copier [OF heap.pair_copier [OF onCells_copier [OF assms(2)]
        heap.nil_copier [OF policy_cells.slice_copier [OF policy_copier [OF assms(1,3)]]]],
      of "\<lambda>v. (list_ListMeta v, list_Items v)" "\<lambda>p v. v\<lparr>list_ListMeta := fst p, list_Items := snd p\<rparr>" listValue]
  unfolding listCopier_def viewList_def [abs_def] footList_def [abs_def] viewItems_def [abs_def] footItems_def [abs_def]
  by (simp add: listValue_def)

lemma set_option_case: "set_option = (\<lambda>p. case p of None \<Rightarrow> {} | Some a \<Rightarrow> {a})"
  by (auto simp: fun_eq_iff split: option.split)

interpretation bools: deep_copier h_free sameHeap boolCopier "\<lambda>h. map_option (h_bool h)" "\<lambda>h. set_option"
  unfolding set_option_case boolCopier_def by (rule heap.nil_copier [OF bool_cells.new_copier [OF heap.flat_copier]])

interpretation switches: deep_copier h_free sameHeap argsCopier viewArgs footArgs
  using heap.struct_copier [OF heap.pair_copier [OF bools.deep_copier_axioms heap.pair_copier [OF bools.deep_copier_axioms bools.deep_copier_axioms]],
      of "\<lambda>v. (ags_RequirePolicy v, ags_ExportNodePods v, ags_ExportTargetDetail v)"
        "\<lambda>p v. v\<lparr>ags_RequirePolicy := fst p, ags_ExportNodePods := fst (snd p), ags_ExportTargetDetail := snd (snd p)\<rparr>" argsValue]
  by (simp add: argsCopier_def viewArgs_def [abs_def] footArgs_def [abs_def] argsValue_def Un_assoc)

lemmas cell_defs = setBool_def setSpec_def setPolicy_def setList_def setArgs_def allocate_def
lemmas copy_defs = copyStruct_def copyPair_def copyNil_def copyNew_def copySlice_def copyFlat_def

lemma onCells_set:
  "onCells f v (setSpec a x h) = map_prod id (setSpec a x) (onCells f v h)" "onCells f v (setPolicy a y h) = map_prod id (setPolicy a y) (onCells f v h)"
  "onCells f v (setList a z h) = map_prod id (setList a z) (onCells f v h)"
  by (simp_all add: onCells_def cellsOf_def cell_defs split: prod.split)

lemma onCells_keeps:
  assumes "onCells f v h = (v', h')"
  shows "h_spec h' = h_spec h" "h_policy h' = h_policy h" "h_list h' = h_list h"
  using assms by (auto simp: onCells_def split: prod.splits)

lemma set_set:
  "setSpec a x (setSpec a x' h) = setSpec a x h" "setPolicy a y (setPolicy a y' h) = setPolicy a y h" "setList a z (setList a z' h) = setList a z h"
  "setArgs a w (setArgs a w' h) = setArgs a w h"
  by (simp_all add: cell_defs)

lemma get_set:
  "h_spec (setSpec a x h) b = (if b = a then x else h_spec h b)" "h_policy (setPolicy a y h) b = (if b = a then y else h_policy h b)"
  "h_list (setList a z h) b = (if b = a then z else h_list h b)" "h_args (setArgs a w h) b = (if b = a then w else h_args h b)"
  by (simp_all add: cell_defs)

lemma setList_other:
  "h_policy (setList c x h) = h_policy h" "h_free (setList c x h) = h_free h" "setPolicy a v (setList c x h) = setList c x (setPolicy a v h)"
  "allocate n (setList c x h) = setList c x (allocate n h)" "h_list (allocate n h) = h_list h"
  by (simp_all add: cell_defs)

lemma spec_into:
  assumes "a \<noteq> b"
  shows "ServiceSpreadPolicySpec_DeepCopyInto L (SpecAt a) (SpecAt b) h = (let (v, h') = specCopier L (h_spec h a) h in setSpec b v h')"
  using assms
  by (auto simp: ServiceSpreadPolicySpec_DeepCopyInto_def loadSpec_def storeSpec_def specCopier_def copyStruct_def onCells_set get_set set_set
      split: prod.split)

lemma policy_into:
  assumes "a \<noteq> b"
  shows "ServiceSpreadPolicy_DeepCopyInto L a b h = (let (v, h') = policyCopier L (h_policy h a) h in setPolicy b v h')"
proof -
  obtain m h1 where m: "onCells (cl_ObjectMeta L) (policy_ObjectMeta (h_policy h a)) h = (m, h1)" by fastforce
  obtain s h2 where s: "onCells (cl_LabelSelector L) (spec_ServiceSelector (policy_Spec (h_policy h a))) h1 = (s, h2)" by fastforce
  have "h_policy h1 = h_policy h" "h_policy h2 = h_policy h" using onCells_keeps(2) [OF m] onCells_keeps(2) [OF s] by simp_all
  with assms m s show ?thesis
    by (simp add: ServiceSpreadPolicy_DeepCopyInto_def ServiceSpreadPolicySpec_DeepCopyInto_def loadSpec_def storeSpec_def policyCopier_def
        specCopier_def copyStruct_def copyPair_def onCells_set get_set set_set Let_def)
qed

lemma items_loop:
  assumes "a \<noteq> b"
  shows "itemsLoop L a b is h = copyLoop h_policy setPolicy (policyCopier L) a b is h"
  using assms by (induction "is" arbitrary: h) (simp_all add: policy_into split: prod.split)

lemma policyCopier_setList: "policyCopier L v (setList c x h) = map_prod id (setList c x) (policyCopier L v h)"
  by (simp add: policyCopier_def specCopier_def copyStruct_def copyPair_def onCells_set split: prod.split)


lemma loop_setList:
  "copyLoop h_policy setPolicy (policyCopier L) a b is (setList c x h) = setList c x (copyLoop h_policy setPolicy (policyCopier L) a b is h)"
proof (induction "is" arbitrary: h)
  case (Cons i "is")
  then show ?case by (simp add: policyCopier_setList setList_other split: prod.split)
qed simp

lemma list_into:
  assumes "a \<noteq> b" and "\<And>s. list_Items (h_list h a) = Some s \<Longrightarrow> snd s = 0 \<or> fst s < h_free h"
    and "\<And>m h1. onCells (cl_ListMeta L) (list_ListMeta (h_list h a)) h = (m, h1) \<Longrightarrow> h_free h \<le> h_free h1"
  shows "ServiceSpreadPolicyList_DeepCopyInto L a b h = (let (v, h') = listCopier L (h_list h a) h in setList b v h')"
proof -
  obtain m h1 where m: "onCells (cl_ListMeta L) (list_ListMeta (h_list h a)) h = (m, h1)" by fastforce
  note keep = onCells_keeps(3) [OF m]

  have loop: "itemsLoop L (fst s) (h_free h1) [0..<snd s] k = copyLoop h_policy setPolicy (policyCopier L) (fst s) (h_free h1) [0..<snd s] k"
    if "list_Items (h_list h a) = Some s" for s k
    using assms(2) [OF that] assms(3) [OF m] by (cases "snd s = 0") (simp_all add: items_loop)
  have nil: "(h_list h a)\<lparr>list_ListMeta := m, list_Items := None\<rparr> = (h_list h a)\<lparr>list_ListMeta := m\<rparr>" if "list_Items (h_list h a) = None"
    using that by (cases "h_list h a") simp
  note defs = ServiceSpreadPolicyList_DeepCopyInto_def listCopier_def copyStruct_def copyPair_def copyNil_def copySlice_def onCells_set get_set
    set_set Let_def setList_other loop_setList
  show ?thesis
  proof (cases "list_Items (h_list h a)")
    case None
    then show ?thesis using assms(1) m keep by (simp add: defs) (simp only: nil [OF None])
  next
    case (Some s)
    then show ?thesis using assms(1) m keep loop [OF Some] by (cases s) (simp add: defs)
  qed
qed

lemma boolCopier_setArgs: "boolCopier p (setArgs a v h) = map_prod id (setArgs a v) (boolCopier p h)"
  by (simp add: boolCopier_def copy_defs cell_defs split: option.split)

lemma boolCopier_args: "boolCopier p h = (q, h') \<Longrightarrow> h_args h' = h_args h"
  by (auto simp: boolCopier_def copy_defs cell_defs split: option.splits)

lemma copySwitch_boolCopier:
  assumes "a \<noteq> b" and "\<And>v. get v = None \<Longrightarrow> put None v = v" and "get (h_args h b) = get (h_args h a)"
  shows "copySwitch get put a b h = (let (q, h') = boolCopier (get (h_args h a)) h in setArgs b (put q (h_args h b)) h')"
proof (cases "get (h_args h a)")
  case None
  with assms have "put None (h_args h b) = h_args h b" by simp
  then show ?thesis using None by (simp add: copySwitch_def boolCopier_def copy_defs cell_defs)
next
  case (Some p)
  then show ?thesis by (simp add: copySwitch_def boolCopier_def copy_defs cell_defs)
qed

lemma args_into:
  assumes "a \<noteq> b"
  shows "ServiceSpreadArgs_DeepCopyInto a b h = (let (v, h') = argsCopier (h_args h a) h in setArgs b v h')"
proof -
  let ?v = "h_args h a"
  obtain p1 h1 where 1: "boolCopier (ags_RequirePolicy ?v) h = (p1, h1)" by fastforce
  obtain p2 h2 where 2: "boolCopier (ags_ExportNodePods ?v) h1 = (p2, h2)" by fastforce
  obtain p3 h3 where 3: "boolCopier (ags_ExportTargetDetail ?v) h2 = (p3, h3)" by fastforce
  note keep = boolCopier_args [OF 1] boolCopier_args [OF 2] boolCopier_args [OF 3]
  show ?thesis
    using assms 1 2 3 keep
    by (simp add: ServiceSpreadArgs_DeepCopyInto_def copySwitch_boolCopier argsCopier_def copyStruct_def copyPair_def boolCopier_setArgs get_set set_set Let_def)
qed

subsection \<open>Copies are equal and independent\<close>

definition ptrView :: "('h \<Rightarrow> addr \<Rightarrow> 'v) \<Rightarrow> ('h \<Rightarrow> 'v \<Rightarrow> 'a) \<Rightarrow> 'h \<Rightarrow> addr option \<Rightarrow> 'a option" where
  "ptrView load view h = map_option (\<lambda>a. view h (load h a))"

definition ptrFoot :: "('h \<Rightarrow> addr \<Rightarrow> 'v) \<Rightarrow> ('h \<Rightarrow> 'v \<Rightarrow> addr set) \<Rightarrow> 'h \<Rightarrow> addr option \<Rightarrow> addr set" where
  "ptrFoot load foot h p = (case p of None \<Rightarrow> {} | Some a \<Rightarrow> insert a (foot h (load h a)))"

text \<open>The pointer \<open>q\<close> in heap \<open>h'\<close> is a deep copy of \<open>p\<close> in \<open>h\<close>: it has the same value, the original still has it, they share no memory, and any change of
  memory that only one of them depends on leaves the other as it is.\<close>

definition deepCopyOf :: "(('m, 'l, 's, 'c) heap \<Rightarrow> addr option \<Rightarrow> 'a) \<Rightarrow> (('m, 'l, 's, 'c) heap \<Rightarrow> addr option \<Rightarrow> addr set) \<Rightarrow>
    addr option \<Rightarrow> ('m, 'l, 's, 'c) heap \<Rightarrow> addr option \<times> ('m, 'l, 's, 'c) heap \<Rightarrow> bool" where
  "deepCopyOf view foot p h r \<longleftrightarrow>
     (let (q, h') = r
      in view h' q = view h p \<and> view h' p = view h p \<and> foot h' q \<inter> foot h' p = {} \<and>
         (\<forall>k. sameHeap (- foot h' q) h' k \<longrightarrow> view k p = view h p) \<and>
         (\<forall>k. sameHeap (- foot h' p) h' k \<longrightarrow> view k q = view h p))"

lemma deepCopyI:
  assumes "deep_copier h_free sameHeap f view foot" and "foot h p \<subseteq> {..<h_free h}"
  shows "deepCopyOf view foot p h (f p h)"
proof (cases "f p h")
  case (Pair q h')
  then show ?thesis using deep_copier.independent [OF assms Pair] by (simp add: deepCopyOf_def)
qed

lemma allocate_keeps:
  "h_free (allocate n h) = h_free h + n" "h_spec (allocate n h) = h_spec h" "h_policy (allocate n h) = h_policy h" "h_list (allocate n h) = h_list h"
  "h_args (allocate n h) = h_args h" "h_bool (allocate n h) = h_bool h"
  by (simp_all add: allocate_def)

lemma ptr_copier_eqs:
  "ptrView load view = (\<lambda>h. map_option (\<lambda>a. view h (load h a)))"
  "ptrFoot load foot = (\<lambda>h p. case p of None \<Rightarrow> {} | Some a \<Rightarrow> insert a (foot h (load h a)))"
  by (simp_all add: ptrView_def ptrFoot_def fun_eq_iff)

lemma spec_DeepCopy:
  assumes "deep_copier fst sameCells (cl_LabelSelector L) vs fs" and "ptrFoot h_spec (footSpec fs) h p \<subseteq> {..<h_free h}"
  shows "deepCopyOf (ptrView h_spec (viewSpec vs)) (ptrFoot h_spec (footSpec fs)) p h (ServiceSpreadPolicySpec_DeepCopy L p h)"
proof -
  have "ServiceSpreadPolicySpec_DeepCopy L p h = copyNil (copyNew h_free allocate h_spec setSpec (specCopier L)) p h"
    using assms(2) by (auto simp: ServiceSpreadPolicySpec_DeepCopy_def copyNil_def copyNew_def spec_into allocate_keeps ptrFoot_def split: option.split prod.split)
  then show ?thesis
    using deepCopyI [OF heap.nil_copier [OF spec_cells.new_copier [OF spec_copier [OF assms(1)]]]] assms(2) by (simp add: ptr_copier_eqs)
qed

lemma policy_DeepCopy:
  assumes "deep_copier fst sameCells (cl_ObjectMeta L) vm fm" and "deep_copier fst sameCells (cl_LabelSelector L) vs fs"
    and "ptrFoot h_policy (footPolicy fm fs) h p \<subseteq> {..<h_free h}"
  shows "deepCopyOf (ptrView h_policy (viewPolicy vm vs)) (ptrFoot h_policy (footPolicy fm fs)) p h (ServiceSpreadPolicy_DeepCopy L p h)"
proof -
  have "ServiceSpreadPolicy_DeepCopy L p h = copyNil (copyNew h_free allocate h_policy setPolicy (policyCopier L)) p h"
    using assms(3) by (auto simp: ServiceSpreadPolicy_DeepCopy_def copyNil_def copyNew_def policy_into allocate_keeps ptrFoot_def split: option.split prod.split)
  then show ?thesis
    using deepCopyI [OF heap.nil_copier [OF policy_cells.new_copier [OF policy_copier [OF assms(1,2)]]]] assms(3) by (simp add: ptr_copier_eqs)
qed

lemma list_DeepCopy:
  assumes "deep_copier fst sameCells (cl_ObjectMeta L) vm fm" and "deep_copier fst sameCells (cl_ListMeta L) vl fl"
    and "deep_copier fst sameCells (cl_LabelSelector L) vs fs" and "ptrFoot h_list (footList fm fl fs) h p \<subseteq> {..<h_free h}"
  shows "deepCopyOf (ptrView h_list (viewList vm vl vs)) (ptrFoot h_list (footList fm fl fs)) p h (ServiceSpreadPolicyList_DeepCopy L p h)"
proof -
  have into: "ServiceSpreadPolicyList_DeepCopyInto L a (h_free h) (allocate 1 h) =
      (let (v, h') = listCopier L (h_list (allocate 1 h) a) (allocate 1 h) in setList (h_free h) v h')" if p: "p = Some a" for a
  proof (rule list_into)
    have foot: "a < h_free h" "fl (cellsOf h) (list_ListMeta (h_list h a)) \<subseteq> {..<h_free h}"
      "\<And>s. list_Items (h_list h a) = Some s \<Longrightarrow> footItems fm fs h s \<subseteq> {..<h_free h}"
      using assms(4) p by (simp_all add: ptrFoot_def footList_def)
    from foot(1) show "a \<noteq> h_free h" by simp
    show "snd s = 0 \<or> fst s < h_free (allocate 1 h)" if "list_Items (h_list (allocate 1 h) a) = Some s" for s
    proof (cases "snd s = 0")
      case False
      then have "fst s \<in> footItems fm fs h s" by (simp add: footItems_def)
      with foot(3) that have "fst s < h_free h" by (auto simp: allocate_keeps)
      then show ?thesis by (simp add: allocate_keeps)
    qed simp
    show "h_free (allocate 1 h) \<le> h_free h1" if run: "onCells (cl_ListMeta L) (list_ListMeta (h_list (allocate 1 h) a)) (allocate 1 h) = (m, h1)" for m h1
    proof -
      note M = onCells_copier [OF assms(2)]
      have "fl (cellsOf (allocate 1 h)) (list_ListMeta (h_list h a)) = fl (cellsOf h) (list_ListMeta (h_list h a))"
        using deep_copier.framed [OF M list_cells.same_alloc [where h = h]] by blast
      with foot(2) have "fl (cellsOf (allocate 1 h)) (list_ListMeta (h_list (allocate 1 h) a)) \<subseteq> {..<h_free (allocate 1 h)}"
        by (auto simp: allocate_keeps)
      from deep_copier.copied [OF M this run] show ?thesis by blast
    qed
  qed
  then have "ServiceSpreadPolicyList_DeepCopy L p h = copyNil (copyNew h_free allocate h_list setList (listCopier L)) p h"
    by (auto simp: ServiceSpreadPolicyList_DeepCopy_def copyNil_def copyNew_def allocate_keeps split: option.split prod.split)
  then show ?thesis
    using deepCopyI [OF heap.nil_copier [OF list_cells.new_copier [OF list_copier [OF assms(1-3)]]]] assms(4) by (simp add: ptr_copier_eqs)
qed

lemma args_DeepCopy:
  assumes "ptrFoot h_args footArgs h p \<subseteq> {..<h_free h}"
  shows "deepCopyOf (ptrView h_args viewArgs) (ptrFoot h_args footArgs) p h (ServiceSpreadArgs_DeepCopy p h)"
proof -
  have "ServiceSpreadArgs_DeepCopy p h = copyNil (copyNew h_free allocate h_args setArgs argsCopier) p h"
    using assms by (auto simp: ServiceSpreadArgs_DeepCopy_def copyNil_def copyNew_def args_into allocate_keeps ptrFoot_def split: option.split prod.split)
  then show ?thesis
    using deepCopyI [OF heap.nil_copier [OF args_cells.new_copier [OF switches.deep_copier_axioms]]] assms by (simp add: ptr_copier_eqs)
qed

text \<open>C28: Deep copies are equal and independent. If the library's \<open>DeepCopyInto\<close> functions of \<open>ObjectMeta\<close>, \<open>ListMeta\<close> and \<open>LabelSelector\<close> are deep copies, then \<open>DeepCopy\<close> of a policy list
  (with all its elements), of a policy, of a spec and of the plugin arguments gives a pointer to an equal value that shares no memory with the original, so that
  neither changes when the other is written to; \<open>DeepCopyObject\<close> returns the same copy, and for a nil pointer a nil interface, not an interface that holds a nil pointer.\<close>

theorem deep_copies_are_independent:
  assumes "deep_copier fst sameCells (cl_ObjectMeta L) vm fm" and "deep_copier fst sameCells (cl_ListMeta L) vl fl"
    and "deep_copier fst sameCells (cl_LabelSelector L) vs fs" and "ptrFoot h_list (footList fm fl fs) h p \<subseteq> {..<h_free h}"
    and "ptrFoot h_policy (footPolicy fm fs) h q \<subseteq> {..<h_free h}" and "ptrFoot h_spec (footSpec fs) h r \<subseteq> {..<h_free h}"
    and "ptrFoot h_args footArgs h a \<subseteq> {..<h_free h}"
  shows "deepCopyOf (ptrView h_list (viewList vm vl vs)) (ptrFoot h_list (footList fm fl fs)) p h (ServiceSpreadPolicyList_DeepCopy L p h) \<and>
    deepCopyOf (ptrView h_policy (viewPolicy vm vs)) (ptrFoot h_policy (footPolicy fm fs)) q h (ServiceSpreadPolicy_DeepCopy L q h) \<and>
    deepCopyOf (ptrView h_spec (viewSpec vs)) (ptrFoot h_spec (footSpec fs)) r h (ServiceSpreadPolicySpec_DeepCopy L r h) \<and>
    deepCopyOf (ptrView h_args viewArgs) (ptrFoot h_args footArgs) a h (ServiceSpreadArgs_DeepCopy a h) \<and>
    ServiceSpreadPolicyList_DeepCopyObject L p h =
      map_prod (map_option (\<lambda>b. PolicyListObject (Some b))) id (ServiceSpreadPolicyList_DeepCopy L p h) \<and>
    ServiceSpreadPolicy_DeepCopyObject L q h = map_prod (map_option (\<lambda>b. PolicyObject (Some b))) id (ServiceSpreadPolicy_DeepCopy L q h) \<and>
    ServiceSpreadArgs_DeepCopyObject a h = map_prod (map_option (\<lambda>b. ArgsObject (Some b))) id (ServiceSpreadArgs_DeepCopy a h)"
  using list_DeepCopy [OF assms(1-4)] policy_DeepCopy [OF assms(1,3,5)] spec_DeepCopy [OF assms(3,6)] args_DeepCopy [OF assms(7)]
  by (auto simp: ServiceSpreadPolicyList_DeepCopyObject_def ServiceSpreadPolicy_DeepCopyObject_def ServiceSpreadArgs_DeepCopyObject_def split: prod.split)

text \<open>A library whose structs are pointers to a label, and a heap with a list of two policies.\<close>

definition labelCopy :: "addr option \<Rightarrow> string cells \<Rightarrow> addr option \<times> string cells" where
  "labelCopy = copyNil (copyNew fst (\<lambda>n m. (fst m + n, snd m)) snd (\<lambda>a v m. (fst m, (snd m)(a := v))) copyFlat)"

definition labelLib :: "(addr option, addr option, addr option, string) copyLib" where
  "labelLib = \<lparr>cl_ObjectMeta = labelCopy, cl_ListMeta = labelCopy, cl_LabelSelector = labelCopy\<rparr>"

abbreviation labelView :: "string cells \<Rightarrow> addr option \<Rightarrow> string option" where
  "labelView m \<equiv> map_option (snd m)"

abbreviation labelFoot :: "string cells \<Rightarrow> addr option \<Rightarrow> addr set" where
  "labelFoot m \<equiv> set_option"

interpretation label_cells: typed_memory fst sameCells "\<lambda>n m. (fst m + n, snd m)" snd "\<lambda>a v m. (fst m, (snd m)(a := v))"
  by unfold_locales (auto simp: sameCells_def)

interpretation labels: deep_copier fst sameCells labelCopy labelView labelFoot
  unfolding set_option_case labelCopy_def by (rule cells.nil_copier [OF label_cells.new_copier [OF cells.flat_copier]])

definition labelHeap :: "(addr option, addr option, addr option, string) heap" where
  "labelHeap =
     (let spec = \<lparr>spec_SchedulerName = ''s'', spec_ServiceSelector = Some 4, spec_MaxSkew = 1, spec_MaxPodsPerNode = 2\<rparr>;
          policy = \<lparr>policy_TypeMeta = ('''', ''''), policy_ObjectMeta = Some 3, policy_Spec = spec\<rparr>;
          args = \<lparr>ags_TypeMeta = ('''', ''''), ags_ServiceLabelKey = ''app'', ags_RequirePolicy = Some 6, ags_ManagedSchedulerName = ''s'',
            ags_FallbackCacheTTL = 0, ags_ReservationTTL = 0, ags_ReconcilePeriod = 0, ags_ExportNodePods = None, ags_ExportTargetDetail = None\<rparr>
      in \<lparr>h_free = 7, h_bool = (\<lambda>a. True), h_spec = (\<lambda>a. spec), h_policy = (\<lambda>a. policy),
          h_list = (\<lambda>a. \<lparr>list_TypeMeta = ('''', ''''), list_ListMeta = None, list_Items = Some (1, 2)\<rparr>), h_args = (\<lambda>a. args),
          h_cell = (\<lambda>a. ''web'')\<rparr>)"

theorem deep_copies_are_independent_witness:
  "deepCopyOf (ptrView h_list (viewList labelView labelView labelView)) (ptrFoot h_list (footList labelFoot labelFoot labelFoot)) (Some 0) labelHeap
     (ServiceSpreadPolicyList_DeepCopy labelLib (Some 0) labelHeap) \<and>
   deepCopyOf (ptrView h_args viewArgs) (ptrFoot h_args footArgs) (Some 5) labelHeap (ServiceSpreadArgs_DeepCopy (Some 5) labelHeap) \<and>
   fst (ServiceSpreadPolicyList_DeepCopyObject labelLib (Some 0) labelHeap) = Some (PolicyListObject (Some 7)) \<and>
   ags_RequirePolicy (h_args (snd (ServiceSpreadArgs_DeepCopy (Some 5) labelHeap)) 7) = Some 8"
proof -
  have lib: "deep_copier fst sameCells (cl_ObjectMeta labelLib) labelView labelFoot" "deep_copier fst sameCells (cl_ListMeta labelLib) labelView labelFoot"
    "deep_copier fst sameCells (cl_LabelSelector labelLib) labelView labelFoot"
    by (simp_all add: labelLib_def labels.deep_copier_axioms)
  have foot: "ptrFoot h_list (footList labelFoot labelFoot labelFoot) labelHeap (Some 0) \<subseteq> {..<h_free labelHeap}"
    "ptrFoot h_policy (footPolicy labelFoot labelFoot) labelHeap (Some 1) \<subseteq> {..<h_free labelHeap}"
    "ptrFoot h_spec (footSpec labelFoot) labelHeap (Some 2) \<subseteq> {..<h_free labelHeap}" "ptrFoot h_args footArgs labelHeap (Some 5) \<subseteq> {..<h_free labelHeap}"
    by (auto simp: ptrFoot_def footList_def footItems_def footPolicy_def footSpec_def footArgs_def labelHeap_def Let_def)
  have "fst (ServiceSpreadPolicyList_DeepCopy labelLib (Some 0) labelHeap) = Some 7"
    by (simp add: ServiceSpreadPolicyList_DeepCopy_def labelHeap_def Let_def)
  moreover have "ags_RequirePolicy (h_args (snd (ServiceSpreadArgs_DeepCopy (Some 5) labelHeap)) 7) = Some 8"
    by (simp add: ServiceSpreadArgs_DeepCopy_def ServiceSpreadArgs_DeepCopyInto_def copySwitch_def cell_defs labelHeap_def Let_def)
  ultimately show ?thesis using deep_copies_are_independent [OF lib foot] by simp
qed

end
