(* ===== verification/Cow_Snapshot.thy ===== *)
theory Cow_Snapshot
  imports State Deep_Copy
begin

section \<open>Copy-on-write snapshots in shared memory\<close>

text \<open>
  The snapshot maintenance of \<open>internal/spread/state.go\<close> as it works in memory. Go maps and structs are references; \<open>clone\<close>, \<open>applyCount\<close>
  and the nested count maps are updated in place, cell by cell, while \<open>effCount\<close> reads a snapshot that it loaded from the atomic pointer
  without holding the mutex. The theory \<open>State\<close> takes each operation as one function from snapshot to snapshot; here every allocation and
  every single map write is a step of its own, recorded in a history of memories, so that a reader may run between any two of them.
  The lemmas show that the operations on memory refine those of \<open>State\<close> and that whatever a reader loads stays a complete snapshot of \<open>State\<close>.
\<close>

subsection \<open>Memory\<close>

text \<open>A \<open>*snapshot\<close> points to a struct of three map references; a \<open>map[string]map[string]int32\<close> holds references to its rows.
  \<open>mem_free\<close> is the first address that was never allocated and \<open>mem_root\<close> the atomic pointer \<open>snap\<close> of \<open>spreadState\<close>.\<close>

record snapStruct =
  ref_pods :: addr
  ref_quota :: addr
  ref_domain :: addr

record snapMem =
  mem_free :: addr
  mem_pods :: "addr \<Rightarrow> (uid, podRef) gomap"
  mem_row :: "addr \<Rightarrow> (string, int32) gomap"
  mem_table :: "addr \<Rightarrow> (string, addr) gomap"
  mem_snap :: "addr \<Rightarrow> snapStruct"
  mem_root :: addr

text \<open>A history is the list of the memories so far, the current one first.\<close>

type_synonym history = "snapMem list"

definition act :: "(snapMem \<Rightarrow> snapMem) \<Rightarrow> history \<Rightarrow> history" where
  "act f h = f (hd h) # h"

definition makePods :: "history \<Rightarrow> addr \<times> history" where
  "makePods h = (mem_free (hd h), act (\<lambda>m. m\<lparr>mem_pods := (mem_pods m)(mem_free m := []), mem_free := Suc (mem_free m)\<rparr>) h)"

definition makeRow :: "history \<Rightarrow> addr \<times> history" where
  "makeRow h = (mem_free (hd h), act (\<lambda>m. m\<lparr>mem_row := (mem_row m)(mem_free m := []), mem_free := Suc (mem_free m)\<rparr>) h)"

definition makeTable :: "history \<Rightarrow> addr \<times> history" where
  "makeTable h = (mem_free (hd h), act (\<lambda>m. m\<lparr>mem_table := (mem_table m)(mem_free m := []), mem_free := Suc (mem_free m)\<rparr>) h)"

definition newSnap :: "snapStruct \<Rightarrow> history \<Rightarrow> addr \<times> history" where
  "newSnap s h = (mem_free (hd h), act (\<lambda>m. m\<lparr>mem_snap := (mem_snap m)(mem_free m := s), mem_free := Suc (mem_free m)\<rparr>) h)"

definition setPods :: "addr \<Rightarrow> (uid, podRef) gomap \<Rightarrow> history \<Rightarrow> history" where
  "setPods a x = act (\<lambda>m. m\<lparr>mem_pods := (mem_pods m)(a := x)\<rparr>)"

definition setRow :: "addr \<Rightarrow> (string, int32) gomap \<Rightarrow> history \<Rightarrow> history" where
  "setRow a x = act (\<lambda>m. m\<lparr>mem_row := (mem_row m)(a := x)\<rparr>)"

definition setTable :: "addr \<Rightarrow> (string, addr) gomap \<Rightarrow> history \<Rightarrow> history" where
  "setTable a x = act (\<lambda>m. m\<lparr>mem_table := (mem_table m)(a := x)\<rparr>)"

definition storeRoot :: "addr \<Rightarrow> history \<Rightarrow> history" where
  "storeRoot p = act (\<lambda>m. m\<lparr>mem_root := p\<rparr>)"

subsection \<open>The operations in place\<close>

text \<open>Every map write \<open>m[k] = v\<close> and every \<open>delete(m, k)\<close> is one step. A missing row is a nil map: \<open>incMap\<close> makes it before it writes to it.\<close>

definition incMapRef :: "addr \<Rightarrow> string \<Rightarrow> string \<Rightarrow> history \<Rightarrow> history" where
  "incMapRef a outer inner h =
     (let h1 = (if mget (mem_table (hd h) a) outer = None
                then let (r, h0) = makeRow h in setTable a (mput (mem_table (hd h0) a) outer r) h0 else h)
      in case mget (mem_table (hd h1) a) outer of
           None \<Rightarrow> h1
         | Some r \<Rightarrow> setRow r (mput (mem_row (hd h1) r) inner (mget0 (mem_row (hd h1) r) inner + 1)) h1)"

definition decMapRef :: "addr \<Rightarrow> string \<Rightarrow> string \<Rightarrow> history \<Rightarrow> history" where
  "decMapRef a outer inner h =
     (case mget (mem_table (hd h) a) outer of
        None \<Rightarrow> h
      | Some r \<Rightarrow>
          if sint (mget0 (mem_row (hd h) r) inner) \<le> 1 then
            (let h1 = setRow r (mdel (mem_row (hd h) r) inner) h
             in if length (mem_row (hd h1) r) = 0 then setTable a (mdel (mem_table (hd h1) a) outer) h1 else h1)
          else setRow r (mput (mem_row (hd h) r) inner (mget0 (mem_row (hd h) r) inner - 1)) h)"

definition unapplyCountRef :: "addr \<Rightarrow> uid \<Rightarrow> history \<Rightarrow> history" where
  "unapplyCountRef p u h =
     (let s = mem_snap (hd h) p in
      case mget (mem_pods (hd h) (ref_pods s)) u of
        None \<Rightarrow> h
      | Some old \<Rightarrow>
          (let h1 = setPods (ref_pods s) (mdel (mem_pods (hd h) (ref_pods s)) u) h;
               h2 = decMapRef (ref_quota s) (NodeNameOf old) (QuotaKeyOf old) h1
           in decMapRef (ref_domain s) (NodeNameOf old) (SchedKeyOf old) h2))"

definition applyCountRef :: "addr \<Rightarrow> uid \<Rightarrow> podRef \<Rightarrow> history \<Rightarrow> history" where
  "applyCountRef p u ref h =
     (let s = mem_snap (hd h) p;
          h1 = (if mget (mem_pods (hd h) (ref_pods s)) u \<noteq> None then unapplyCountRef p u h else h);
          h2 = setPods (ref_pods s) (mput (mem_pods (hd h1) (ref_pods s)) u ref) h1;
          h3 = incMapRef (ref_quota s) (NodeNameOf ref) (QuotaKeyOf ref) h2
      in incMapRef (ref_domain s) (NodeNameOf ref) (SchedKeyOf ref) h3)"

primrec copyPodsRef :: "addr \<Rightarrow> (uid, podRef) gomap \<Rightarrow> history \<Rightarrow> history" where
  "copyPodsRef a [] h = h"
| "copyPodsRef a (e # es) h = copyPodsRef a es (setPods a (mput (mem_pods (hd h) a) (fst e) (snd e)) h)"

primrec copyRowRef :: "addr \<Rightarrow> (string, int32) gomap \<Rightarrow> history \<Rightarrow> history" where
  "copyRowRef a [] h = h"
| "copyRowRef a (e # es) h = copyRowRef a es (setRow a (mput (mem_row (hd h) a) (fst e) (snd e)) h)"

primrec copyTableRef :: "addr \<Rightarrow> (string, addr) gomap \<Rightarrow> history \<Rightarrow> history" where
  "copyTableRef a [] h = h"
| "copyTableRef a (e # es) h =
     (let (cm, h1) = makeRow h;
          h2 = copyRowRef cm (mem_row (hd h1) (snd e)) h1;
          h3 = setTable a (mput (mem_table (hd h2) a) (fst e) cm) h2
      in copyTableRef a es h3)"

definition newSnapshotRef :: "history \<Rightarrow> addr \<times> history" where
  "newSnapshotRef h =
     (let (ps, h1) = makePods h; (q, h2) = makeTable h1; (d, h3) = makeTable h2
      in newSnap \<lparr>ref_pods = ps, ref_quota = q, ref_domain = d\<rparr> h3)"

definition cloneRef :: "addr \<Rightarrow> history \<Rightarrow> addr \<times> history" where
  "cloneRef p h =
     (let s = mem_snap (hd h) p; (c, h1) = newSnapshotRef h; cs = mem_snap (hd h1) c;
          h2 = copyPodsRef (ref_pods cs) (mem_pods (hd h1) (ref_pods s)) h1;
          h3 = copyTableRef (ref_quota cs) (mem_table (hd h2) (ref_quota s)) h2;
          h4 = copyTableRef (ref_domain cs) (mem_table (hd h3) (ref_domain s)) h3
      in (c, h4))"

definition upsertCountRef :: "uid \<Rightarrow> podRef \<Rightarrow> history \<Rightarrow> history" where
  "upsertCountRef u ref h = (let (c, h1) = cloneRef (mem_root (hd h)) h in storeRoot c (applyCountRef c u ref h1))"

definition removeCountRef :: "uid \<Rightarrow> history \<Rightarrow> history" where
  "removeCountRef u h = (let (c, h1) = cloneRef (mem_root (hd h)) h in storeRoot c (unapplyCountRef c u h1))"

primrec applyAllRef :: "addr \<Rightarrow> (uid, podRef) gomap \<Rightarrow> history \<Rightarrow> history" where
  "applyAllRef p [] h = h"
| "applyAllRef p (e # es) h = applyAllRef p es (applyCountRef p (fst e) (snd e) h)"

definition rebuildRef :: "(uid, podRef) gomap \<Rightarrow> history \<Rightarrow> history" where
  "rebuildRef pods h = (let (c, h1) = newSnapshotRef h in storeRoot c (applyAllRef c pods h1))"

text \<open>The memory in which nothing is allocated, and the store of the first snapshot by \<open>newSpreadState\<close>.\<close>

definition mem0 :: snapMem where
  "mem0 = \<lparr>mem_free = 0, mem_pods = (\<lambda>_. []), mem_row = (\<lambda>_. []), mem_table = (\<lambda>_. []),
           mem_snap = (\<lambda>_. \<lparr>ref_pods = 0, ref_quota = 0, ref_domain = 0\<rparr>), mem_root = 0\<rparr>"

definition newStateRef :: "snapMem \<Rightarrow> history" where
  "newStateRef m = (let (c, h1) = newSnapshotRef [m] in [hd (storeRoot c h1)])"

text \<open>The read path: \<open>count\<close> on a loaded pointer. \<open>at i\<close> is the memory at its \<open>i\<close>-th access; the accesses of one call may see different memories.\<close>

definition countRef :: "(nat \<Rightarrow> snapMem) \<Rightarrow> addr \<Rightarrow> string \<Rightarrow> string \<Rightarrow> string \<Rightarrow> int32 \<times> int32" where
  "countRef at p node quotaKey schedKey =
     (case mget (mem_table (at 1) (ref_quota (mem_snap (at 0) p))) node of
        None \<Rightarrow> 0 | Some r \<Rightarrow> mget0 (mem_row (at 2) r) quotaKey,
      case mget (mem_table (at 4) (ref_domain (mem_snap (at 3) p))) node of
        None \<Rightarrow> 0 | Some r \<Rightarrow> mget0 (mem_row (at 5) r) schedKey)"

subsection \<open>Values and footprints\<close>

definition viewTable :: "snapMem \<Rightarrow> addr \<Rightarrow> (string, (string, int32) gomap) gomap" where
  "viewTable m a = map (\<lambda>(n, r). (n, mem_row m r)) (mem_table m a)"

definition viewSnap :: "snapMem \<Rightarrow> addr \<Rightarrow> snapshot" where
  "viewSnap m p = \<lparr>snap_pods = mem_pods m (ref_pods (mem_snap m p)),
     nodeQuota = viewTable m (ref_quota (mem_snap m p)), nodeDomain = viewTable m (ref_domain (mem_snap m p))\<rparr>"

abbreviation rows :: "snapMem \<Rightarrow> addr \<Rightarrow> addr list" where
  "rows m a \<equiv> map snd (mem_table m a)"

definition cells :: "snapMem \<Rightarrow> addr \<Rightarrow> addr list" where
  "cells m p = [p, ref_pods (mem_snap m p), ref_quota (mem_snap m p), ref_domain (mem_snap m p)] @
     rows m (ref_quota (mem_snap m p)) @ rows m (ref_domain (mem_snap m p))"

definition sameMem :: "addr set \<Rightarrow> snapMem \<Rightarrow> snapMem \<Rightarrow> bool" where
  "sameMem A m m' \<longleftrightarrow> (\<forall>a\<in>A. mem_pods m' a = mem_pods m a \<and> mem_row m' a = mem_row m a \<and>
     mem_table m' a = mem_table m a \<and> mem_snap m' a = mem_snap m a)"

text \<open>A later history keeps \<open>A\<close> if every memory added to it agrees with the current one on \<open>A\<close>; the root is not stored to.\<close>

definition keeps :: "addr set \<Rightarrow> history \<Rightarrow> history \<Rightarrow> bool" where
  "keeps A h h' \<longleftrightarrow> (\<exists>new. h' = new @ h \<and> (\<forall>m\<in>set new. sameMem A (hd h) m \<and> mem_root m = mem_root (hd h)))"

lemma sameMem_refl [simp]: "sameMem A m m"
  by (simp add: sameMem_def)

lemma sameMem_mono: "sameMem B m m' \<Longrightarrow> A \<subseteq> B \<Longrightarrow> sameMem A m m'"
  by (auto simp: sameMem_def)

lemma sameMem_trans: "sameMem A m m' \<Longrightarrow> sameMem A m' m'' \<Longrightarrow> sameMem A m m''"
  by (simp add: sameMem_def)

lemma sameMem_sym: "sameMem A m m' \<Longrightarrow> sameMem A m' m"
  by (simp add: sameMem_def)

lemma viewTable_same: "sameMem (insert a (set (rows m a))) m m' \<Longrightarrow> mem_table m' a = mem_table m a \<and> viewTable m' a = viewTable m a"
  by (force simp: sameMem_def viewTable_def)

lemma snap_same:
  assumes "sameMem (set (cells m p)) m m'"
  shows "viewSnap m' p = viewSnap m p" and "cells m' p = cells m p" and "mem_snap m' p = mem_snap m p"
proof -
  let ?s = "mem_snap m p"
  show s: "mem_snap m' p = ?s" using assms by (simp add: sameMem_def cells_def)
  have "sameMem (insert (ref_quota ?s) (set (rows m (ref_quota ?s)))) m m'" "sameMem (insert (ref_domain ?s) (set (rows m (ref_domain ?s)))) m m'"
    by (rule sameMem_mono [OF assms], auto simp: cells_def)+
  from this [THEN viewTable_same] show "viewSnap m' p = viewSnap m p" "cells m' p = cells m p"
    using assms by (simp_all add: viewSnap_def cells_def s) (simp add: sameMem_def cells_def)
qed

lemma keeps_hd:
  assumes "keeps A h h'" shows "sameMem A (hd h) (hd h')" and "mem_root (hd h') = mem_root (hd h)"
proof -
  obtain new where h': "h' = new @ h" and n: "\<forall>m\<in>set new. sameMem A (hd h) m \<and> mem_root m = mem_root (hd h)" using assms by (auto simp: keeps_def)
  have "new = [] \<or> hd h' \<in> set new" using h' by (cases new) simp_all
  with n h' show "sameMem A (hd h) (hd h')" "mem_root (hd h') = mem_root (hd h)" by auto
qed

text \<open>Histories are an address space: what happens to a set of addresses over time.\<close>

interpretation cow: address_space "\<lambda>h. mem_free (hd h)" keeps
proof
  show "keeps A h h" for A h by (simp add: keeps_def)
  show "keeps A h h'" if "keeps B h h'" "A \<subseteq> B" for A B h h' using that sameMem_mono by (fastforce simp: keeps_def)
  show "keeps A h h''" if first: "keeps A h h'" and second: "keeps A h' h''" for A h h' h''
  proof -
    obtain new new' where n: "h' = new @ h" "h'' = new' @ h'" "\<forall>m\<in>set new. sameMem A (hd h) m \<and> mem_root m = mem_root (hd h)"
      "\<forall>m\<in>set new'. sameMem A (hd h') m \<and> mem_root m = mem_root (hd h')" using first second by (auto simp: keeps_def)
    have "\<forall>m\<in>set (new' @ new). sameMem A (hd h) m \<and> mem_root m = mem_root (hd h)"
      using n(3,4) keeps_hd [OF first] sameMem_trans by fastforce
    with n(1,2) show ?thesis unfolding keeps_def by (intro exI [of _ "new' @ new"]) simp
  qed
qed

lemmas act_defs = act_def makePods_def makeRow_def makeTable_def newSnap_def setPods_def setRow_def setTable_def storeRoot_def

lemma keeps_act: "sameMem A (hd h) (f (hd h)) \<Longrightarrow> mem_root (f (hd h)) = mem_root (hd h) \<Longrightarrow> keeps A h (act f h)"
  unfolding keeps_def act_def by (intro exI [of _ "[f (hd h)]"]) simp

lemma keeps_set:
  "a \<notin> A \<Longrightarrow> keeps A h (setPods a x h)" "a \<notin> A \<Longrightarrow> keeps A h (setRow a y h)" "a \<notin> A \<Longrightarrow> keeps A h (setTable a z h)"
  by (auto simp: setPods_def setRow_def setTable_def sameMem_def intro!: keeps_act)

lemma keeps_make:
  assumes "mem_free (hd h) \<notin> A"
  shows "keeps A h (snd (makePods h))" "keeps A h (snd (makeRow h))" "keeps A h (snd (makeTable h))" "keeps A h (snd (newSnap s h))"
  using assms by (auto simp: makePods_def makeRow_def makeTable_def newSnap_def sameMem_def intro!: keeps_act)

lemma hd_set [simp]:
  "hd (setPods a x h) = (hd h)\<lparr>mem_pods := (mem_pods (hd h))(a := x)\<rparr>"
  "hd (setRow a y h) = (hd h)\<lparr>mem_row := (mem_row (hd h))(a := y)\<rparr>"
  "hd (setTable a z h) = (hd h)\<lparr>mem_table := (mem_table (hd h))(a := z)\<rparr>"
  "hd (storeRoot p h) = (hd h)\<lparr>mem_root := p\<rparr>"
  by (simp_all add: act_defs)

subsection \<open>In-place updates of the nested count maps\<close>

lemma map_values_mput: "map (\<lambda>(n, r). (n, f r)) (mput t k r) = mput (map (\<lambda>(n, r). (n, f r)) t) k (f r)"
  by (induction t k r rule: mput.induct) auto

lemma map_values_mdel: "map (\<lambda>(n, r). (n, f r)) (mdel t k) = mdel (map (\<lambda>(n, r). (n, f r)) t) k"
  by (induction t k rule: mdel.induct) auto

lemma mget_map_values: "mget (map (\<lambda>(n, r). (n, f r)) t) k = map_option f (mget t k)"
  by (induction t) auto

lemma map_values_upd:
  assumes "wf_gomap t" and "distinct (map snd t)" and "mget t k = Some r"
  shows "map (\<lambda>(n, r'). (n, (f(r := x)) r')) t = mput (map (\<lambda>(n, r'). (n, f r')) t) k x"
  using assms
proof (induction t)
  case (Cons e t)
  show ?case
  proof (cases "fst e = k")
    case True
    with Cons.prems have "e = (k, r)" "r \<notin> snd ` set t" by (cases e; simp)+
    then show ?thesis by (auto simp: image_iff)
  next
    case False
    then have get: "mget t k = Some r" using Cons.prems(3) by (cases e) (simp split: if_splits)
    have "r \<in> snd ` set t" using map_of_SomeD [OF get] by force
    then have "snd e \<noteq> r" using Cons.prems(2) by auto
    with Cons False get show ?thesis by (cases e) (auto simp: wf_gomap_Cons)
  qed
qed simp

lemma values_mput: "set (map snd (mput t k v)) \<subseteq> insert v (set (map snd t))"
  by (induction t k v rule: mput.induct) auto

lemma distinct_values_mput: "distinct (map snd t) \<Longrightarrow> v \<notin> set (map snd t) \<Longrightarrow> distinct (map snd (mput t k v))"
proof (induction t k v rule: mput.induct)
  case (2 k' v' m k v)
  then show ?case using values_mput [of m k v] by auto
qed simp

lemma values_mdel: "set (map snd (mdel t k)) \<subseteq> set (map snd t)"
  by (induction t k rule: mdel.induct) auto

lemma distinct_values_mdel: "distinct (map snd t) \<Longrightarrow> distinct (map snd (mdel t k))"
proof (induction t k rule: mdel.induct)
  case (2 k' v' m k)
  then show ?case using values_mdel [of m k] by auto
qed simp

text \<open>A table with rows of its own, and an edit of it: only the table, its rows and new memory are written.\<close>

definition tableFine :: "snapMem \<Rightarrow> addr \<Rightarrow> bool" where
  "tableFine m a \<longleftrightarrow> wf_gomap (mem_table m a) \<and> distinct (a # rows m a) \<and> set (a # rows m a) \<subseteq> {..<mem_free m}"

definition tableEdit :: "addr \<Rightarrow> history \<Rightarrow> history \<Rightarrow> bool" where
  "tableEdit a h h' \<longleftrightarrow> tableFine (hd h') a \<and> mem_free (hd h) \<le> mem_free (hd h') \<and>
     set (rows (hd h') a) \<subseteq> set (rows (hd h) a) \<union> {mem_free (hd h)..<mem_free (hd h')} \<and>
     keeps ({..<mem_free (hd h)} - set (a # rows (hd h) a)) h h'"

lemma tableEdit_refl: "tableFine (hd h) a \<Longrightarrow> tableEdit a h h"
  by (simp add: tableEdit_def cow.same_refl)

lemma tableEdit_trans:
  assumes "tableEdit a h h1" and "tableEdit a h1 h2"
  shows "tableEdit a h h2"
proof -
  have sub: "{..<mem_free (hd h)} - set (a # rows (hd h) a) \<subseteq> {..<mem_free (hd h1)} - set (a # rows (hd h1) a)"
    using assms(1) by (auto simp: tableEdit_def)
  have "keeps ({..<mem_free (hd h)} - set (a # rows (hd h) a)) h1 h2" 
    using assms(2) sub by (intro cow.same_mono [OF _ sub]) (simp add: tableEdit_def)
  then have "keeps ({..<mem_free (hd h)} - set (a # rows (hd h) a)) h h2"
    by (rule cow.same_trans [rotated]) (use assms(1) in \<open>simp add: tableEdit_def\<close>)
  moreover have free: "mem_free (hd h) \<le> mem_free (hd h1)" "mem_free (hd h1) \<le> mem_free (hd h2)" using assms by (simp_all add: tableEdit_def)
  then have "{mem_free (hd h)..<mem_free (hd h1)} \<union> {mem_free (hd h1)..<mem_free (hd h2)} \<subseteq> {mem_free (hd h)..<mem_free (hd h2)}" by auto
  then have "set (rows (hd h2) a) \<subseteq> set (rows (hd h) a) \<union> {mem_free (hd h)..<mem_free (hd h2)}"
    using assms(1,2) [unfolded tableEdit_def, THEN conjunct2, THEN conjunct2, THEN conjunct1] by blast
  ultimately show ?thesis using assms(2) free by (simp add: tableEdit_def)
qed

lemma setRow_edit:
  assumes "tableFine (hd h) a" and "mget (mem_table (hd h) a) n = Some r"
  shows "tableEdit a h (setRow r x h)" and "viewTable (hd (setRow r x h)) a = mput (viewTable (hd h) a) n x"
proof -
  have "r \<in> set (rows (hd h) a)" using map_of_SomeD [OF assms(2)] by force
  then show "tableEdit a h (setRow r x h)" using assms(1) by (auto simp: tableEdit_def tableFine_def intro!: keeps_set)
  show "viewTable (hd (setRow r x h)) a = mput (viewTable (hd h) a) n x"
    using map_values_upd [OF _ _ assms(2), of "mem_row (hd h)" x] assms(1) by (simp add: viewTable_def tableFine_def)
qed

lemma delRow_edit:
  assumes "tableFine (hd h) a"
  shows "tableEdit a h (setTable a (mdel (mem_table (hd h) a) n) h)"
    and "viewTable (hd (setTable a (mdel (mem_table (hd h) a) n) h)) a = mdel (viewTable (hd h) a) n"
proof -
  show "tableEdit a h (setTable a (mdel (mem_table (hd h) a) n) h)"
    using assms values_mdel [of "mem_table (hd h) a" n] distinct_values_mdel [of "mem_table (hd h) a" n]
    by (auto simp: tableEdit_def tableFine_def intro!: keeps_set)
  show "viewTable (hd (setTable a (mdel (mem_table (hd h) a) n) h)) a = mdel (viewTable (hd h) a) n"
    by (simp add: viewTable_def map_values_mdel)
qed

text \<open>A new row that may be filled before it is linked into the table.\<close>

lemma newRow_edit:
  assumes fine: "tableFine (hd h) a" and row: "makeRow h = (r, h0)"
    and fill: "keeps {..<r} h0 h1" "hd h1 = (hd h0)\<lparr>mem_row := (mem_row (hd h0))(r := x)\<rparr>"
  shows "tableEdit a h (setTable a (mput (mem_table (hd h1) a) n r) h1)"
    and "viewTable (hd (setTable a (mput (mem_table (hd h1) a) n r) h1)) a = mput (viewTable (hd h) a) n x"
    and "mget (mem_table (hd (setTable a (mput (mem_table (hd h1) a) n r) h1)) a) n = Some r"
proof -
  let ?t = "mem_table (hd h) a" and ?h = "setTable a (mput (mem_table (hd h1) a) n r) h1"
  have r: "r = mem_free (hd h)" and h0: "hd h0 = (hd h)\<lparr>mem_row := (mem_row (hd h))(r := []), mem_free := Suc r\<rparr>" and k: "h0 = snd (makeRow h)"
    using row by (auto simp: makeRow_def act_def)
  have h1: "hd h1 = (hd h)\<lparr>mem_row := (mem_row (hd h))(r := x), mem_free := Suc r\<rparr>" using fill(2) by (simp add: h0)
  have fresh: "r \<notin> set (a # rows (hd h) a)" using fine r by (auto simp: tableFine_def)
  have "keeps {..<r} h h0" unfolding k using r by (intro keeps_make) simp
  then have "keeps {..<r} h h1" using fill(1) by (rule cow.same_trans)
  then have "keeps ({..<r} - set (a # rows (hd h) a)) h h1" by (rule cow.same_mono) auto
  then have "keeps ({..<r} - set (a # rows (hd h) a)) h ?h" by (rule cow.same_trans) (simp add: keeps_set)
  moreover have "tableFine (hd ?h) a"
    unfolding tableFine_def
  proof (intro conjI)
    have "set (a # map snd (mput ?t n r)) \<subseteq> set (r # a # rows (hd h) a)" using values_mput [of ?t n r] by auto
    also have "\<dots> \<subseteq> {..<Suc r}" using fine r by (auto simp: tableFine_def)
    finally show "set (a # rows (hd ?h) a) \<subseteq> {..<mem_free (hd ?h)}" by (simp add: h1)
    show "distinct (a # rows (hd ?h) a)"
      using fine fresh values_mput [of ?t n r] distinct_values_mput [of ?t r n] by (auto simp: tableFine_def h1)
    show "wf_gomap (mem_table (hd ?h) a)" using fine by (simp add: tableFine_def h1)
  qed
  ultimately show "tableEdit a h ?h" using values_mput [of ?t n r] by (auto simp: tableEdit_def h1 r)
  have "map (\<lambda>(n, r'). (n, ((mem_row (hd h))(r := x)) r')) ?t = viewTable (hd h) a"
    using fresh by (force simp: viewTable_def)
  then show "viewTable (hd ?h) a = mput (viewTable (hd h) a) n x"
    using map_values_mput [of "(mem_row (hd h))(r := x)" ?t n r] by (simp add: viewTable_def h1 del: map_eq_conv)
  show "mget (mem_table (hd ?h) a) n = Some r" by simp
qed

lemma mget_viewTable: "mget (viewTable m a) n = map_option (mem_row m) (mget (mem_table m a) n)"
  by (simp add: viewTable_def mget_map_values)

text \<open>\<open>incMap\<close> and \<open>decMap\<close> in place are those of \<open>State\<close>.\<close>

lemma incMapRef_edit:
  assumes "tableFine (hd h) a"
  shows "tableEdit a h (incMapRef a n k h) \<and> viewTable (hd (incMapRef a n k h)) a = incMap (viewTable (hd h) a) n k"
proof (cases "mget (mem_table (hd h) a) n")
  case None
  obtain r h0 where row: "makeRow h = (r, h0)" by (cases "makeRow h")
  let ?h1 = "setTable a (mput (mem_table (hd h0) a) n r) h0"
  have "hd h0 = (hd h0)\<lparr>mem_row := (mem_row (hd h0))(r := [])\<rparr>" using row by (auto simp: makeRow_def act_def)
  note new = newRow_edit [OF assms row cow.same_refl this, of n]
  have fine: "tableFine (hd ?h1) a" using new(1) by (simp only: tableEdit_def)
  have "mem_row (hd ?h1) r = []" using row by (auto simp: makeRow_def act_def)
  then have run: "incMapRef a n k h = setRow r (mput [] k 1) ?h1" using None new(3) row by (simp add: incMapRef_def mget0_def)
  note edit = setRow_edit [OF fine new(3), of "mput [] k 1"]
  have "incMap (viewTable (hd h) a) n k = mput (mput (viewTable (hd h) a) n []) n (mput [] k 1)"
    using None by (simp add: incMap_def mget_viewTable rowOf_def mget0_def)
  with tableEdit_trans [OF new(1) edit(1)] edit(2) new(2) show ?thesis by (simp only: run)
next
  case (Some r)
  note edit = setRow_edit [OF assms Some]
  have "incMapRef a n k h = setRow r (mput (mem_row (hd h) r) k (mget0 (mem_row (hd h) r) k + 1)) h" using Some by (simp add: incMapRef_def)
  moreover have "incMap (viewTable (hd h) a) n k = mput (viewTable (hd h) a) n (mput (mem_row (hd h) r) k (mget0 (mem_row (hd h) r) k + 1))"
    using Some by (simp add: incMap_def mget_viewTable rowOf_def Let_def)
  ultimately show ?thesis using edit by simp
qed

lemma decMapRef_edit:
  assumes "tableFine (hd h) a"
  shows "tableEdit a h (decMapRef a n k h) \<and> viewTable (hd (decMapRef a n k h)) a = decMap (viewTable (hd h) a) n k"
proof (cases "mget (mem_table (hd h) a) n")
  case None
  then show ?thesis using tableEdit_refl [OF assms] by (simp add: decMapRef_def decMap_def mget_viewTable)
next
  case (Some r)
  note row = setRow_edit [OF assms Some]
  show ?thesis
  proof (cases "sint (mget0 (mem_row (hd h) r) k) \<le> 1")
    case small: True
    let ?x = "mdel (mem_row (hd h) r) k"
    let ?h1 = "setRow r ?x h"
    have fine: "tableFine (hd ?h1) a" using row(1) by (simp only: tableEdit_def)
    note del = delRow_edit [OF fine, of n]
    have dec: "decMap (viewTable (hd h) a) n k = (let m' = viewTable (hd ?h1) a in if ?x = [] then mdel m' n else m')"
      unfolding row(2) using Some small by (simp add: decMap_def mget_viewTable Let_def)
    have run: "decMapRef a n k h = (if ?x = [] then setTable a (mdel (mem_table (hd ?h1) a) n) ?h1 else ?h1)"
      using Some small by (simp add: decMapRef_def)
    show ?thesis unfolding run dec Let_def using row(1) del(2) tableEdit_trans [OF row(1) del(1)] by (cases "?x = []") (simp_all only: if_True if_False simp_thms)
  next
    case False
    then show ?thesis using Some row by (simp add: decMapRef_def decMap_def mget_viewTable)
  qed
qed

subsection \<open>A snapshot under construction\<close>

text \<open>A snapshot that is owned from \<open>lo\<close> on consists of pairwise different cells, none of them allocated before \<open>lo\<close>. Building it
  is invisible to everything older.\<close>

definition owned :: "addr \<Rightarrow> snapMem \<Rightarrow> addr \<Rightarrow> bool" where
  "owned lo m p \<longleftrightarrow> distinct (cells m p) \<and> set (cells m p) \<subseteq> {lo..<mem_free m} \<and>
     wf_gomap (mem_table m (ref_quota (mem_snap m p))) \<and> wf_gomap (mem_table m (ref_domain (mem_snap m p)))"

text \<open>The effect of a step of the construction: it stays owned and has the given value.\<close>

definition builds :: "addr \<Rightarrow> addr \<Rightarrow> history \<Rightarrow> history \<Rightarrow> snapshot \<Rightarrow> bool" where
  "builds lo p h h' v \<longleftrightarrow> keeps {..<lo} h h' \<and> owned lo (hd h') p \<and> viewSnap (hd h') p = v \<and>
     mem_snap (hd h') p = mem_snap (hd h) p \<and> mem_free (hd h) \<le> mem_free (hd h')"

lemma builds_trans:
  assumes "builds lo p h h1 v" and "builds lo p h1 h2 w" shows "builds lo p h h2 w"
  using assms cow.same_trans [of "{..<lo}" h h1 h2] by (simp add: builds_def)

lemma owned_tables:
  "owned lo m p \<Longrightarrow> tableFine m (ref_quota (mem_snap m p)) \<and> tableFine m (ref_domain (mem_snap m p))"
  by (auto simp: owned_def tableFine_def cells_def)

lemma edit_apart:
  assumes "tableEdit a h h'" and "B \<subseteq> {..<mem_free (hd h)} - set (a # rows (hd h) a)"
  shows "sameMem B (hd h) (hd h')" and "B \<inter> set (a # rows (hd h') a) = {}" and "keeps B h h'"
proof -
  show k: "keeps B h h'" using assms by (intro cow.same_mono [OF _ assms(2)]) (simp add: tableEdit_def)
  show "sameMem B (hd h) (hd h')" by (rule keeps_hd [OF k])
  have new: "set (a # rows (hd h') a) \<subseteq> set (a # rows (hd h) a) \<union> {mem_free (hd h)..<mem_free (hd h')}"
    using assms(1) by (auto simp: tableEdit_def)
  have "B \<inter> {mem_free (hd h)..<mem_free (hd h')} = {}" using assms(2) by auto
  with new assms(2) show "B \<inter> set (a # rows (hd h') a) = {}" by blast
qed

lemma owned_edit:
  assumes own: "owned lo (hd h) p" and s: "mem_snap (hd h) p = s" and edit: "tableEdit a h h'"
    and ab: "a = ref_quota s \<and> b = ref_domain s \<or> a = ref_domain s \<and> b = ref_quota s"
  shows "keeps {..<lo} h h'" and "owned lo (hd h') p" and "mem_snap (hd h') p = s"
    and "mem_pods (hd h') (ref_pods s) = mem_pods (hd h) (ref_pods s)" and "viewTable (hd h') b = viewTable (hd h) b"
proof -
  let ?m = "hd h" and ?A = "\<lambda>m. set (a # rows m a)" and ?B = "set ([p, ref_pods s, b] @ rows (hd h) b)"
  have fine: "tableFine (hd h') a" "mem_free ?m \<le> mem_free (hd h')"
    and new: "?A (hd h') \<subseteq> ?A ?m \<union> {mem_free ?m..<mem_free (hd h')}"
    using edit by (auto simp: tableEdit_def simp del: set_map)
  have B: "?B \<subseteq> {..<mem_free ?m} - ?A ?m" "?B \<subseteq> {lo..<mem_free ?m}" "?A ?m \<subseteq> {lo..<mem_free ?m}" "distinct ([p, ref_pods s, b] @ rows ?m b)"
    using own ab by (auto simp: owned_def cells_def s simp del: set_map)
  note apart = edit_apart [OF edit B(1)]
  have "{..<lo} \<subseteq> {..<mem_free ?m} - ?A ?m" using B(2,3) by auto
  from edit_apart(3) [OF edit this] show "keeps {..<lo} h h'" .
  show s': "mem_snap (hd h') p = s" and pods: "mem_pods (hd h') (ref_pods s) = mem_pods ?m (ref_pods s)"
    using apart(1) by (simp_all add: sameMem_def s)
  have "sameMem (insert b (set (rows ?m b))) ?m (hd h')" by (rule sameMem_mono [OF apart(1)]) auto
  from viewTable_same [OF this] have tb: "mem_table (hd h') b = mem_table ?m b" and vb: "viewTable (hd h') b = viewTable ?m b" by simp_all
  show "viewTable (hd h') b = viewTable ?m b" by (fact vb)
  have cells: "set (cells (hd h') p) = ?B \<union> ?A (hd h')" "distinct (cells (hd h') p)"
    using fine(1) apart(2) B(4) tb ab by (auto simp: cells_def s' tableFine_def simp del: set_map)
  have "lo \<le> mem_free ?m" using B(2) by force
  then have "{mem_free ?m..<mem_free (hd h')} \<union> {lo..<mem_free ?m} \<subseteq> {lo..<mem_free (hd h')}" using fine(2) by auto
  with B(2,3) new cells(1) have "set (cells (hd h') p) \<subseteq> {lo..<mem_free (hd h')}" by blast
  then show "owned lo (hd h') p" using cells(2) fine(1) own tb ab by (auto simp: owned_def s s' tableFine_def simp del: set_map)
qed

lemma builds_quota:
  assumes "owned lo (hd h) p" and "mem_snap (hd h) p = s" and "tableEdit (ref_quota s) h h'"
  shows "builds lo p h h' ((viewSnap (hd h) p)\<lparr>nodeQuota := viewTable (hd h') (ref_quota s)\<rparr>)"
  using owned_edit [OF assms, of "ref_domain s"] assms by (simp add: builds_def viewSnap_def tableEdit_def)

lemma builds_domain:
  assumes "owned lo (hd h) p" and "mem_snap (hd h) p = s" and "tableEdit (ref_domain s) h h'"
  shows "builds lo p h h' ((viewSnap (hd h) p)\<lparr>nodeDomain := viewTable (hd h') (ref_domain s)\<rparr>)"
  using owned_edit [OF assms, of "ref_quota s"] assms by (simp add: builds_def viewSnap_def tableEdit_def)

lemma builds_pods:
  assumes "owned lo (hd h) p" and "mem_snap (hd h) p = s"
  shows "builds lo p h (setPods (ref_pods s) x h) ((viewSnap (hd h) p)\<lparr>snap_pods := x\<rparr>)"
proof -
  have "keeps {..<lo} h (setPods (ref_pods s) x h)" using assms by (intro keeps_set) (auto simp: owned_def cells_def)
  then show ?thesis using assms by (simp add: builds_def viewSnap_def owned_def cells_def viewTable_def)
qed

lemma builds_maps:
  assumes own: "owned lo (hd h) p" and s: "mem_snap (hd h) p = s"
  defines "v \<equiv> viewSnap (hd h) p"
  shows "builds lo p h (incMapRef (ref_quota s) n k h) (v\<lparr>nodeQuota := incMap (nodeQuota v) n k\<rparr>)"
    and "builds lo p h (incMapRef (ref_domain s) n k h) (v\<lparr>nodeDomain := incMap (nodeDomain v) n k\<rparr>)"
    and "builds lo p h (decMapRef (ref_quota s) n k h) (v\<lparr>nodeQuota := decMap (nodeQuota v) n k\<rparr>)"
    and "builds lo p h (decMapRef (ref_domain s) n k h) (v\<lparr>nodeDomain := decMap (nodeDomain v) n k\<rparr>)"
proof -
  have fine: "tableFine (hd h) (ref_quota s)" "tableFine (hd h) (ref_domain s)" using owned_tables [OF own] s by simp_all
  have v: "nodeQuota v = viewTable (hd h) (ref_quota s)" "nodeDomain v = viewTable (hd h) (ref_domain s)" by (simp_all add: v_def viewSnap_def s)
  show "builds lo p h (incMapRef (ref_quota s) n k h) (v\<lparr>nodeQuota := incMap (nodeQuota v) n k\<rparr>)"
    "builds lo p h (decMapRef (ref_quota s) n k h) (v\<lparr>nodeQuota := decMap (nodeQuota v) n k\<rparr>)"
    using builds_quota [OF own s] incMapRef_edit [OF fine(1)] decMapRef_edit [OF fine(1)] by (fastforce simp: v simp flip: v_def)+
  show "builds lo p h (incMapRef (ref_domain s) n k h) (v\<lparr>nodeDomain := incMap (nodeDomain v) n k\<rparr>)"
    "builds lo p h (decMapRef (ref_domain s) n k h) (v\<lparr>nodeDomain := decMap (nodeDomain v) n k\<rparr>)"
    using builds_domain [OF own s] incMapRef_edit [OF fine(2)] decMapRef_edit [OF fine(2)] by (fastforce simp: v simp flip: v_def)+
qed

text \<open>The same after earlier steps of the construction.\<close>

lemma builds_then:
  assumes "builds lo p h h1 v" and "mem_snap (hd h) p = s"
  shows "builds lo p h (setPods (ref_pods s) (f (mem_pods (hd h1) (ref_pods s))) h1) (v\<lparr>snap_pods := f (snap_pods v)\<rparr>)"
    and "builds lo p h (incMapRef (ref_quota s) n k h1) (v\<lparr>nodeQuota := incMap (nodeQuota v) n k\<rparr>)"
    and "builds lo p h (incMapRef (ref_domain s) n k h1) (v\<lparr>nodeDomain := incMap (nodeDomain v) n k\<rparr>)"
    and "builds lo p h (decMapRef (ref_quota s) n k h1) (v\<lparr>nodeQuota := decMap (nodeQuota v) n k\<rparr>)"
    and "builds lo p h (decMapRef (ref_domain s) n k h1) (v\<lparr>nodeDomain := decMap (nodeDomain v) n k\<rparr>)"
proof -
  have own: "owned lo (hd h1) p" and s1: "mem_snap (hd h1) p = s" and v: "viewSnap (hd h1) p = v" using assms by (simp_all add: builds_def)
  have "mem_pods (hd h1) (ref_pods s) = snap_pods v" using v s1 by (auto simp: viewSnap_def)
  then show "builds lo p h (setPods (ref_pods s) (f (mem_pods (hd h1) (ref_pods s))) h1) (v\<lparr>snap_pods := f (snap_pods v)\<rparr>)"
    using builds_trans [OF assms(1) builds_pods [OF own s1]] v by simp
  note maps = builds_maps [OF own s1, unfolded v, THEN builds_trans [OF assms(1)]]
  show "builds lo p h (incMapRef (ref_quota s) n k h1) (v\<lparr>nodeQuota := incMap (nodeQuota v) n k\<rparr>)"
    "builds lo p h (incMapRef (ref_domain s) n k h1) (v\<lparr>nodeDomain := incMap (nodeDomain v) n k\<rparr>)"
    "builds lo p h (decMapRef (ref_quota s) n k h1) (v\<lparr>nodeQuota := decMap (nodeQuota v) n k\<rparr>)"
    "builds lo p h (decMapRef (ref_domain s) n k h1) (v\<lparr>nodeDomain := decMap (nodeDomain v) n k\<rparr>)" by (fact maps)+
qed

lemma builds_refl: "owned lo (hd h) p \<Longrightarrow> builds lo p h h (viewSnap (hd h) p)"
  by (simp add: builds_def cow.same_refl)

text \<open>\<open>unapplyCount\<close> and \<open>applyCount\<close> in place are those of \<open>State\<close>.\<close>

lemma unapplyCountRef_builds:
  assumes "owned lo (hd h) p"
  shows "builds lo p h (unapplyCountRef p u h) (unapplyCount (viewSnap (hd h) p) u)"
proof (cases "mget (mem_pods (hd h) (ref_pods (mem_snap (hd h) p))) u")
  case None
  then show ?thesis using assms by (simp add: unapplyCountRef_def unapplyCount_def builds_def cow.same_refl viewSnap_def)
next
  case (Some old)
  define s where "s = mem_snap (hd h) p"
  have s: "mem_snap (hd h) p = s" by (simp add: s_def)
  note b1 = builds_then(1) [OF builds_refl [OF assms] s, of "\<lambda>x. mdel x u"]
  note b2 = builds_then(4) [OF b1 s, of "NodeNameOf old" "QuotaKeyOf old"]
  note b3 = builds_then(5) [OF b2 s, of "NodeNameOf old" "SchedKeyOf old"]
  have "unapplyCountRef p u h = decMapRef (ref_domain s) (NodeNameOf old) (SchedKeyOf old)
      (decMapRef (ref_quota s) (NodeNameOf old) (QuotaKeyOf old) (setPods (ref_pods s) (mdel (mem_pods (hd h) (ref_pods s)) u) h))"
    using Some by (simp add: unapplyCountRef_def s_def Let_def)
  moreover have "(viewSnap (hd h) p)\<lparr>snap_pods := mdel (snap_pods (viewSnap (hd h) p)) u,
      nodeQuota := decMap (nodeQuota (viewSnap (hd h) p)) (NodeNameOf old) (QuotaKeyOf old),
      nodeDomain := decMap (nodeDomain (viewSnap (hd h) p)) (NodeNameOf old) (SchedKeyOf old)\<rparr> = unapplyCount (viewSnap (hd h) p) u"
    using Some by (simp add: unapplyCount_def viewSnap_def)
  ultimately show ?thesis using b3 by simp
qed

lemma applyCountRef_builds:
  assumes "owned lo (hd h) p"
  shows "builds lo p h (applyCountRef p u ref h) (applyCount (viewSnap (hd h) p) u ref)"
proof -
  define s where "s = mem_snap (hd h) p"
  have s: "mem_snap (hd h) p = s" by (simp add: s_def)
  let ?h1 = "if mget (mem_pods (hd h) (ref_pods s)) u \<noteq> None then unapplyCountRef p u h else h"
  let ?v1 = "if mget (snap_pods (viewSnap (hd h) p)) u \<noteq> None then unapplyCount (viewSnap (hd h) p) u else viewSnap (hd h) p"
  have pods: "snap_pods (viewSnap (hd h) p) = mem_pods (hd h) (ref_pods s)" by (simp add: viewSnap_def s_def)
  have b1: "builds lo p h ?h1 ?v1"
    using unapplyCountRef_builds [OF assms, of u] assms using builds_refl [OF assms] by (simp add: pods)
  note b2 = builds_then(1) [OF b1 s, of "\<lambda>x. mput x u ref"]
  note b3 = builds_then(2) [OF b2 s, of "NodeNameOf ref" "QuotaKeyOf ref"]
  note b4 = builds_then(3) [OF b3 s, of "NodeNameOf ref" "SchedKeyOf ref"]
  have "?v1\<lparr>snap_pods := mput (snap_pods ?v1) u ref, nodeQuota := incMap (nodeQuota ?v1) (NodeNameOf ref) (QuotaKeyOf ref),
      nodeDomain := incMap (nodeDomain ?v1) (NodeNameOf ref) (SchedKeyOf ref)\<rparr> = applyCount (viewSnap (hd h) p) u ref"
    by (simp add: applyCount_def Let_def)
  moreover have "applyCountRef p u ref h = incMapRef (ref_domain s) (NodeNameOf ref) (SchedKeyOf ref) (incMapRef (ref_quota s) (NodeNameOf ref) (QuotaKeyOf ref)
      (setPods (ref_pods s) (mput (mem_pods (hd ?h1) (ref_pods s)) u ref) ?h1))"
    by (simp add: applyCountRef_def s_def Let_def)
  ultimately show ?thesis using b4 by simp
qed

subsection \<open>Cloning\<close>

lemma copyPodsRef_builds:
  assumes "builds lo p h h1 v" and "mem_snap (hd h) p = s"
  shows "builds lo p h (copyPodsRef (ref_pods s) es h1) (v\<lparr>snap_pods := fold (\<lambda>(k, v) acc. mput acc k v) es (snap_pods v)\<rparr>)"
  using assms(1)
proof (induction es arbitrary: h1 v)
  case (Cons e es)
  from Cons.IH [OF builds_then(1) [OF Cons.prems assms(2), of "\<lambda>x. mput x (fst e) (snd e)"]] show ?case by (simp add: case_prod_unfold)
qed simp

lemma keeps_copyRow: "keeps {..<r} h (copyRowRef r es h)"
proof (induction es arbitrary: h)
  case (Cons e es)
  have "keeps {..<r} h (setRow r (mput (mem_row (hd h) r) (fst e) (snd e)) h)" by (intro keeps_set) simp
  then show ?case using Cons.IH by (simp add: cow.same_trans)
qed (simp add: cow.same_refl)

lemma hd_copyRow:
  "hd (copyRowRef r es h) = (hd h)\<lparr>mem_row := (mem_row (hd h))(r := fold (\<lambda>(k, v) acc. mput acc k v) es (mem_row (hd h) r))\<rparr>"
  by (induction es arbitrary: h) (simp_all add: case_prod_unfold)

lemma copyTableRef_edit:
  assumes "tableFine (hd h) a" and "set (a # rows (hd h) a) \<subseteq> {lo..}" and "lo \<le> mem_free (hd h)" and "snd ` set es \<subseteq> {..<lo}"
  shows "tableEdit a h (copyTableRef a es h) \<and> viewTable (hd (copyTableRef a es h)) a =
    fold (\<lambda>(n, m) c. mput c n (copyMap m)) (map (\<lambda>(n, r). (n, mem_row (hd h) r)) es) (viewTable (hd h) a)"
  using assms
proof (induction es arbitrary: h)
  case Nil
  then show ?case by (simp add: tableEdit_refl)
next
  case (Cons e es)
  obtain r h0 where row: "makeRow h = (r, h0)" by (cases "makeRow h")
  let ?src = "mem_row (hd h0) (snd e)"
  let ?h1 = "copyRowRef r ?src h0"
  let ?h2 = "setTable a (mput (mem_table (hd ?h1) a) (fst e) r) ?h1"
  have r: "r = mem_free (hd h)" and h0: "mem_row (hd h0) = (mem_row (hd h))(r := [])" using row by (auto simp: makeRow_def act_def)
  have src: "?src = mem_row (hd h) (snd e)" using Cons.prems(3,4) by (auto simp: h0 r)
  have fill: "hd ?h1 = (hd h0)\<lparr>mem_row := (mem_row (hd h0))(r := copyMap (mem_row (hd h) (snd e)))\<rparr>"
    unfolding hd_copyRow src by (simp add: h0 copyMap_def)
  note new = newRow_edit [OF Cons.prems(1) row keeps_copyRow fill, of "fst e"]
  have "{..<lo} \<subseteq> {..<mem_free (hd h)} - set (a # rows (hd h) a)" using Cons.prems(2,3) by auto
  from edit_apart(1) [OF new(1) this] have old: "mem_row (hd ?h2) x = mem_row (hd h) x" if "x < lo" for x using that by (simp add: sameMem_def)
  have "tableFine (hd ?h2) a" "mem_free (hd h) \<le> mem_free (hd ?h2)" "set (rows (hd ?h2) a) \<subseteq> set (rows (hd h) a) \<union> {mem_free (hd h)..<mem_free (hd ?h2)}"
    using new(1) by (simp_all only: tableEdit_def)
  moreover have "set (a # rows (hd ?h2) a) \<subseteq> {lo..}"
    using calculation(3) Cons.prems(2,3) by (auto simp del: hd_set set_map)
  ultimately have "tableEdit a ?h2 (copyTableRef a es ?h2) \<and> viewTable (hd (copyTableRef a es ?h2)) a =
      fold (\<lambda>(n, m) c. mput c n (copyMap m)) (map (\<lambda>(n, r). (n, mem_row (hd ?h2) r)) es) (viewTable (hd ?h2) a)"
    using Cons.prems(3,4) by (intro Cons.IH) (simp_all del: hd_set)
  moreover have "map (\<lambda>(n, r). (n, mem_row (hd ?h2) r)) es = map (\<lambda>(n, r). (n, mem_row (hd h) r)) es"
    using Cons.prems(4) old by (auto simp del: hd_set)
  moreover have "copyTableRef a (e # es) h = copyTableRef a es ?h2" by (simp add: row Let_def)
  ultimately show ?case using tableEdit_trans [OF new(1)] new(2) by (simp add: case_prod_unfold del: hd_set map_eq_conv copyTableRef.simps)
qed

text \<open>What a constructor of a new snapshot promises: a complete value in new memory, while everything older is untouched.\<close>

definition constructs :: "(history \<Rightarrow> addr \<times> history) \<Rightarrow> history \<Rightarrow> snapshot \<Rightarrow> bool" where
  "constructs f h v \<longleftrightarrow> (case f h of (c, h') \<Rightarrow> keeps {..<mem_free (hd h)} h h' \<and> owned (mem_free (hd h)) (hd h') c \<and>
     viewSnap (hd h') c = v \<and> mem_free (hd h) \<le> mem_free (hd h'))"

lemma newSnapshotRef_constructs: "constructs newSnapshotRef h emptySnapshot"
proof -
  obtain ps h1 where 1: "makePods h = (ps, h1)" by (cases "makePods h")
  obtain q h2 where 2: "makeTable h1 = (q, h2)" by (cases "makeTable h1")
  obtain d h3 where 3: "makeTable h2 = (d, h3)" by (cases "makeTable h2")
  let ?s = "\<lparr>ref_pods = ps, ref_quota = q, ref_domain = d\<rparr>" and ?n = "mem_free (hd h)"
  obtain c h4 where 4: "newSnap ?s h3 = (c, h4)" by (cases "newSnap ?s h3")
  have addrs: "ps = ?n" "q = Suc ?n" "d = Suc (Suc ?n)" "c = Suc (Suc (Suc ?n))" and free: "mem_free (hd h4) = Suc (Suc (Suc (Suc ?n)))"
    using 1 2 3 4 by (auto simp: act_defs)
  have cell: "mem_snap (hd h4) c = ?s" "mem_pods (hd h4) ps = []" "mem_table (hd h4) q = []" "mem_table (hd h4) d = []"
    using 1 2 3 4 by (auto simp: act_defs)
  have steps: "h1 = snd (makePods h)" "h2 = snd (makeTable h1)" "h3 = snd (makeTable h2)" "h4 = snd (newSnap ?s h3)" using 1 2 3 4 by simp_all
  have ge: "mem_free (hd h1) \<ge> ?n" "mem_free (hd h2) \<ge> ?n" "mem_free (hd h3) \<ge> ?n" using 1 2 3 by (auto simp: act_defs)
  have k: "keeps {..<?n} h h1" "keeps {..<?n} h1 h2" "keeps {..<?n} h2 h3" "keeps {..<?n} h3 h4"
    by (subst steps, rule keeps_make, use ge in simp)+
  have "keeps {..<?n} h h4" by (rule cow.same_trans [OF cow.same_trans [OF cow.same_trans [OF k(1,2)] k(3)] k(4)])
  moreover have "newSnapshotRef h = (c, h4)" using 1 2 3 4 by (simp add: newSnapshotRef_def)
  moreover have "owned ?n (hd h4) c" using addrs free cell by (simp add: owned_def cells_def)
  moreover have "viewSnap (hd h4) c = emptySnapshot" using cell by (simp add: viewSnap_def viewTable_def emptySnapshot_def)
  ultimately show ?thesis using free by (simp add: constructs_def)
qed

lemma keeps_table:
  assumes "keeps A h h'" and "set (a # rows (hd h) a) \<subseteq> A"
  shows "mem_table (hd h') a = mem_table (hd h) a" and "viewTable (hd h') a = viewTable (hd h) a"
proof -
  have "sameMem (insert a (set (rows (hd h) a))) (hd h) (hd h')" by (rule sameMem_mono [OF keeps_hd(1) [OF assms(1)]]) (use assms(2) in simp)
  from viewTable_same [OF this] show "mem_table (hd h') a = mem_table (hd h) a" "viewTable (hd h') a = viewTable (hd h) a" by simp_all
qed

lemma copyTableRef_builds:
  assumes b: "builds lo c h h1 v" and s: "mem_snap (hd h) c = s" and src: "set (rows (hd h1) a) \<subseteq> {..<lo}"
  defines "copied \<equiv> \<lambda>t. fold (\<lambda>(n, m) c. mput c n (copyMap m)) (viewTable (hd h1) a) t"
  shows "builds lo c h (copyTableRef (ref_quota s) (mem_table (hd h1) a) h1) (v\<lparr>nodeQuota := copied (nodeQuota v)\<rparr>)"
    and "builds lo c h (copyTableRef (ref_domain s) (mem_table (hd h1) a) h1) (v\<lparr>nodeDomain := copied (nodeDomain v)\<rparr>)"
proof -
  have own: "owned lo (hd h1) c" and s1: "mem_snap (hd h1) c = s" and v: "viewSnap (hd h1) c = v" using b s by (simp_all add: builds_def)
  have lo: "lo \<le> mem_free (hd h1)" "set (ref_quota s # rows (hd h1) (ref_quota s)) \<subseteq> {lo..}" "set (ref_domain s # rows (hd h1) (ref_domain s)) \<subseteq> {lo..}"
    using own by (auto simp: owned_def cells_def s1)
  have vs: "nodeQuota v = viewTable (hd h1) (ref_quota s)" "nodeDomain v = viewTable (hd h1) (ref_domain s)" using v s1 by (auto simp: viewSnap_def)
  have fine: "tableFine (hd h1) (ref_quota s)" "tableFine (hd h1) (ref_domain s)" using owned_tables [OF own] s1 by simp_all
  have src': "snd ` set (mem_table (hd h1) a) \<subseteq> {..<lo}" using src by simp
  note q = copyTableRef_edit [OF fine(1) lo(2) lo(1) src', folded viewTable_def]
  note d = copyTableRef_edit [OF fine(2) lo(3) lo(1) src', folded viewTable_def]
  show "builds lo c h (copyTableRef (ref_quota s) (mem_table (hd h1) a) h1) (v\<lparr>nodeQuota := copied (nodeQuota v)\<rparr>)"
    using builds_trans [OF b builds_quota [OF own s1 conjunct1 [OF q]]] q by (simp add: v vs copied_def)
  show "builds lo c h (copyTableRef (ref_domain s) (mem_table (hd h1) a) h1) (v\<lparr>nodeDomain := copied (nodeDomain v)\<rparr>)"
    using builds_trans [OF b builds_domain [OF own s1 conjunct1 [OF d]]] d by (simp add: v vs copied_def)
qed

lemma cloneRef_constructs:
  assumes "set (cells (hd h) p) \<subseteq> {..<mem_free (hd h)}"
  shows "constructs (cloneRef p) h (snapshot_clone (viewSnap (hd h) p))"
proof -
  let ?n = "mem_free (hd h)" and ?s = "mem_snap (hd h) p"
  obtain c h1 where new: "newSnapshotRef h = (c, h1)" by (cases "newSnapshotRef h")
  define cs where "cs = mem_snap (hd h1) c"
  have cs: "mem_snap (hd h1) c = cs" by (simp add: cs_def)
  have k1: "keeps {..<?n} h h1" and own: "owned ?n (hd h1) c" and v1: "viewSnap (hd h1) c = emptySnapshot" and n1: "?n \<le> mem_free (hd h1)"
    using newSnapshotRef_constructs [of h] new by (simp_all add: constructs_def)
  have src: "set (ref_quota ?s # rows (hd h) (ref_quota ?s)) \<subseteq> {..<?n}" "set (ref_domain ?s # rows (hd h) (ref_domain ?s)) \<subseteq> {..<?n}" "ref_pods ?s < ?n"
    using assms by (auto simp: cells_def)
  have ps: "mem_pods (hd h1) (ref_pods ?s) = mem_pods (hd h) (ref_pods ?s)" using keeps_hd(1) [OF k1] src(3) by (simp add: sameMem_def)
  define h2 where "h2 = copyPodsRef (ref_pods cs) (mem_pods (hd h1) (ref_pods ?s)) h1"
  note b2 = copyPodsRef_builds [OF builds_refl [OF own] cs, of "mem_pods (hd h1) (ref_pods ?s)", folded h2_def]
  have k2: "keeps {..<?n} h h2" using b2 by (intro cow.same_trans [OF k1]) (simp only: builds_def)
  note t2 = keeps_table [OF k2 src(1)]
  define h3 where "h3 = copyTableRef (ref_quota cs) (mem_table (hd h2) (ref_quota ?s)) h2"
  have "set (rows (hd h2) (ref_quota ?s)) \<subseteq> {..<?n}" using src(1) t2(1) by simp
  note b3 = copyTableRef_builds(1) [OF b2 cs this, folded h3_def]
  have k3: "keeps {..<?n} h h3" using b3 by (intro cow.same_trans [OF k1]) (simp only: builds_def)
  note t3 = keeps_table [OF k3 src(2)]
  define h4 where "h4 = copyTableRef (ref_domain cs) (mem_table (hd h3) (ref_domain ?s)) h3"
  have "set (rows (hd h3) (ref_domain ?s)) \<subseteq> {..<?n}" using src(2) t3(1) by simp
  note b4 = copyTableRef_builds(2) [OF b3 cs this, folded h4_def]
  have k4: "keeps {..<?n} h h4" using b4 by (intro cow.same_trans [OF k1]) (simp only: builds_def)
  have "cloneRef p h = (c, h4)" by (simp add: cloneRef_def new Let_def cs_def h2_def h3_def h4_def)
  moreover have "viewSnap (hd h4) c = snapshot_clone (viewSnap (hd h) p)"
    using b4 by (simp add: builds_def v1 t2(2) t3(2) ps) (simp add: snapshot_clone_def emptySnapshot_def copyMap_def viewSnap_def)
  ultimately show ?thesis using b4 k4 n1 by (simp add: constructs_def builds_def)
qed

subsection \<open>Publication\<close>

text \<open>The operations that replace the snapshot, as they are serialised by the mutex.\<close>

datatype snapOp = UpsertCount uid podRef | RemoveCount uid | Rebuild "(uid, podRef) gomap"

primrec runSnapOp :: "snapOp \<Rightarrow> spreadState \<Rightarrow> spreadState" where
  "runSnapOp (UpsertCount u ref) s = upsertCount u ref s"
| "runSnapOp (RemoveCount u) s = removeCount u s"
| "runSnapOp (Rebuild pods) s = rebuild pods s"

primrec runSnapOpRef :: "snapOp \<Rightarrow> history \<Rightarrow> history" where
  "runSnapOpRef (UpsertCount u ref) h = upsertCountRef u ref h"
| "runSnapOpRef (RemoveCount u) h = removeCountRef u h"
| "runSnapOpRef (Rebuild pods) h = rebuildRef pods h"

lemma constructs_then:
  assumes "constructs f h v" and "f h = (c, h1)" and "\<And>lo. owned lo (hd h1) c \<Longrightarrow> builds lo c h1 h2 (g (viewSnap (hd h1) c))"
  shows "keeps {..<mem_free (hd h)} h h2 \<and> owned (mem_free (hd h)) (hd h2) c \<and> viewSnap (hd h2) c = g v \<and> mem_free (hd h) \<le> mem_free (hd h2)"
proof -
  have 1: "keeps {..<mem_free (hd h)} h h1" "owned (mem_free (hd h)) (hd h1) c" "viewSnap (hd h1) c = v" "mem_free (hd h) \<le> mem_free (hd h1)"
    using assms(1,2) by (simp_all add: constructs_def)
  from assms(3) [OF 1(2)] have 2: "keeps {..<mem_free (hd h)} h1 h2" "owned (mem_free (hd h)) (hd h2) c" "viewSnap (hd h2) c = g v" "mem_free (hd h1) \<le> mem_free (hd h2)"
    using 1(3) by (simp_all add: builds_def)
  from cow.same_trans [OF 1(1) 2(1)] 1(4) 2 show ?thesis by simp
qed

lemma applyAllRef_builds:
  assumes "builds lo p h h1 v"
  shows "builds lo p h (applyAllRef p es h1) (fold (\<lambda>(u, ref) snap. applyCount snap u ref) es v)"
  using assms
proof (induction es arbitrary: h1 v)
  case (Cons e es)
  have "builds lo p h1 (applyCountRef p (fst e) (snd e) h1) (applyCount v (fst e) (snd e))"
    using applyCountRef_builds [of lo h1 p "fst e" "snd e"] Cons.prems by (simp add: builds_def)
  from Cons.IH [OF builds_trans [OF Cons.prems this]] show ?case by (simp add: case_prod_unfold)
qed simp

text \<open>Every operation builds the snapshot of \<open>State\<close> in new memory and then stores its address, in one step.\<close>

lemma runSnapOpRef_publishes:
  assumes "set (cells (hd h) (mem_root (hd h))) \<subseteq> {..<mem_free (hd h)}" and "viewSnap (hd h) (mem_root (hd h)) = st_snap s"
  obtains c h1 where "runSnapOpRef op h = storeRoot c h1" and "keeps {..<mem_free (hd h)} h h1" and "owned (mem_free (hd h)) (hd h1) c"
    and "viewSnap (hd h1) c = st_snap (runSnapOp op s)" and "mem_free (hd h) \<le> mem_free (hd h1)"
proof -
  obtain c h1 where clone: "cloneRef (mem_root (hd h)) h = (c, h1)" by (cases "cloneRef (mem_root (hd h)) h")
  obtain d h2 where new: "newSnapshotRef h = (d, h2)" by (cases "newSnapshotRef h")
  note cloned = constructs_then [OF cloneRef_constructs [OF assms(1)] clone, unfolded assms(2)]
  show thesis
  proof (cases op)
    case (UpsertCount u ref)
    with clone cloned [of "applyCountRef c u ref h1" "\<lambda>v. applyCount v u ref", OF applyCountRef_builds] show thesis
      by (intro that [of c "applyCountRef c u ref h1"]) (simp_all add: upsertCountRef_def upsertCount_def)
  next
    case (RemoveCount u)
    with clone cloned [of "unapplyCountRef c u h1" "\<lambda>v. unapplyCount v u", OF unapplyCountRef_builds] show thesis
      by (intro that [of c "unapplyCountRef c u h1"]) (simp_all add: removeCountRef_def removeCount_def)
  next
    case (Rebuild pods)
    with new constructs_then [where g = "fold (\<lambda>(u, ref) snap. applyCount snap u ref) pods", OF newSnapshotRef_constructs new applyAllRef_builds [OF builds_refl]]
    show thesis by (intro that [of d "applyAllRef d pods h2"]) (simp_all add: rebuildRef_def rebuild_def rebuildSnapshot_def)
  qed
qed

text \<open>The interface of publication through a root pointer. \<open>stable\<close> histories are those in which what a memory publishes is intact in
  every later memory; building in new memory and then storing the root keeps a history stable.\<close>

locale publisher =
  fixes free :: "'m \<Rightarrow> addr"
    and same :: "addr set \<Rightarrow> 'm \<Rightarrow> 'm \<Rightarrow> bool"
    and root :: "'m \<Rightarrow> addr"
    and foot :: "'m \<Rightarrow> addr \<Rightarrow> addr set"
    and view :: "'m \<Rightarrow> addr \<Rightarrow> 'v"
  assumes same_mono: "same B m m' \<Longrightarrow> A \<subseteq> B \<Longrightarrow> same A m m'"
    and same_trans: "same A m m' \<Longrightarrow> same A m' m'' \<Longrightarrow> same A m m''"
    and same_sym: "same A m m' \<Longrightarrow> same A m' m"
    and same_refl: "same A m m"
    and framed: "same (foot m p) m m' \<Longrightarrow> view m' p = view m p \<and> foot m' p = foot m p"
begin

definition stable :: "'m list \<Rightarrow> bool" where
  "stable h \<longleftrightarrow> h \<noteq> [] \<and> sorted_wrt (\<lambda>m' m. same (foot m (root m)) m m') h \<and> (\<forall>m\<in>set h. foot m (root m) \<subseteq> {..<free (hd h)})"

lemma stable_single: "foot m (root m) \<subseteq> {..<free m} \<Longrightarrow> stable [m]"
  by (simp add: stable_def)

lemma stable_hd: "stable h \<Longrightarrow> foot (hd h) (root (hd h)) \<subseteq> {..<free (hd h)}"
  by (simp add: stable_def)

lemma stable_view:
  assumes "stable (later @ m # earlier)" and "m' \<in> set (later @ [m])"
  shows "view m' (root m) = view m (root m)" and "same (foot m (root m)) m m'"
proof -
  show s: "same (foot m (root m)) m m'" using assms by (auto simp: stable_def sorted_wrt_append same_refl)
  show "view m' (root m) = view m (root m)" using framed [OF s] by simp
qed

lemma stable_hd_same:
  assumes "stable h" and "m \<in> set h" shows "same (foot m (root m)) m (hd h)"
  using assms by (cases h) (auto simp: stable_def same_refl)

lemma built:
  assumes h: "stable h" and new: "\<forall>m\<in>set new. same {..<free (hd h)} (hd h) m \<and> root m = root (hd h)" and free: "free (hd h) \<le> free (hd (new @ h))"
  shows "stable (new @ h)" and "m \<in> set new \<Longrightarrow> view m (root m) = view (hd h) (root (hd h))"
proof -
  let ?m0 = "hd h"
  have f0: "foot ?m0 (root ?m0) \<subseteq> {..<free ?m0}" using h by (rule stable_hd)
  have n: "same (foot ?m0 (root ?m0)) ?m0 m \<and> foot m (root m) = foot ?m0 (root ?m0) \<and> view m (root m) = view ?m0 (root ?m0)" if "m \<in> set new" for m
  proof -
    have "root m = root ?m0" and s: "same (foot ?m0 (root ?m0)) ?m0 m" using new that same_mono [OF _ f0] by simp_all
    with framed [OF s] show ?thesis by simp
  qed
  then show "m \<in> set new \<Longrightarrow> view m (root m) = view ?m0 (root ?m0)" by simp
  have nn: "same (foot m (root m)) m m'" if "m \<in> set new" "m' \<in> set new" for m m'
    using n [OF that(1)] n [OF that(2)] same_trans [OF same_sym] by metis
  have on: "same (foot m (root m)) m m'" if "m \<in> set h" "m' \<in> set new" for m m'
  proof -
    have "foot m (root m) \<subseteq> {..<free ?m0}" using h that(1) by (simp add: stable_def)
    with new that(2) show ?thesis by (blast intro: same_trans [OF stable_hd_same [OF h that(1)]] same_mono)
  qed
  have "sorted_wrt (\<lambda>m' m. same (foot m (root m)) m m') new" by (rule sorted_wrt_mono_rel [OF _ sorted_wrt_true]) (auto intro: nn)
  with on h have "sorted_wrt (\<lambda>m' m. same (foot m (root m)) m m') (new @ h)" by (simp add: sorted_wrt_append stable_def)
  moreover have "foot m (root m) \<subseteq> {..<free (hd (new @ h))}" if "m \<in> set (new @ h)" for m
  proof -
    have "foot m (root m) \<subseteq> {..<free ?m0}" using that n [of m] f0 h by (cases "m \<in> set new") (simp_all add: stable_def)
    also have "\<dots> \<subseteq> {..<free (hd (new @ h))}" using free by simp
    finally show ?thesis .
  qed
  ultimately show "stable (new @ h)" using h by (simp add: stable_def)
qed

lemma published:
  assumes h: "stable h" and "\<And>A. same A (hd h) m" and "free m = free (hd h)" and "root m = c" and "foot (hd h) c \<subseteq> {..<free (hd h)}"
  shows "stable (m # h)" and "view m (root m) = view (hd h) c"
proof -
  have c: "view m c = view (hd h) c \<and> foot m c = foot (hd h) c" by (rule framed) (rule assms(2))
  then show "view m (root m) = view (hd h) c" by (simp add: assms(4))
  have "same (foot m' (root m')) m' m" if "m' \<in> set h" for m' by (rule same_trans [OF stable_hd_same [OF h that] assms(2)])
  then show "stable (m # h)" using h c assms(3-5) by (simp add: stable_def)
qed

end

interpretation pub: publisher mem_free sameMem mem_root "\<lambda>m p. set (cells m p)" viewSnap
  by unfold_locales (auto intro: sameMem_mono sameMem_trans sameMem_sym simp: snap_same)

text \<open>A run of operations: every memory of the history publishes the snapshot of one of the states that \<open>State\<close> goes through.\<close>

lemma run_stable:
  assumes "pub.stable h" and "viewSnap (hd h) (mem_root (hd h)) = st_snap s"
  shows "\<exists>new. fold runSnapOpRef ops h = new @ h \<and> pub.stable (new @ h) \<and>
    viewSnap (hd (new @ h)) (mem_root (hd (new @ h))) = st_snap (fold runSnapOp ops s) \<and>
    (\<forall>m\<in>set new. \<exists>k\<le>length ops. viewSnap m (mem_root m) = st_snap (fold runSnapOp (take k ops) s))"
  using assms
proof (induction ops arbitrary: h s)
  case (Cons op ops)
  obtain c h1 where run: "runSnapOpRef op h = storeRoot c h1" and k: "keeps {..<mem_free (hd h)} h h1" and own: "owned (mem_free (hd h)) (hd h1) c"
    and v: "viewSnap (hd h1) c = st_snap (runSnapOp op s)" and f: "mem_free (hd h) \<le> mem_free (hd h1)"
    by (rule runSnapOpRef_publishes [OF pub.stable_hd [OF Cons.prems(1)] Cons.prems(2), of op])
  obtain new where h1: "h1 = new @ h" and n: "\<forall>m\<in>set new. sameMem {..<mem_free (hd h)} (hd h) m \<and> mem_root m = mem_root (hd h)"
    using k by (auto simp: keeps_def)
  let ?m = "(hd h1)\<lparr>mem_root := c\<rparr>"
  note b = pub.built [OF Cons.prems(1) n f [unfolded h1], folded h1]
  have same: "sameMem A (hd h1) ?m" for A by (simp add: sameMem_def)
  have "set (cells (hd h1) c) \<subseteq> {..<mem_free (hd h1)}" using own by (auto simp: owned_def)
  note p = pub.published [OF b(1) same, of c] this
  have st: "pub.stable (?m # h1)" and vm: "viewSnap (hd (?m # h1)) (mem_root (hd (?m # h1))) = st_snap (runSnapOp op s)"
    using p v by simp_all
  obtain new' where new': "fold runSnapOpRef ops (?m # h1) = new' @ ?m # h1" "pub.stable (new' @ ?m # h1)"
    "viewSnap (hd (new' @ ?m # h1)) (mem_root (hd (new' @ ?m # h1))) = st_snap (fold runSnapOp ops (runSnapOp op s))"
    "\<forall>m\<in>set new'. \<exists>k\<le>length ops. viewSnap m (mem_root m) = st_snap (fold runSnapOp (take k ops) (runSnapOp op s))"
    using Cons.IH [OF st vm] by blast
  have "\<exists>k\<le>length (op # ops). viewSnap m (mem_root m) = st_snap (fold runSnapOp (take k (op # ops)) s)" if m: "m \<in> set (new' @ ?m # new)" for m
  proof -
    consider "m \<in> set new'" | "m = ?m" | "m \<in> set new" using m by auto
    then show ?thesis
    proof cases
      case 1
      then obtain k where "k \<le> length ops" "viewSnap m (mem_root m) = st_snap (fold runSnapOp (take k ops) (runSnapOp op s))" using new'(4) by blast
      then show ?thesis by (intro exI [of _ "Suc k"]) simp
    next
      case 2
      with vm show ?thesis by (intro exI [of _ "Suc 0"]) simp
    next
      case 3
      with b(2) Cons.prems(2) show ?thesis by (intro exI [of _ 0]) simp
    qed
  qed
  moreover have "fold runSnapOpRef (op # ops) h = (new' @ ?m # new) @ h" using new'(1) by (simp add: run storeRoot_def act_def h1)
  ultimately show ?case using new'(2,3) by (intro exI [of _ "new' @ ?m # new"]) (simp add: h1)
qed simp

lemma newStateRef_stable:
  "pub.stable (newStateRef m)" "viewSnap (hd (newStateRef m)) (mem_root (hd (newStateRef m))) = st_snap newSpreadState"
proof -
  obtain c h1 where new: "newSnapshotRef [m] = (c, h1)" by (cases "newSnapshotRef [m]")
  let ?m = "(hd h1)\<lparr>mem_root := c\<rparr>"
  have own: "owned (mem_free m) (hd h1) c" and v: "viewSnap (hd h1) c = emptySnapshot"
    using newSnapshotRef_constructs [of "[m]"] new by (simp_all add: constructs_def)
  have "sameMem (set (cells (hd h1) c)) (hd h1) ?m" by (simp add: sameMem_def)
  note same = snap_same(1,2) [OF this]
  have h: "newStateRef m = [?m]" by (simp add: newStateRef_def new)
  have "pub.stable [?m]" by (rule pub.stable_single) (use own same in \<open>auto simp: owned_def\<close>)
  then show "pub.stable (newStateRef m)" by (simp only: h)
  show "viewSnap (hd (newStateRef m)) (mem_root (hd (newStateRef m))) = st_snap newSpreadState"
    using v same(1) by (simp add: h newSpreadState_def)
qed

text \<open>A reader whose accesses all find the loaded snapshot intact computes \<open>count\<close> of it.\<close>

lemma countRef_count:
  assumes "\<And>i. sameMem (set (cells m p)) m (at i)"
  shows "countRef at p node q k = snapshot_count (viewSnap m p) node q k"
proof -
  let ?s = "mem_snap m p"
  have eq: "mem_snap (at i) p = ?s" "mem_table (at i) (ref_quota ?s) = mem_table m (ref_quota ?s)" "mem_table (at i) (ref_domain ?s) = mem_table m (ref_domain ?s)" for i
    using assms [of i] by (simp_all add: sameMem_def cells_def)
  have row: "mem_row (at i) r = mem_row m r"
    if "mget (mem_table m (ref_quota ?s)) node = Some r \<or> mget (mem_table m (ref_domain ?s)) node = Some r" for i r
  proof -
    have "r \<in> set (cells m p)" using that by (force simp: cells_def dest: map_of_SomeD)
    then show ?thesis using assms [of i] by (simp add: sameMem_def)
  qed
  show ?thesis by (simp add: countRef_def snapshot_count_def viewSnap_def mget_viewTable eq row split: option.split)
qed

lemma append_split_late:
  assumes "later @ x # earlier = new @ old" and "old \<noteq> []" and "length old \<le> Suc (length earlier)"
  shows "x \<in> set new \<or> x = hd old"
  using assms by (auto simp: append_eq_append_conv2 Cons_eq_append_conv)

text \<open>C7: after any sequence of insertions, removals and rebuilds, done cell by cell in shared memory, the published pointer denotes the
  snapshot that \<open>State\<close> computes. A reader that loads the pointer at any moment after the first \<open>length before\<close> operations, also in the
  middle of one, and then reads the maps at any later moments, gets the counts of one single snapshot of \<open>State\<close>, at least as recent as those
  operations; what it loaded is never written to again.\<close>

theorem readers_see_complete_snapshots:
  assumes "fold runSnapOpRef (before @ after) (newStateRef m0) = later @ loaded # earlier"
    and "length (fold runSnapOpRef before (newStateRef m0)) \<le> length (loaded # earlier)"
    and "\<And>i. at i \<in> set (later @ [loaded])"
  shows "viewSnap (hd (later @ loaded # earlier)) (mem_root (hd (later @ loaded # earlier))) =
        st_snap (fold runSnapOp (before @ after) newSpreadState) \<and>
    (\<exists>k. length before \<le> k \<and> k \<le> length (before @ after) \<and>
      (let snap = st_snap (fold runSnapOp (take k (before @ after)) newSpreadState)
       in (\<forall>node q d. countRef at (mem_root loaded) node q d = snapshot_count snap node q d) \<and>
          (\<forall>m\<in>set (later @ [loaded]). viewSnap m (mem_root loaded) = snap)))"
proof
  let ?h0 = "newStateRef m0" and ?hist = "later @ loaded # earlier"
  obtain new where r1: "fold runSnapOpRef before ?h0 = new @ ?h0" "pub.stable (new @ ?h0)"
    "viewSnap (hd (new @ ?h0)) (mem_root (hd (new @ ?h0))) = st_snap (fold runSnapOp before newSpreadState)"
    using run_stable [OF newStateRef_stable] by blast
  let ?s = "fold runSnapOp before newSpreadState"
  obtain new' where r2: "fold runSnapOpRef after (new @ ?h0) = new' @ new @ ?h0" "pub.stable (new' @ new @ ?h0)"
    "viewSnap (hd (new' @ new @ ?h0)) (mem_root (hd (new' @ new @ ?h0))) = st_snap (fold runSnapOp after ?s)"
    "\<forall>m\<in>set new'. \<exists>k\<le>length after. viewSnap m (mem_root m) = st_snap (fold runSnapOp (take k after) ?s)"
    using run_stable [OF r1(2,3)] by blast
  have h: "?hist = new' @ new @ ?h0" using assms(1) r1(1) r2(1) by simp
  show "viewSnap (hd ?hist) (mem_root (hd ?hist)) = st_snap (fold runSnapOp (before @ after) newSpreadState)" using r2(3) by (simp add: h)
  have ne: "new @ ?h0 \<noteq> []" using r1(2) by (simp add: pub.stable_def)
  have "length (new @ ?h0) \<le> Suc (length earlier)" using assms(2) r1(1) by simp
  from append_split_late [OF h ne this] obtain k where k: "k \<le> length after" "viewSnap loaded (mem_root loaded) = st_snap (fold runSnapOp (take k after) ?s)"
    using r2(4) r1(3) by (metis fold_simps(1) id_apply le0 take_0)
  have st: "pub.stable ?hist" using r2(2) h by simp
  note v = pub.stable_view [OF st]
  let ?snap = "st_snap (fold runSnapOp (take (length before + k) (before @ after)) newSpreadState)"
  have snap: "viewSnap loaded (mem_root loaded) = ?snap" using k(2) by simp
  have "countRef at (mem_root loaded) node q d = snapshot_count ?snap node q d" for node q d
    using countRef_count [of loaded "mem_root loaded" at, OF v(2) [OF assms(3)]] snap by simp
  then show "\<exists>k. length before \<le> k \<and> k \<le> length (before @ after) \<and>
      (let snap = st_snap (fold runSnapOp (take k (before @ after)) newSpreadState)
       in (\<forall>node q d. countRef at (mem_root loaded) node q d = snapshot_count snap node q d) \<and>
          (\<forall>m\<in>set (later @ [loaded]). viewSnap m (mem_root loaded) = snap))"
    using k(1) v(1) snap unfolding Let_def by (intro exI [of _ "length before + k"]) auto
qed

text \<open>A reader that loads the pointer when the second pod has been counted in the new snapshot, which is not published yet.\<close>

theorem readers_see_complete_snapshots_witness:
  "\<exists>m loaded earlier k. fold runSnapOpRef [UpsertCount ''u1'' (exampleRef ''n1''), UpsertCount ''u2'' (exampleRef ''n1'')] (newStateRef mem0) =
       m # loaded # earlier \<and> 1 \<le> k \<and> k \<le> 2 \<and>
     countRef (\<lambda>i. if i = 0 then loaded else m) (mem_root loaded) ''n1'' ''q'' ''q/d'' = snapshot_count (st_snap (fold runSnapOp
       (take k [UpsertCount ''u1'' (exampleRef ''n1''), UpsertCount ''u2'' (exampleRef ''n1'')]) newSpreadState)) ''n1'' ''q'' ''q/d''"
proof -
  let ?u1 = "UpsertCount ''u1'' (exampleRef ''n1'')" and ?u2 = "UpsertCount ''u2'' (exampleRef ''n1'')"
  obtain new where h: "fold runSnapOpRef [?u1] (newStateRef mem0) = new @ newStateRef mem0" "pub.stable (new @ newStateRef mem0)"
    "viewSnap (hd (new @ newStateRef mem0)) (mem_root (hd (new @ newStateRef mem0))) = st_snap (fold runSnapOp [?u1] newSpreadState)"
    using run_stable [OF newStateRef_stable] by blast
  obtain c h1 where run: "runSnapOpRef ?u2 (new @ newStateRef mem0) = storeRoot c h1" and k: "keeps {..<mem_free (hd (new @ newStateRef mem0))} (new @ newStateRef mem0) h1"
    by (rule runSnapOpRef_publishes [OF pub.stable_hd [OF h(2)] h(3)])
  have len: "length (new @ newStateRef mem0) \<le> length h1" using k by (auto simp: keeps_def)
  moreover have "new @ newStateRef mem0 \<noteq> []" using h(2) by (simp add: pub.stable_def)
  ultimately obtain loaded earlier where h1: "h1 = loaded # earlier" by (cases h1) auto
  let ?m = "(hd h1)\<lparr>mem_root := c\<rparr>"
  have all: "fold runSnapOpRef ([?u1] @ [?u2]) (newStateRef mem0) = [?m] @ loaded # earlier"
    using h(1) run by (simp add: storeRoot_def act_def h1)
  have len1: "length (fold runSnapOpRef [?u1] (newStateRef mem0)) \<le> length (loaded # earlier)" using len h(1) h1 by simp
  have at: "(if i = 0 then loaded else ?m) \<in> set ([?m] @ [loaded])" for i :: nat by simp
  obtain k where "1 \<le> k" "k \<le> 2" "\<forall>node q d. countRef (\<lambda>i. if i = 0 then loaded else ?m) (mem_root loaded) node q d =
      snapshot_count (st_snap (fold runSnapOp (take k ([?u1] @ [?u2])) newSpreadState)) node q d"
    using readers_see_complete_snapshots [where at = "\<lambda>i. if i = 0 then loaded else ?m", OF all len1 at] unfolding Let_def by auto
  with all show ?thesis by (intro exI [of _ ?m] exI [of _ loaded] exI [of _ earlier] exI [of _ k]) simp
qed

end
