(* ===== verification/Janitor.thy ===== *)
theory Janitor
  imports Seats
begin

section \<open>The janitor between the other methods\<close>

text \<open>
  \<open>janitorOnce\<close> of \<open>internal/spread/lifecycle.go\<close> is not one critical section: it takes the mutex for the scan, lists the cluster without it, and
  takes it again for each look at a reservation and for each release. This theory cuts a pass where it releases the mutex, shows that the pieces add up to
  \<open>janitorOnce\<close> of \<open>Lifecycle\<close> when nothing comes between them, and lets any method of \<open>spreadState\<close> and any pod event run between them.
\<close>

subsection \<open>A pass, critical section by critical section\<close>

text \<open>Where a pass stands, with the local variables that are still read: the listing \<open>counts\<close>, the UID in hand with the node that was
  read for it, and the UIDs that are left.\<close>

datatype janitorPhase =
    JScan
  | JList "uid list"
  | JLook "(uid, podRef) gomap" "uid list"
  | JDrop "(uid, podRef) gomap" uid string "uid list"
  | JRebuild "(uid, podRef) gomap" uid "uid list"
  | JRelease "(uid, podRef) gomap" uid "uid list"
  | JCheck "(uid, podRef) gomap" uid "uid list"
  | JDone

fun janitorPiece ::
    "duration \<Rightarrow> int \<Rightarrow> countListing \<Rightarrow> janitorPhase \<times> uid list \<times> spreadState \<Rightarrow> janitorPhase \<times> uid list \<times> spreadState" where
  "janitorPiece ttl now src (JScan, alerts, s) =
     (let expired = expiredReservations ttl now s in (if length expired = 0 then JDone else JList expired, alerts, s))"
| "janitorPiece ttl now src (JList expired, alerts, s) =
     (case src of Inl err \<Rightarrow> (JDone, alerts @ expired, s) | Inr counts \<Rightarrow> (JLook counts expired, alerts, s))"
| "janitorPiece ttl now src (JLook counts [], alerts, s) = (JDone, alerts, s)"
| "janitorPiece ttl now src (JLook counts (u # us), alerts, s) =
     (case mget (st_resv s) u of
        None \<Rightarrow> (JLook counts us, alerts, s)
      | Some r \<Rightarrow>
          (case mget counts u of
             None \<Rightarrow> (JDrop counts u (rsv_NodeName r) us, alerts, s)
           | Some ref \<Rightarrow>
               (if NodeNameOf ref \<noteq> rsv_NodeName r then JDrop counts u (rsv_NodeName r) us else JRebuild counts u us, alerts, s)))"
| "janitorPiece ttl now src (JDrop counts u expectedNode us, alerts, s) = (JLook counts us, alerts, releaseUnverified u expectedNode s)"
| "janitorPiece ttl now src (JRebuild counts u us, alerts, s) = (JRelease counts u us, alerts, rebuild counts s)"
| "janitorPiece ttl now src (JRelease counts u us, alerts, s) = (JCheck counts u us, alerts, releaseIfObserved u s)"
| "janitorPiece ttl now src (JCheck counts u us, alerts, s) =
     (JLook counts us, case reservationPhase u s of Some ph \<Rightarrow> alerts @ [u] | None \<Rightarrow> alerts, s)"
| "janitorPiece ttl now src (JDone, alerts, s) = (JDone, alerts, s)"

subsection \<open>Uninterrupted passes\<close>

lemma janitor_idle: "(janitorPiece ttl now src ^^ n) (JDone, alerts, s) = (JDone, alerts, s)"
  by (induction n) (simp_all add: funpow_swap1)

text \<open>Four pieces are enough for one UID.\<close>

lemma janitor_one:
  "\<exists>n\<le>4. (janitorPiece ttl now src ^^ n) (JLook counts (u # us), alerts, s) =
     (case janitorStep counts u (alerts, s) of (alerts', s') \<Rightarrow> (JLook counts us, alerts', s'))"
proof -
  consider (absent) "mget (st_resv s) u = None"
    | (drop) r where "mget (st_resv s) u = Some r" "\<forall>ref. mget counts u = Some ref \<longrightarrow> NodeNameOf ref \<noteq> rsv_NodeName r"
    | (bound) r ref where "mget (st_resv s) u = Some r" "mget counts u = Some ref" "NodeNameOf ref = rsv_NodeName r" by blast
  then show ?thesis
  proof cases
    case absent
    then show ?thesis by (intro exI [of _ 1]) (simp add: janitorStep_def)
  next
    case drop
    then show ?thesis by (intro exI [of _ 2]) (simp add: numeral_2_eq_2 janitorStep_def split: option.split)
  next
    case bound
    then show ?thesis
      by (intro exI [of _ 4]) (simp add: eval_nat_numeral janitorStep_def Let_def split: option.split)
  qed
qed

lemma janitor_all:
  "\<exists>n\<le>4 * length us + 1. (janitorPiece ttl now src ^^ n) (JLook counts us, alerts, s) =
     (case fold (janitorStep counts) us (alerts, s) of (alerts', s') \<Rightarrow> (JDone, alerts', s'))"
proof (induction us arbitrary: alerts s)
  case Nil
  show ?case by (intro exI [of _ 1]) simp
next
  case (Cons u us)
  obtain alerts1 s1 where one: "janitorStep counts u (alerts, s) = (alerts1, s1)" by (cases "janitorStep counts u (alerts, s)")
  obtain m where m: "m \<le> 4" "(janitorPiece ttl now src ^^ m) (JLook counts (u # us), alerts, s) = (JLook counts us, alerts1, s1)"
    using janitor_one [of ttl now src counts u us alerts s] one by auto
  obtain n where n: "n \<le> 4 * length us + 1" "(janitorPiece ttl now src ^^ n) (JLook counts us, alerts1, s1) =
      (case fold (janitorStep counts) us (alerts1, s1) of (alerts', s') \<Rightarrow> (JDone, alerts', s'))"
    using Cons.IH by blast
  from m n one show ?case by (intro exI [of _ "n + m"]) (simp add: funpow_add)
qed

text \<open>An uninterrupted pass ends, after at most four pieces per expired reservation and three more, with the alerts and the state of \<open>janitorOnce\<close>.\<close>

theorem janitor_pieces_add_up:
  assumes "4 * length (expiredReservations ttl now s) + 3 \<le> n"
  shows "(janitorPiece ttl now src ^^ n) (JScan, [], s) = (case janitorOnce ttl src now s of (alerts, s') \<Rightarrow> (JDone, alerts, s'))"
proof -
  let ?E = "expiredReservations ttl now s" and ?final = "case janitorOnce ttl src now s of (alerts, s') \<Rightarrow> (JDone, alerts, s')"
  obtain m where m: "m \<le> 4 * length ?E + 3" "(janitorPiece ttl now src ^^ m) (JScan, [], s) = ?final"
  proof (cases "?E = []")
    case True
    then show thesis by (intro that [of 1]) (simp_all add: janitorOnce_def Let_def)
  next
    case False
    show thesis
    proof (cases src)
      case (Inl err)
      with False show thesis by (intro that [of 2]) (simp_all add: numeral_2_eq_2 janitorOnce_def Let_def)
    next
      case (Inr counts)
      obtain k where k: "k \<le> 4 * length ?E + 1" "(janitorPiece ttl now src ^^ k) (JLook counts ?E, [], s) =
          (case fold (janitorStep counts) ?E ([], s) of (alerts', s') \<Rightarrow> (JDone, alerts', s'))"
        using janitor_all by blast
      have two: "(janitorPiece ttl now src ^^ 2) (JScan, [], s) = (JLook counts ?E, [], s)" using False Inr by (simp add: numeral_2_eq_2)
      have "janitorOnce ttl src now s = fold (janitorStep counts) ?E ([], s)" using False Inr by (simp add: janitorOnce_def Let_def)
      with k two show thesis by (intro that [of "k + 2"]) (simp_all only: funpow_add comp_apply)
    qed
  qed
  obtain alerts s' where e: "?final = (JDone, alerts, s')" by (cases "janitorOnce ttl src now s") simp
  from m(1) assms have "n = (n - m) + m" by simp
  then have "(janitorPiece ttl now src ^^ n) (JScan, [], s) = (janitorPiece ttl now src ^^ (n - m)) ?final"
    using m(2) funpow_add [of "n - m" m "janitorPiece ttl now src"] by (metis comp_apply)
  then show ?thesis unfolding e by (simp add: janitor_idle)
qed

subsection \<open>Interleaved passes\<close>

text \<open>What happens next: a piece of the pass, or some other method or pod event.\<close>

datatype janitorEvent = Piece | Other seatOp

fun janitorEventStep ::
    "duration \<Rightarrow> int \<Rightarrow> countListing \<Rightarrow> janitorEvent \<Rightarrow> janitorPhase \<times> uid list \<times> spreadState \<Rightarrow> janitorPhase \<times> uid list \<times> spreadState" where
  "janitorEventStep ttl now src Piece c = janitorPiece ttl now src c"
| "janitorEventStep ttl now src (Other op) (ph, alerts, s) = (ph, alerts, snd (seatStep op s))"

text \<open>The UIDs that a pass may still release.\<close>

fun pending :: "janitorPhase \<Rightarrow> uid set" where
  "pending (JList us) = set us"
| "pending (JLook counts us) = set us"
| "pending (JDrop counts u node us) = insert u (set us)"
| "pending (JRebuild counts u us) = insert u (set us)"
| "pending (JRelease counts u us) = insert u (set us)"
| "pending (JCheck counts u us) = insert u (set us)"
| "pending _ = {}"

text \<open>Apart from a new reservation, no method gives a pod a reservation or changes its node or its age.\<close>

lemma reservation_origin:
  assumes "mget (st_resv (snd (seatStep op s))) u = Some r'" and "\<And>ref admit t. op \<noteq> Hold u ref admit t"
  shows "\<exists>r. mget (st_resv s) u = Some r \<and> rsv_Since r' = rsv_Since r \<and> rsv_NodeName r' = rsv_NodeName r"
proof (cases op)
  case (Hold v ref admit t)
  with assms(2) have "v \<noteq> u" by auto
  with assms(1) Hold show ?thesis
    by (auto simp: seatStep_def TryReserveChecked_def bindOutcome_Ret_iff split: if_splits outcome.splits)
qed (use assms(1) in \<open>auto simp: seatStep_def upsertCount_def removeCount_def rebuild_def Unreserve_def MarkBound_def releaseIfObserved_def
    OnPodDelete_def OnPodAddOrUpdate_def Let_def split: if_splits option.splits\<close>)

lemma seatStep_wf:
  assumes "wf_gomap (st_resv s)" shows "wf_gomap (st_resv (snd (seatStep op s)))"
proof (cases op)
  case (Hold v ref admit t)
  with assms show ?thesis
    by (auto simp: seatStep_def TryReserveChecked_def bindOutcome_Ret_iff split: if_splits outcome.splits)
qed (use assms in \<open>auto simp: seatStep_def upsertCount_def removeCount_def rebuild_def Unreserve_def MarkBound_def releaseIfObserved_def
    OnPodDelete_def OnPodAddOrUpdate_def Let_def split: if_splits option.splits\<close>)

text \<open>The listing a pass works with.\<close>

fun listingOf :: "janitorPhase \<Rightarrow> (uid, podRef) gomap option" where
  "listingOf (JLook counts us) = Some counts"
| "listingOf (JDrop counts u node us) = Some counts"
| "listingOf (JRebuild counts u us) = Some counts"
| "listingOf (JRelease counts u us) = Some counts"
| "listingOf (JCheck counts u us) = Some counts"
| "listingOf _ = None"

definition notThere :: "(uid, podRef) gomap \<Rightarrow> uid \<Rightarrow> string \<Rightarrow> bool" where
  "notThere counts u node \<longleftrightarrow> (\<forall>ref. mget counts u = Some ref \<longrightarrow> NodeNameOf ref \<noteq> node)"

text \<open>The invariant of a pass: what it may still release is expired, it works with the listing it was given, and what it is about to drop is not where
  the listing has it.\<close>

definition janitorInv :: "duration \<Rightarrow> int \<Rightarrow> countListing \<Rightarrow> janitorPhase \<times> uid list \<times> spreadState \<Rightarrow> bool" where
  "janitorInv ttl now src = (\<lambda>(ph, alerts, s).
     wf_gomap (st_resv s) \<and> (\<forall>counts. listingOf ph = Some counts \<longrightarrow> src = Inr counts) \<and>
     (\<forall>u\<in>pending ph. \<forall>r. mget (st_resv s) u = Some r \<longrightarrow> ttl \<le> timeSub now (rsv_Since r)) \<and>
     (\<forall>counts u node us r. ph = JDrop counts u node us \<and> mget (st_resv s) u = Some r \<longrightarrow> rsv_NodeName r = node \<and> notThere counts u node))"

lemma janitorInv_other:
  assumes "janitorInv ttl now src (ph, alerts, s)" and "\<And>u ref admit t. op = Hold u ref admit t \<Longrightarrow> u \<notin> pending ph"
  shows "janitorInv ttl now src (ph, alerts, snd (seatStep op s))"
proof -
  have origin: "\<exists>r. mget (st_resv s) u = Some r \<and> rsv_Since r' = rsv_Since r \<and> rsv_NodeName r' = rsv_NodeName r"
    if "u \<in> pending ph" "mget (st_resv (snd (seatStep op s))) u = Some r'" for u r'
    using reservation_origin [OF that(2)] assms(2) that(1) by blast
  have old: "\<forall>u\<in>pending ph. \<forall>r. mget (st_resv s) u = Some r \<longrightarrow> ttl \<le> timeSub now (rsv_Since r)"
    "\<And>counts u node us r. ph = JDrop counts u node us \<Longrightarrow> mget (st_resv s) u = Some r \<Longrightarrow> rsv_NodeName r = node \<and> notThere counts u node"
    using assms(1) by (auto simp: janitorInv_def)
  have "ttl \<le> timeSub now (rsv_Since r')" if "u \<in> pending ph" "mget (st_resv (snd (seatStep op s))) u = Some r'" for u r'
    using origin [OF that] old(1) that(1) by auto
  moreover have "rsv_NodeName r' = node \<and> notThere counts u node"
    if ph: "ph = JDrop counts u node us" and r': "mget (st_resv (snd (seatStep op s))) u = Some r'" for counts u node us r'
    using origin [OF _ r'] old(2) [OF ph] by (auto simp: ph)
  ultimately show ?thesis using assms(1) seatStep_wf unfolding janitorInv_def by simp
qed

lemma dropped_resv:
  "mget (st_resv (releaseUnverified u node s)) v = (if v = u then None else mget (st_resv s) v)"
  "mget (st_resv (rebuild counts s)) v = mget (st_resv s) v"
  "mget (st_resv (releaseIfObserved u s)) v = Some r \<Longrightarrow> mget (st_resv s) v = Some r"
  by (auto simp: releaseUnverified_def rebuild_def releaseIfObserved_def split: option.splits if_splits)

lemma dropped_wf:
  "wf_gomap (st_resv s) \<Longrightarrow> wf_gomap (st_resv (releaseUnverified u node s))"
  "wf_gomap (st_resv s) \<Longrightarrow> wf_gomap (st_resv (rebuild counts s))"
  "wf_gomap (st_resv s) \<Longrightarrow> wf_gomap (st_resv (releaseIfObserved u s))"
  by (auto simp: releaseUnverified_def rebuild_def releaseIfObserved_def split: option.splits if_splits)

lemma janitorInv_piece:
  assumes "janitorInv ttl now src (ph, alerts, s)"
  shows "janitorInv ttl now src (janitorPiece ttl now src (ph, alerts, s))"
proof (cases ph)
  case JScan
  with assms expired_iff [of s] show ?thesis by (fastforce simp: janitorInv_def Let_def)
next
  case (JLook counts us)
  with assms show ?thesis by (cases us) (auto simp: janitorInv_def notThere_def split: option.splits)
next
  case (JDrop counts u node us)
  with assms show ?thesis by (auto simp: janitorInv_def dropped_resv(1,2) dropped_wf split: if_splits)
next
  case (JRelease counts u us)
  with assms show ?thesis by (simp add: janitorInv_def dropped_wf) (blast dest: dropped_resv(3))
qed (use assms in \<open>auto simp: janitorInv_def dropped_resv(1,2) dropped_wf split: sum.splits option.splits\<close>)

text \<open>Within a pass no UID that it may still release gets a new reservation.\<close>

definition undisturbed :: "duration \<Rightarrow> int \<Rightarrow> countListing \<Rightarrow> janitorEvent list \<Rightarrow> spreadState \<Rightarrow> bool" where
  "undisturbed ttl now src evs s \<longleftrightarrow> (\<forall>before u ref admit t after. evs = before @ Other (Hold u ref admit t) # after \<longrightarrow>
     u \<notin> pending (fst (fold (janitorEventStep ttl now src) before (JScan, [], s))))"

lemma janitorInv_run:
  assumes "wf_gomap (st_resv s)" and "undisturbed ttl now src evs s"
  shows "janitorInv ttl now src (fold (janitorEventStep ttl now src) evs (JScan, [], s))"
  using assms(2)
proof (induction evs rule: rev_induct)
  case Nil
  show ?case using assms(1) by (simp add: janitorInv_def)
next
  case (snoc e evs)
  obtain ph alerts s1 where run: "fold (janitorEventStep ttl now src) evs (JScan, [], s) = (ph, alerts, s1)"
    by (cases "fold (janitorEventStep ttl now src) evs (JScan, [], s)") auto
  have "undisturbed ttl now src evs s" using snoc.prems unfolding undisturbed_def by (metis append.assoc append_Cons)
  then have inv: "janitorInv ttl now src (ph, alerts, s1)" using snoc.IH run by simp
  show ?case
  proof (cases e)
    case Piece
    then show ?thesis using janitorInv_piece [OF inv] run by simp
  next
    case (Other op)
    have "u \<notin> pending ph" if "op = Hold u ref admit t" for u ref admit t
      using snoc.prems that Other run unfolding undisturbed_def by (metis fst_conv)
    from janitorInv_other [OF inv this] show ?thesis using Other run by simp
  qed
qed

text \<open>What one piece does to a reservation.\<close>

lemma janitorPiece_resv:
  assumes "janitorInv ttl now src (ph, alerts, s)" and "mget (st_resv s) v = Some r" and "janitorPiece ttl now src (ph, alerts, s) = (ph', alerts', s')"
  shows "mget (st_resv s') v = Some r \<or>
    mget (st_resv s') v = None \<and> ttl \<le> timeSub now (rsv_Since r) \<and>
      (\<exists>counts. src = Inr counts \<and> notThere counts v (rsv_NodeName r) \<or>
        (\<exists>ref. mget (snap_pods (st_snap s')) v = Some ref \<and> NodeNameOf ref = rsv_NodeName r))"
proof (cases ph)
  case (JLook counts us)
  with assms(2,3) show ?thesis by (cases us) (auto split: option.splits)
next
  case (JDrop counts u node us)
  with assms show ?thesis by (cases "v = u") (auto simp: janitorInv_def dropped_resv(1))
next
  case (JRelease counts u us)
  then have s': "s' = releaseIfObserved u s" using assms(3) by simp
  show ?thesis
  proof (cases "v = u")
    case True
    with assms(1) JRelease have "ttl \<le> timeSub now (rsv_Since r)" using assms(2) by (simp add: janitorInv_def)
    with True assms(2) s' show ?thesis by (auto simp: releaseIfObserved_def split: option.splits)
  next
    case False
    with assms(2) s' show ?thesis by (auto simp: releaseIfObserved_def split: option.splits)
  qed
qed (use assms(2,3) in \<open>auto simp: Let_def dropped_resv(2) split: sum.splits option.splits if_splits\<close>)

text \<open>C12: What the janitor releases. Let any methods and pod events run between the critical sections of a pass, as long as no pod that the pass may still release is reserved anew
  meanwhile. Then a piece of the pass changes no reservation except by releasing it, and releases only reservations that are older than the TTL and whose pod the
  listing does not show on the reserved node, or is counted there in the snapshot.\<close>

theorem janitor_releases_are_justified:
  assumes "wf_gomap (st_resv s0)" and "undisturbed ttl now src evs s0"
    and "fold (janitorEventStep ttl now src) evs (JScan, [], s0) = (ph, alerts, s)" and "janitorPiece ttl now src (ph, alerts, s) = (ph', alerts', s')"
    and "mget (st_resv s) v = Some r"
  shows "mget (st_resv s') v = Some r \<or>
    mget (st_resv s') v = None \<and> ttl \<le> timeSub now (rsv_Since r) \<and>
      (\<exists>counts. src = Inr counts \<and> (\<forall>ref. mget counts v = Some ref \<longrightarrow> NodeNameOf ref \<noteq> rsv_NodeName r) \<or>
        (\<exists>ref. mget (snap_pods (st_snap s')) v = Some ref \<and> NodeNameOf ref = rsv_NodeName r))"
proof -
  have "janitorInv ttl now src (ph, alerts, s)" using janitorInv_run [OF assms(1,2)] assms(3) by simp
  from janitorPiece_resv [OF this assms(5,4)] show ?thesis by (simp add: notThere_def)
qed

subsection \<open>A reservation that is too young\<close>

text \<open>A pod whose reservation expired is given up and reserved again on another node while the janitor lists the cluster. The pass then looks at the new reservation, does not ask for its
  age, and releases it, although its binding is in flight: another pod gets the only seat, and both end up on the node.\<close>

definition staleState :: spreadState where
  "staleState = newSpreadState\<lparr>st_resv := [(''u1'', newReservation ''u1'' (exampleRef ''n1'') 0)]\<rparr>"

definition oneSeat :: "string \<Rightarrow> admission" where
  "oneSeat n = (\<lambda>eff. Ret (sint (snd (eff n ''q/d'' ''q'')) < 1))"

definition youngRace :: "janitorEvent list" where
  "youngRace = [Piece, Piece, Other (Cancel ''u1''), Other (Hold ''u1'' (exampleRef ''n2'') (oneSeat ''n2'') 99), Piece, Piece]"

lemma young_hold:
  "seatStep (Hold u (exampleRef ''n2'') (oneSeat ''n2'') t) newSpreadState = (Held True, newSpreadState\<lparr>st_resv := [(u, newReservation u (exampleRef ''n2'') t)]\<rparr>)"
  by (simp add: seatStep_def TryReserveChecked_def guardOf_def guard_EffCount_def oneSeat_def snapshot_count_def newSpreadState_def emptySnapshot_def newReservation_def)

theorem janitor_drops_young_reservation:
  "\<exists>s2. fold (janitorEventStep 30 100 (Inr [])) (take 4 youngRace) (JScan, [], staleState) =
       (JLook [] [''u1''], [], newSpreadState\<lparr>st_resv := [(''u1'', newReservation ''u1'' (exampleRef ''n2'') 99)]\<rparr>) \<and>
     fold (janitorEventStep 30 100 (Inr [])) youngRace (JScan, [], staleState) = (JLook [] [], [], newSpreadState) \<and>
     seatStep (Hold ''u2'' (exampleRef ''n2'') (oneSeat ''n2'') 101) newSpreadState = (Held True, s2) \<and>
     snapshot_count (st_snap (upsertCount ''u2'' (exampleRef ''n2'') (upsertCount ''u1'' (exampleRef ''n2'') s2))) ''n2'' ''q'' ''q/d'' = (2, 2)"
proof -
  have scan: "expiredReservations 30 100 staleState = [''u1'']" by (simp add: expiredReservations_def staleState_def newReservation_def timeSub_def)
  have cancel: "Unreserve ''u1'' staleState = newSpreadState" by (simp add: Unreserve_def staleState_def newReservation_def newSpreadState_def)
  have four: "fold (janitorEventStep 30 100 (Inr [])) (take 4 youngRace) (JScan, [], staleState) =
      (JLook [] [''u1''], [], newSpreadState\<lparr>st_resv := [(''u1'', newReservation ''u1'' (exampleRef ''n2'') 99)]\<rparr>)"
    by (simp add: youngRace_def scan young_hold) (simp add: seatStep_def cancel young_hold [unfolded seatStep_def, simplified])
  have "youngRace = take 4 youngRace @ [Piece, Piece]" by (simp add: youngRace_def)
  then have "fold (janitorEventStep 30 100 (Inr [])) youngRace (JScan, [], staleState) =
      fold (janitorEventStep 30 100 (Inr [])) [Piece, Piece] (fold (janitorEventStep 30 100 (Inr [])) (take 4 youngRace) (JScan, [], staleState))"
    using fold_append [of "janitorEventStep 30 100 (Inr [])" "take 4 youngRace" "[Piece, Piece]"] by (metis comp_apply)
  also have "\<dots> = (JLook [] [], [], newSpreadState)" unfolding four by (simp add: releaseUnverified_def newSpreadState_def)
  finally have race: "fold (janitorEventStep 30 100 (Inr [])) youngRace (JScan, [], staleState) = (JLook [] [], [], newSpreadState)" .
  have "snapshot_count (st_snap (upsertCount ''u2'' (exampleRef ''n2'') (upsertCount ''u1'' (exampleRef ''n2'')
      (newSpreadState\<lparr>st_resv := [(''u2'', newReservation ''u2'' (exampleRef ''n2'') 101)]\<rparr>)))) ''n2'' ''q'' ''q/d'' = (2, 2)"
    by (simp add: upsertCount_def snapshot_clone_def copyMap_def applyCount_def incMap_def rowOf_def mget0_def newSpreadState_def emptySnapshot_def exampleRef_def snapshot_count_def)
  with four race young_hold show ?thesis by blast
qed

text \<open>The hypotheses can hold: a pod event and the reservation of another pod come between the pieces of a pass that releases the stale reservation.\<close>

lemma stale_hold:
  "seatStep (Hold ''u2'' (exampleRef ''n2'') (oneSeat ''n2'') 99) staleState =
     (Held True, staleState\<lparr>st_resv := st_resv staleState @ [(''u2'', newReservation ''u2'' (exampleRef ''n2'') 99)]\<rparr>)"
  by (simp add: seatStep_def TryReserveChecked_def guardOf_def guard_EffCount_def oneSeat_def snapshot_count_def staleState_def newSpreadState_def
      emptySnapshot_def newReservation_def exampleRef_def)

theorem janitor_releases_are_justified_witness:
  "\<exists>s s' r. fold (janitorEventStep 30 100 (Inr [])) [Piece, Piece, Other (Hold ''u2'' (exampleRef ''n2'') (oneSeat ''n2'') 99), Piece] (JScan, [], staleState) =
       (JDrop [] ''u1'' ''n1'' [], [], s) \<and>
     janitorPiece 30 100 (Inr []) (JDrop [] ''u1'' ''n1'' [], [], s) = (JLook [] [], [], s') \<and> mget (st_resv s) ''u1'' = Some r \<and>
     mget (st_resv s') ''u1'' = None \<and> 30 \<le> timeSub 100 (rsv_Since r)"
proof -
  let ?evs = "[Piece, Piece, Other (Hold ''u2'' (exampleRef ''n2'') (oneSeat ''n2'') 99), Piece]"
  let ?s = "staleState\<lparr>st_resv := st_resv staleState @ [(''u2'', newReservation ''u2'' (exampleRef ''n2'') 99)]\<rparr>"
  let ?s' = "releaseUnverified ''u1'' ''n1'' ?s"
  have scan: "expiredReservations 30 100 staleState = [''u1'']" by (simp add: expiredReservations_def staleState_def newReservation_def timeSub_def)
  have u1: "mget (st_resv ?s) ''u1'' = Some (newReservation ''u1'' (exampleRef ''n1'') 0)" by (simp add: staleState_def)
  have run: "fold (janitorEventStep 30 100 (Inr [])) ?evs (JScan, [], staleState) = (JDrop [] ''u1'' ''n1'' [], [], ?s)"
    by (simp add: scan stale_hold) (simp add: staleState_def newReservation_def exampleRef_def)
  have drop: "janitorPiece 30 100 (Inr []) (JDrop [] ''u1'' ''n1'' [], [], ?s) = (JLook [] [], [], ?s')" by simp
  have quiet: "undisturbed 30 100 (Inr []) ?evs staleState"
    by (auto simp: undisturbed_def Cons_eq_append_conv scan)
  have wf: "wf_gomap (st_resv staleState)" by (simp add: staleState_def wf_gomap_def)
  have gone: "mget (st_resv ?s') ''u1'' = None" by (simp add: dropped_resv(1))
  with janitor_releases_are_justified [OF wf quiet run drop u1] run drop u1 show ?thesis by auto
qed

end
