(* ===== verification/Rollout.thy ===== *)
theory Rollout
  imports Replicas
begin

section \<open>From the Secret to the pods that serve\<close>

text \<open>
  What lies between the Secret that the rotator of \<open>internal/webhook/selfcert.go\<close> writes and the TLS handshake of the API server, composed with the interleaved
  replicas of \<open>Replicas\<close>. The kubelet copies some version of the Secret into the mounted volume of a pod, possibly late; \<open>certwatcher\<close>, or a restart
  of the pod by the rolled Deployment, makes the server use what is mounted. The API server trusts the CA that was patched last into the webhook configuration.
  Nothing bounds when a pod is updated: the file comment describes the path, and \<open>ensure\<close> notes that reloads can be missed.
\<close>

subsection \<open>The path of a pair\<close>

text \<open>\<open>ro_versions\<close> are the versions that the Secret has had, \<open>ro_mounted\<close> and \<open>ro_served\<close> what each pod has mounted and serves.\<close>

record ('r, 's) rollout =
  ro_fleet :: "('r, 's) fleet"
  ro_versions :: "Secret set"
  ro_mounted :: "nat \<Rightarrow> Secret option"
  ro_served :: "nat \<Rightarrow> Secret option"

definition observe :: "'s CertRotator \<Rightarrow> 's \<Rightarrow> Secret set \<Rightarrow> Secret set" where
  "observe rot s V = (case readSecret rot s of (Some sec, None) \<Rightarrow> insert sec V | _ \<Rightarrow> V)"

inductive rolloutStep ::
    "('r, 'k) x509_lib \<Rightarrow> string \<Rightarrow> 's CertRotator \<Rightarrow> ('s \<Rightarrow> string) \<Rightarrow> ('r, 's) rollout \<Rightarrow> ('r, 's) rollout \<Rightarrow> bool"
  for lib :: "('r, 'k) x509_lib" and env :: string and rot :: "'s CertRotator" and caBundle :: "'s \<Rightarrow> string" where
  Rotation: "singleWriterStep lib env rot caBundle (ro_fleet x) f \<Longrightarrow>
     rolloutStep lib env rot caBundle x (x\<lparr>ro_fleet := f, ro_versions := observe rot (fl_cluster f) (ro_versions x)\<rparr>)"
| Mount: "sec \<in> ro_versions x \<Longrightarrow> rolloutStep lib env rot caBundle x (x\<lparr>ro_mounted := (ro_mounted x)(i := Some sec)\<rparr>)"
| Reload: "ro_mounted x i = Some sec \<Longrightarrow> rolloutStep lib env rot caBundle x (x\<lparr>ro_served := (ro_served x)(i := Some sec)\<rparr>)"

text \<open>A pod is trusted if the CA the API server was told is the one of the pair it serves.\<close>

definition trusted :: "'s CertRotator \<Rightarrow> ('s \<Rightarrow> string) \<Rightarrow> ('r, 's) rollout \<Rightarrow> nat \<Rightarrow> bool" where
  "trusted rot caBundle x i \<longleftrightarrow> (\<exists>sec. ro_served x i = Some sec \<and>
     caBundle (fl_cluster (ro_fleet x)) = CaBundlePatch (cr_webhookCfgName rot) (mgets (sec_Data sec) caCertKey))"

definition pairsIssued :: "('r, 'k) x509_lib \<Rightarrow> 's CertRotator \<Rightarrow> ('r, 's) rollout \<Rightarrow> bool" where
  "pairsIssued lib rot x \<longleftrightarrow>
     (\<forall>sec. sec \<in> ro_versions x \<or> (\<exists>i. ro_mounted x i = Some sec \<or> ro_served x i = Some sec) \<longrightarrow> issued_data lib (cr_dnsNames rot) (sec_Data sec))"

definition rolloutInv :: "('r, 'k) x509_lib \<Rightarrow> 's CertRotator \<Rightarrow> ('s \<Rightarrow> string) \<Rightarrow> ('r, 's) rollout \<Rightarrow> bool" where
  "rolloutInv lib rot caBundle x \<longleftrightarrow> api_laws rot \<and> bundle_laws rot caBundle \<and> pairInv lib rot (ro_fleet x) \<and>
     singleInv lib rot caBundle (ro_fleet x) \<and> pairsIssued lib rot x"

lemma rolloutInv_step:
  assumes "rolloutStep lib env rot caBundle x x'" and inv: "rolloutInv lib rot caBundle x"
  shows "rolloutInv lib rot caBundle x'"
  using assms(1)
proof cases
  case (Rotation f)
  have laws: "api_laws rot" "bundle_laws rot caBundle" and old: "pairsIssued lib rot x" using inv by (simp_all add: rolloutInv_def)
  have step: "fleetStep lib env rot caBundle (ro_fleet x) f" using Rotation(2) by (simp add: singleWriterStep_def)
  have pair: "pairInv lib rot f" using pairInv_step [OF laws(1) step] inv by (simp add: rolloutInv_def)
  have single: "singleInv lib rot caBundle f" using singleInv_step [OF laws Rotation(2)] inv by (simp add: rolloutInv_def)
  have "issued_data lib (cr_dnsNames rot) (sec_Data sec)" if "sec \<in> observe rot (fl_cluster f) (ro_versions x)" for sec
    using that pair old by (auto simp: observe_def pairInv_def stored_pair_def pairsIssued_def split: prod.splits option.splits)
  then show ?thesis using laws pair single old Rotation(1) by (auto simp: rolloutInv_def pairsIssued_def)
qed (use inv in \<open>auto simp: rolloutInv_def pairsIssued_def split: if_splits\<close>)

interpretation rolled: invariant_system "rolloutInv lib rot caBundle" "rolloutStep lib env rot caBundle" "rolloutInv lib rot caBundle"
  for lib env rot caBundle
  by unfold_locales (auto intro: rolloutInv_step)

text \<open>A fresh install: no Secret, nothing mounted, nothing served.\<close>

definition freshInstall :: "'s CertRotator \<Rightarrow> ('r, 's) rollout \<Rightarrow> bool" where
  "freshInstall rot x \<longleftrightarrow> (\<forall>i. rep_phase (fl_replica (ro_fleet x) i) = PassStart \<and> ro_mounted x i = None \<and> ro_served x i = None) \<and>
     snd (readSecret rot (fl_cluster (ro_fleet x))) \<noteq> None \<and> ro_versions x = {}"

lemma fresh_rolloutInv:
  assumes "freshInstall rot x" and "api_laws rot" and "bundle_laws rot caBundle"
  shows "rolloutInv lib rot caBundle x"
  using assms by (auto simp: freshInstall_def rolloutInv_def pairInv_def stored_pair_def phase_pair_def pairsIssued_def
      singleInv_def current_def phase_current_def writing_def)


subsection \<open>Every rotation cuts off the pods in service\<close>

lemma publish_bundle:
  assumes "bundle_laws rot caBundle" and "publish rot tm roll ca s = ((True, None), s')"
  shows "caBundle s' = CaBundlePatch (cr_webhookCfgName rot) (ca_CertPEM ca)"
  using assms(2) bundle_lawsD(1,4) [OF assms(1)]
  by (auto simp: publish_def rollWebhookDeployment_def Let_def split: prod.splits option.splits sum.splits if_splits)

text \<open>A comment of \<open>ensure\<close> calls a fresh CA on every rotation safe because the caBundle is patched together with the Secret. The pods are not: whenever a pass issues a second or
  more after the pair that a pod serves was issued, and publishes successfully, the API server no longer trusts that pod, though its leaf may be valid for another thirty days, until it
  has the new Secret mounted and reloaded.\<close>

theorem rotation_cuts_off_loaded_pairs:
  assumes "x509_laws lib" and "bundle_laws rot caBundle"
    and "GenerateCA lib caLifeTime t r0 = (Inr ca, r1)" and "GenerateLeaf lib ca (cr_dnsNames rot) leafLifeTime u r2 = (Inr leaf, r3)"
    and "ro_served x i = Some (SecretFromCerts env0 ca leaf)"
    and "ensure lib env rot tm roll (r, fl_cluster (ro_fleet x)) = Ret ((True, None), r', s')" and "t + Second \<le> pt_ca tm"
  shows "\<not> trusted rot caBundle (x\<lparr>ro_fleet := (ro_fleet x)\<lparr>fl_cluster := s'\<rparr>\<rparr>) i"
proof
  assume trust: "trusted rot caBundle (x\<lparr>ro_fleet := (ro_fleet x)\<lparr>fl_cluster := s'\<rparr>\<rparr>) i"
  from ensure_issued [OF assms(6)] obtain ca' leaf' r1' s1 where
    new: "GenerateCA lib caLifeTime (pt_ca tm) r = (Inr ca', r1')" "GenerateLeaf lib ca' (cr_dnsNames rot) leafLifeTime (pt_leaf tm) r1' = (Inr leaf', r')"
    and pub: "publish rot tm roll ca' s1 = ((True, None), s')" .
  have "caBundle s' = CaBundlePatch (cr_webhookCfgName rot) (ca_CertPEM ca')" by (rule publish_bundle [OF assms(2) pub])
  moreover have "mgets (sec_Data (SecretFromCerts env0 ca leaf)) caCertKey = ca_CertPEM ca" by (simp add: SecretFromCerts_def mgets_def)
  ultimately have "ca_CertPEM ca = ca_CertPEM ca'" using trust assms(5) by (auto simp: trusted_def dest!: CaBundlePatch_inj)
  with later_CA_differs [OF assms(1,3,4) new assms(7)] show False by simp
qed

subsection \<open>The hypotheses can hold\<close>

lemma rotations:
  assumes "(singleWriterStep lib env rot caBundle)\<^sup>*\<^sup>* (ro_fleet x) f" and "snd (readSecret rot (fl_cluster (ro_fleet x))) \<noteq> None"
  shows "\<exists>V. (rolloutStep lib env rot caBundle)\<^sup>*\<^sup>* x (x\<lparr>ro_fleet := f, ro_versions := V\<rparr>) \<and>
    (\<forall>sec. readSecret rot (fl_cluster f) = (Some sec, None) \<longrightarrow> sec \<in> V)"
  using assms(1)
proof (induction rule: rtranclp_induct)
  case base
  show ?case using assms(2) by (intro exI [of _ "ro_versions x"]) auto
next
  case (step f f')
  then obtain V where run: "(rolloutStep lib env rot caBundle)\<^sup>*\<^sup>* x (x\<lparr>ro_fleet := f, ro_versions := V\<rparr>)" by blast
  let ?V = "observe rot (fl_cluster f') V"
  have "rolloutStep lib env rot caBundle (x\<lparr>ro_fleet := f, ro_versions := V\<rparr>) (x\<lparr>ro_fleet := f', ro_versions := ?V\<rparr>)"
    using rolloutStep.Rotation [of lib env rot caBundle "x\<lparr>ro_fleet := f, ro_versions := V\<rparr>" f'] step.hyps(2) by simp
  with run show ?case by (intro exI [of _ ?V]) (auto simp: observe_def)
qed

definition demoRollout :: "(nat, demoCluster) rollout" where
  "demoRollout = \<lparr>ro_fleet = demoFleet, ro_versions = {}, ro_mounted = (\<lambda>i. None), ro_served = (\<lambda>i. None)\<rparr>"


end
